(* ===== verification/Prelude.thy ===== *)
theory Prelude
  imports
    Main
    "HOL-Library.Word"
    "HOL-Library.Signed_Division"
    "HOL-Library.Multiset"
    "HOL-Library.Char_ord"
    "HOL-Library.List_Lexorder"
    "HOL-Library.Product_Lexorder"
begin

text \<open>
  Shared ground of the development: Go's fixed-width integers, durations and times, byte strings,
  and the list lemmas that several components need.

  \<^item> Go's \<open>int64\<close>, \<open>int\<close> (64 bits on every supported target), \<open>time.Duration\<close> and \<open>uint64\<close> are
    64-bit words. Signed values are read with \<open>sint\<close> and compared with the signed order of
    the word library; unsigned ones are read with \<open>uint\<close> or \<open>unat\<close>. Addition and multiplication
    wrap, as Go's do.
  \<^item> A Go \<open>string\<close> is a byte sequence, which is what \<open>string\<close> (a list of 8-bit \<open>char\<close>s) is in HOL:
    \<open>len\<close> is \<open>length\<close> and \<open><\<close> is the lexicographic order on bytes.
  \<^item> A \<open>time.Time\<close> is an \<open>int\<close>: nanoseconds since the Unix epoch, unbounded as Go's seconds plus
    nanoseconds pair is for every reachable instant. Go's zero time is the instant \<open>zeroTime\<close>.
\<close>

section \<open>Collections of rewrite rules\<close>

named_theorems i64_simps \<open>signed 64-bit arithmetic read as integers\<close>

section \<open>Signed 64-bit integers\<close>

type_synonym int64 = "64 word"
type_synonym uint64 = "64 word"
type_synonym duration = int64
type_synonym time = int

abbreviation maxInt64 :: int where
  "maxInt64 \<equiv> 9223372036854775807"

abbreviation minInt64 :: int where
  "minInt64 \<equiv> - 9223372036854775808"

text \<open>Go's \<open>/\<close> and \<open>%\<close> truncate towards zero; the divisors of the source are non-zero constants.\<close>

definition i64_div :: "int64 \<Rightarrow> int64 \<Rightarrow> int64" where
  "i64_div a b = word_of_int (sint a sdiv sint b)"

definition i64_rem :: "int64 \<Rightarrow> int64 \<Rightarrow> int64" where
  "i64_rem a b = word_of_int (sint a smod sint b)"

definition i64_max :: "int64 \<Rightarrow> int64 \<Rightarrow> int64" where
  "i64_max a b = (if a <s b then b else a)"

lemma sint_ge_minInt64: "minInt64 \<le> sint (a :: int64)"
  using sint_greater_eq [of a] by simp

lemma sint_le_maxInt64: "sint (a :: int64) \<le> maxInt64"
  using sint_less [of a] by simp

lemma unat_less_2_64: "unat (a :: uint64) < 18446744073709551616"
  using unsigned_less [where ?'a = nat, of a] by simp

lemma sint_word_of_int_64 [i64_simps]:
  assumes "minInt64 \<le> i" and "i \<le> maxInt64"
  shows "sint (word_of_int i :: int64) = i"
  using assms by (simp add: signed_of_int signed_take_bit_int_eq_self)

lemma sint_add_64:
  assumes "minInt64 \<le> sint a + sint b" and "sint a + sint b \<le> maxInt64"
  shows "sint (a + b :: int64) = sint a + sint b"
proof -
  have "a + b = word_of_int (sint a + sint b)" by simp
  then show ?thesis using assms by (simp only: sint_word_of_int_64)
qed

lemma sint_mult_64:
  assumes "minInt64 \<le> sint a * sint b" and "sint a * sint b \<le> maxInt64"
  shows "sint (a * b :: int64) = sint a * sint b"
proof -
  have "a * b = word_of_int (sint a * sint b)" by simp
  then show ?thesis using assms by (simp only: sint_word_of_int_64)
qed

text \<open>The one wrap-around the source tests for: a sum of non-negative values that leaves the range.\<close>

lemma sint_add_wraps_64:
  assumes "0 \<le> sint a" and "0 \<le> sint b" and "maxInt64 < sint a + sint b"
  shows "sint (a + b :: int64) = sint a + sint b - 18446744073709551616"
proof -
  have "a + b = word_of_int (sint a + sint b)" by simp
  also have "\<dots> = word_of_int (sint a + sint b - 18446744073709551616)"
    by (simp add: word_of_int_eq_iff take_bit_eq_mod)
  finally show ?thesis
    using assms sint_le_maxInt64 [of a] sint_le_maxInt64 [of b]
    by (simp only: sint_word_of_int_64)
qed

lemma sless_iff_sint [i64_simps]: "a <s b \<longleftrightarrow> sint a < sint b"
  by (rule word_sless_alt)

lemma sle_iff_sint [i64_simps]: "a \<le>s b \<longleftrightarrow> sint a \<le> sint b"
  by (rule word_sle_eq)

lemma eq_iff_sint: "(a :: int64) = b \<longleftrightarrow> sint a = sint b"
  by (auto intro: signed_word_eqI)

lemma sint_i64_max [i64_simps]: "sint (i64_max a b) = max (sint a) (sint b)"
  by (auto simp: i64_max_def i64_simps)

lemma sdiv_pos: "0 \<le> x \<Longrightarrow> 0 < y \<Longrightarrow> x sdiv y = x div (y :: int)"
  by (cases "x = 0") (auto simp: signed_divide_int_def sgn_if)

lemma smod_pos: "0 \<le> x \<Longrightarrow> 0 < y \<Longrightarrow> x smod y = x mod (y :: int)"
  by (simp add: sdiv_pos minus_div_mult_eq_mod flip: minus_sdiv_mult_eq_smod)

lemma sint_i64_div:
  assumes "0 \<le> sint a" and "0 < sint b"
  shows "sint (i64_div a b) = sint a div sint b"
proof -
  have "sint a div sint b \<le> sint a"
    using assms zdiv_mono2 [of "sint a" 1 "sint b"] by simp
  moreover have "0 \<le> sint a div sint b"
    using assms by (simp add: pos_imp_zdiv_nonneg_iff)
  ultimately have "minInt64 \<le> sint a div sint b" and "sint a div sint b \<le> maxInt64"
    using sint_le_maxInt64 [of a] by linarith+
  then show ?thesis
    using assms by (simp add: i64_div_def sdiv_pos sint_word_of_int_64)
qed

lemma sint_i64_rem:
  assumes "0 \<le> sint a" and "0 < sint b"
  shows "sint (i64_rem a b) = sint a mod sint b"
proof -
  have "0 \<le> sint a mod sint b" and "sint a mod sint b < sint b"
    using assms by simp_all
  then have "minInt64 \<le> sint a mod sint b" and "sint a mod sint b \<le> maxInt64"
    using sint_le_maxInt64 [of b] by linarith+
  then show ?thesis
    using assms by (simp add: i64_rem_def smod_pos sint_word_of_int_64)
qed

section \<open>Durations and times\<close>

definition nanosecond :: int where "nanosecond = 1"
definition millisecond :: duration where "millisecond = 1000000"
definition second :: duration where "second = 1000000000"
definition minute :: duration where "minute = 60 * second"
definition hour :: duration where "hour = 60 * minute"

text \<open>\<open>time.Time{}\<close> is midnight on 1 January of year 1, UTC.\<close>

definition zeroTime :: time where
  "zeroTime = - 62135596800 * 1000000000"

definition time_IsZero :: "time \<Rightarrow> bool" where
  "time_IsZero t \<longleftrightarrow> t = zeroTime"

definition time_Before :: "time \<Rightarrow> time \<Rightarrow> bool" where
  "time_Before t u \<longleftrightarrow> t < u"

definition time_Add :: "time \<Rightarrow> duration \<Rightarrow> time" where
  "time_Add t d = t + sint d"

text \<open>\<open>Time.Sub\<close> saturates at the ends of the duration range.\<close>

definition time_Sub :: "time \<Rightarrow> time \<Rightarrow> duration" where
  "time_Sub t u = word_of_int (max minInt64 (min maxInt64 (t - u)))"

text \<open>\<open>Time.Unix\<close> is the floor of the seconds; \<open>Time.UnixNano\<close> wraps at 64 bits.\<close>

definition time_Unix :: "time \<Rightarrow> int64" where
  "time_Unix t = word_of_int (t div 1000000000)"

definition time_UnixNano :: "time \<Rightarrow> int64" where
  "time_UnixNano t = word_of_int t"

text \<open>\<open>time.Unix(0, ns)\<close>.\<close>

definition time_fromUnixNano :: "int64 \<Rightarrow> time" where
  "time_fromUnixNano ns = sint ns"

text \<open>Instants whose nanosecond count fits \<open>int64\<close> (the years 1678 to 2262).\<close>

definition nanoRange :: "time \<Rightarrow> bool" where
  "nanoRange t \<longleftrightarrow> minInt64 \<le> t \<and> t \<le> maxInt64"

lemma sint_time_Sub [i64_simps]:
  "sint (time_Sub t u) = max minInt64 (min maxInt64 (t - u))"
  unfolding time_Sub_def by (rule sint_word_of_int_64) simp_all

lemma sint_UnixNano [i64_simps]: "nanoRange t \<Longrightarrow> sint (time_UnixNano t) = t"
  by (simp add: nanoRange_def time_UnixNano_def sint_word_of_int_64)

lemma fromUnixNano_UnixNano [i64_simps]:
  "nanoRange t \<Longrightarrow> time_fromUnixNano (time_UnixNano t) = t"
  by (simp add: time_fromUnixNano_def sint_UnixNano)

lemma sint_time_units [simp]:
  "sint millisecond = 1000000" "sint second = 1000000000"
  "sint minute = 60000000000" "sint hour = 3600000000000"
  by (simp_all add: millisecond_def second_def minute_def hour_def)

section \<open>Lists\<close>

text \<open>\<open>strings.Join\<close>.\<close>

fun joinStrings :: "string \<Rightarrow> string list \<Rightarrow> string" where
  "joinStrings sep [] = []"
| "joinStrings sep [x] = x"
| "joinStrings sep (x # y # ys) = x @ sep @ joinStrings sep (y # ys)"

lemma joinStrings_Cons: "joinStrings sep ((c # cs) # xs) = c # joinStrings sep (cs # xs)"
  by (cases xs) simp_all

text \<open>
  \<open>sort.Slice\<close> promises a permutation without inversions and nothing about the order of equal
  elements. Where the key separates the elements there is only one such list.
\<close>

lemma sorted_perm_unique:
  fixes k :: "'a \<Rightarrow> 'b :: linorder"
  assumes "mset ys = mset xs" and "inj_on k (set xs)"
    and "sorted (map k ys)"
  shows "ys = sort_key k xs"
proof -
  have set: "set ys = set xs" using assms(1) by (rule mset_eq_setD)
  have "map k ys = sort (map k xs)"
    using assms by (intro properties_for_sort [symmetric]) (simp_all add: mset_map)
  also have "\<dots> = map k (sort_key k xs)"
    by (intro properties_for_sort) (simp_all add: mset_map)
  finally have "map k ys = map k (sort_key k xs)" .
  moreover have "inj_on k (set ys \<union> set (sort_key k xs))"
    using assms(2) set by simp
  ultimately show ?thesis by (rule map_inj_on)
qed

lemma sorted_wrt_not_less_sorted:
  "sorted_wrt (\<lambda>x y. \<not> k y < (k x :: 'b :: linorder)) xs \<longleftrightarrow> sorted (map k xs)"
  by (simp add: sorted_map not_less)

lemma Max_insert_image_append:
  "finite A \<Longrightarrow> Max (insert (b :: 'b :: linorder) (insert c A)) = max c (Max (insert b A))"
  by (simp add: insert_commute [of b c])

lemma filter_eq_append_ConsD:
  "filter P xs = ys @ z # zs \<Longrightarrow> P z"
  by (metis in_set_conv_decomp mem_Collect_eq set_filter)

lemma in_values_iff:
  assumes "distinct (map fst xs)"
  shows "v \<in> snd ` set xs \<longleftrightarrow> (\<exists>k. map_of xs k = Some v)"
proof
  assume "v \<in> snd ` set xs"
  then obtain k where "(k, v) \<in> set xs" by auto
  with assms have "map_of xs k = Some v" by simp
  then show "\<exists>k. map_of xs k = Some v" ..
next
  assume "\<exists>k. map_of xs k = Some v"
  then obtain k where "map_of xs k = Some v" ..
  then have "(k, v) \<in> set xs" by (rule map_of_SomeD)
  then show "v \<in> snd ` set xs" by force
qed

lemma distinct_count_list: "distinct xs \<Longrightarrow> count_list xs x = (if x \<in> set xs then 1 else 0)"
  by (induction xs) auto

lemma find_filter: "find P xs = (case filter P xs of [] \<Rightarrow> None | x # _ \<Rightarrow> Some x)"
  by (induction xs) simp_all

end
