(* ===== verification/Bid_Types.thy ===== *)
theory Bid_Types
  imports Prelude
begin

text \<open>
  The data model of \<open>internal/ads/types.go\<close>: bids, auction requests and responses and the auction
  policy, with their validation. A Go \<open>error\<close> result is an \<open>option\<close>: \<open>None\<close> is \<open>nil\<close> and \<open>Some e\<close>
  names the error the source returns.

  \<open>Bid_Validate_iff\<close> and its companions read the early returns of the validators as one
  conjunction over integers; the later theories use the \<open>valid_bidD\<close> facts.
\<close>

section \<open>Bids\<close>

record Bid =
  bidID :: string
  bidRevision :: uint64
  bidPlacementID :: string
  bidCampaignID :: string
  bidCreativeID :: string
  bidMarkup :: string
  bidClickURL :: string
  bidPriceMicros :: int64
  bidFloorMicros :: int64
  bidDealID :: string
  bidPriority :: int64
  bidPacingBPS :: int64
  bidCountries :: "string list"
  bidDevices :: "string list"
  bidActiveFromUnix :: int64
  bidActiveToUnix :: int64

datatype bid_error =
    ErrBidRequired
  | ErrBidLength
  | ErrBidPrice
  | ErrBidWindow
  | ErrBidPriority
  | ErrBidPacing

text \<open>\<open>strings.ContainsAny(s, "{}")\<close>: both characters are single bytes.\<close>

definition containsBrace :: "string \<Rightarrow> bool" where
  "containsBrace s \<longleftrightarrow> CHR ''{'' \<in> set s \<or> CHR ''}'' \<in> set s"

definition Bid_validate :: "bool \<Rightarrow> Bid \<Rightarrow> bid_error option" where
  "Bid_validate requireRevision b =
    (if bidID b = [] \<or> (requireRevision \<and> bidRevision b = 0) \<or> bidPlacementID b = []
        \<or> bidCampaignID b = [] \<or> bidCreativeID b = []
     then Some ErrBidRequired
     else if (requireRevision \<and> word_of_int maxInt64 < bidRevision b)
        \<or> 128 < length (bidID b) \<or> 128 < length (bidPlacementID b)
        \<or> containsBrace (bidPlacementID b) \<or> 65536 < length (bidMarkup b)
        \<or> 4096 < length (bidClickURL b) \<or> 128 < length (bidDealID b)
     then Some ErrBidLength
     else if bidPriceMicros b \<le>s 0 \<or> bidFloorMicros b <s 0
        \<or> bidPriceMicros b <s bidFloorMicros b
     then Some ErrBidPrice
     else if bidActiveToUnix b \<noteq> 0 \<and> bidActiveToUnix b <s bidActiveFromUnix b
     then Some ErrBidWindow
     else if bidPriority b <s 0 \<or> 1000 <s bidPriority b
        \<or> (0 <s bidPriority b \<and> bidDealID b = [])
     then Some ErrBidPriority
     else if bidPacingBPS b <s 1 \<or> 10000 <s bidPacingBPS b
     then Some ErrBidPacing
     else None)"

definition Bid_Validate :: "Bid \<Rightarrow> bid_error option" where
  "Bid_Validate b = Bid_validate True b"

definition Bid_ValidateDynamic :: "Bid \<Rightarrow> bid_error option" where
  "Bid_ValidateDynamic b = Bid_validate False b"

definition Bid_Normalize :: "Bid \<Rightarrow> Bid" where
  "Bid_Normalize b = (if bidPacingBPS b = 0 then b\<lparr>bidPacingBPS := 10000\<rparr> else b)"

section \<open>Auction requests\<close>

record AuctionRequest =
  reqPlacementID :: string
  reqUserID :: string
  reqCountry :: string
  reqDevice :: string
  reqFloorMicros :: int64

text \<open>The validator has one error only, so a \<open>bool\<close> says whether it returns \<open>nil\<close>.\<close>

definition AuctionRequest_Validate :: "AuctionRequest \<Rightarrow> bool" where
  "AuctionRequest_Validate r \<longleftrightarrow>
     \<not> (reqPlacementID r = [] \<or> 128 < length (reqPlacementID r) \<or> 256 < length (reqUserID r)
        \<or> 16 < length (reqCountry r) \<or> 64 < length (reqDevice r) \<or> reqFloorMicros r <s 0)"

section \<open>Auction policy and response\<close>

text \<open>\<open>PricingModel\<close> is a Go string type: any string can arrive from the environment.\<close>

type_synonym PricingModel = string

abbreviation FirstPrice :: PricingModel where "FirstPrice \<equiv> ''first_price''"
abbreviation SecondPrice :: PricingModel where "SecondPrice \<equiv> ''second_price''"

record AuctionPolicy =
  policyPricingModel :: PricingModel
  policyIncrement :: int64

datatype policy_error = ErrPricingModel | ErrIncrement

definition DefaultAuctionPolicy :: AuctionPolicy where
  "DefaultAuctionPolicy = \<lparr>policyPricingModel = FirstPrice, policyIncrement = 1\<rparr>"

definition AuctionPolicy_Validate :: "AuctionPolicy \<Rightarrow> policy_error option" where
  "AuctionPolicy_Validate p =
    (if policyPricingModel p \<noteq> FirstPrice \<and> policyPricingModel p \<noteq> SecondPrice
     then Some ErrPricingModel
     else if policyIncrement p <s 0 then Some ErrIncrement
     else None)"

record AuctionResponse =
  respRequestID :: string
  respStatus :: string
  respPricingModel :: string
  respBid :: "Bid option"
  respEffectivePriceMicros :: int64
  respClearingPriceMicros :: int64
  respNoBidReason :: string
  respServedStale :: bool
  respSnapshotAgeMS :: int64
  respDynamicBidderID :: string
  respSelectionLatencyUS :: int64

text \<open>A bid from a DSP with the bidder that offered it (\<open>internal/ads/dynamic_bidding.go\<close>).\<close>

record DynamicBid =
  dynBid :: Bid
  dynBidderID :: string

section \<open>What validation establishes\<close>

lemma Bid_validate_iff:
  "Bid_validate req b = None \<longleftrightarrow>
     bidID b \<noteq> [] \<and> bidPlacementID b \<noteq> [] \<and> bidCampaignID b \<noteq> [] \<and> bidCreativeID b \<noteq> []
     \<and> (req \<longrightarrow> 0 < uint (bidRevision b) \<and> uint (bidRevision b) \<le> maxInt64)
     \<and> length (bidID b) \<le> 128 \<and> length (bidPlacementID b) \<le> 128
     \<and> \<not> containsBrace (bidPlacementID b) \<and> length (bidMarkup b) \<le> 65536
     \<and> length (bidClickURL b) \<le> 4096 \<and> length (bidDealID b) \<le> 128
     \<and> 0 < sint (bidPriceMicros b) \<and> 0 \<le> sint (bidFloorMicros b)
     \<and> sint (bidFloorMicros b) \<le> sint (bidPriceMicros b)
     \<and> (bidActiveToUnix b = 0 \<or> sint (bidActiveFromUnix b) \<le> sint (bidActiveToUnix b))
     \<and> 0 \<le> sint (bidPriority b) \<and> sint (bidPriority b) \<le> 1000
     \<and> (sint (bidPriority b) = 0 \<or> bidDealID b \<noteq> [])
     \<and> 1 \<le> sint (bidPacingBPS b) \<and> sint (bidPacingBPS b) \<le> 10000"
proof -
  have rev: "0 < uint (bidRevision b) \<longleftrightarrow> bidRevision b \<noteq> 0"
    using uint_ge_0 [of "bidRevision b"] by (auto simp: order_less_le uint_0_iff)
  have max: "word_of_int maxInt64 < bidRevision b \<longleftrightarrow> maxInt64 < uint (bidRevision b)"
    by (simp add: word_less_def)
  show ?thesis
    unfolding Bid_validate_def rev max sless_iff_sint sle_iff_sint
    by (auto simp: not_less not_le)
qed

text \<open>The facts about an accepted bid that the auction and the store rely on.\<close>

lemma valid_bidD:
  assumes "Bid_validate req b = None"
  shows "0 < sint (bidPriceMicros b)" "0 \<le> sint (bidFloorMicros b)"
    "sint (bidFloorMicros b) \<le> sint (bidPriceMicros b)"
    "0 \<le> sint (bidPriority b)" "sint (bidPriority b) \<le> 1000"
    "1 \<le> sint (bidPacingBPS b)" "sint (bidPacingBPS b) \<le> 10000"
    "bidID b \<noteq> []" "bidPlacementID b \<noteq> []" "\<not> containsBrace (bidPlacementID b)"
  using assms unfolding Bid_validate_iff by blast+

lemma Bid_Validate_imp_dynamic:
  "Bid_Validate b = None \<Longrightarrow> Bid_ValidateDynamic b = None"
  unfolding Bid_Validate_def Bid_ValidateDynamic_def by (simp add: Bid_validate_iff)

lemma Bid_Normalize_idem [simp]: "Bid_Normalize (Bid_Normalize b) = Bid_Normalize b"
  by (simp add: Bid_Normalize_def)

lemma Bid_Normalize_valid: "Bid_validate req b = None \<Longrightarrow> Bid_Normalize b = b"
  using valid_bidD(6) [of req b] by (auto simp: Bid_Normalize_def)

lemma Bid_Normalize_fields [simp]:
  "bidID (Bid_Normalize b) = bidID b"
  "bidRevision (Bid_Normalize b) = bidRevision b"
  "bidPlacementID (Bid_Normalize b) = bidPlacementID b"
  "bidPriority (Bid_Normalize b) = bidPriority b"
  "bidPriceMicros (Bid_Normalize b) = bidPriceMicros b"
  "bidFloorMicros (Bid_Normalize b) = bidFloorMicros b"
  by (simp_all add: Bid_Normalize_def)

lemma AuctionRequest_floor: "AuctionRequest_Validate r \<Longrightarrow> 0 \<le> sint (reqFloorMicros r)"
  by (auto simp: AuctionRequest_Validate_def i64_simps)

lemma AuctionPolicy_Validate_iff:
  "AuctionPolicy_Validate p = None \<longleftrightarrow>
     (policyPricingModel p = FirstPrice \<or> policyPricingModel p = SecondPrice)
     \<and> 0 \<le> sint (policyIncrement p)"
  by (auto simp: AuctionPolicy_Validate_def i64_simps)

lemma DefaultAuctionPolicy_valid [simp]: "AuctionPolicy_Validate DefaultAuctionPolicy = None"
  by (simp add: AuctionPolicy_Validate_def DefaultAuctionPolicy_def i64_simps)

end
