(* ===== verification/Ranking.thy ===== *)
theory Ranking
  imports Bid_Types
begin

text \<open>
  The pure core of an auction, from \<open>internal/ads/auction.go\<close> and the sorting of
  \<open>internal/ads/store.go\<close>: effective price, eligibility, the ranking order, the one-pass
  accumulator, the clearing price and \<open>sortBids\<close>.

  The ranking order is the linear order of the key \<open>rankKey\<close> (priority descending, effective
  price descending, bid ID ascending). The accumulator is shown to pick the first least
  candidate and the exact same-priority runner-up price in one pass.
\<close>

section \<open>Definitions\<close>

definition effectivePrice :: "Bid \<Rightarrow> int64" where
  "effectivePrice b =
     i64_div (bidPriceMicros b) 10000 * bidPacingBPS b
     + i64_div (i64_rem (bidPriceMicros b) 10000 * bidPacingBPS b) 10000"

definition matches :: "string list \<Rightarrow> string \<Rightarrow> bool" where
  "matches allowed value = (if length allowed = 0 then True else List.member allowed value)"

definition eligible :: "Bid \<Rightarrow> AuctionRequest \<Rightarrow> int64 \<Rightarrow> int64 \<Rightarrow> bool" where
  "eligible b request nowUnix price =
    (if price <s i64_max (reqFloorMicros request) (bidFloorMicros b) then False
     else if bidActiveFromUnix b \<noteq> 0 \<and> nowUnix <s bidActiveFromUnix b then False
     else if bidActiveToUnix b \<noteq> 0 \<and> bidActiveToUnix b \<le>s nowUnix then False
     else matches (bidCountries b) (reqCountry request)
          \<and> matches (bidDevices b) (reqDevice request))"

definition ranksAhead :: "Bid \<Rightarrow> int64 \<Rightarrow> Bid \<Rightarrow> int64 \<Rightarrow> bool" where
  "ranksAhead candidate candidatePrice winner winnerPrice =
    (if bidPriority candidate \<noteq> bidPriority winner
     then bidPriority winner <s bidPriority candidate
     else if candidatePrice \<noteq> winnerPrice then winnerPrice <s candidatePrice
     else bidID candidate < bidID winner)"

text \<open>The accumulator of one auction; \<open>winner = None\<close> is the nil pointer.\<close>

record auctionAccumulator =
  accRequest :: AuctionRequest
  accNowUnix :: int64
  accWinner :: "Bid option"
  accWinnerPrice :: int64
  accRunnerUpPrice :: int64
  accCandidates :: int64
  accWinnerBidderID :: string

definition newAccumulator :: "AuctionRequest \<Rightarrow> int64 \<Rightarrow> auctionAccumulator" where
  "newAccumulator request nowUnix =
    \<lparr>accRequest = request, accNowUnix = nowUnix, accWinner = None, accWinnerPrice = 0,
     accRunnerUpPrice = 0, accCandidates = 0, accWinnerBidderID = []\<rparr>"

definition considerBid :: "Bid \<Rightarrow> string \<Rightarrow> auctionAccumulator \<Rightarrow> auctionAccumulator" where
  "considerBid b bidderID a =
    (let price = effectivePrice b in
     if \<not> eligible b (accRequest a) (accNowUnix a) price then a
     else
       let a1 = a\<lparr>accCandidates := accCandidates a + 1\<rparr> in
       case accWinner a1 of
         None \<Rightarrow> a1\<lparr>accRunnerUpPrice := 0, accWinner := Some b, accWinnerPrice := price,
                    accWinnerBidderID := bidderID\<rparr>
       | Some w \<Rightarrow>
           if ranksAhead b price w (accWinnerPrice a1)
           then a1\<lparr>accRunnerUpPrice :=
                     (if bidPriority b = bidPriority w then accWinnerPrice a1 else 0),
                   accWinner := Some b, accWinnerPrice := price, accWinnerBidderID := bidderID\<rparr>
           else if bidPriority b = bidPriority w \<and> accRunnerUpPrice a1 <s price
           then a1\<lparr>accRunnerUpPrice := price\<rparr>
           else a1)"

text \<open>A candidate is a bid with the bidder it came from (\<open>""\<close> for a snapshot bid).\<close>

type_synonym candidate = "Bid \<times> string"

definition considerAll :: "candidate list \<Rightarrow> auctionAccumulator \<Rightarrow> auctionAccumulator" where
  "considerAll cs a = fold (\<lambda>(b, bidderID). considerBid b bidderID) cs a"

definition clearingPrice ::
    "AuctionPolicy \<Rightarrow> Bid \<Rightarrow> int64 \<Rightarrow> int64 \<Rightarrow> int64 \<Rightarrow> int64" where
  "clearingPrice policy winner winnerPrice runnerUpPrice requestFloor =
    (let floor = i64_max requestFloor (bidFloorMicros winner) in
     if policyPricingModel policy = FirstPrice then winnerPrice
     else if runnerUpPrice = 0 then floor
     else
       let secondPrice = runnerUpPrice + policyIncrement policy;
           secondPrice = (if secondPrice <s runnerUpPrice \<or> winnerPrice <s secondPrice
                          then winnerPrice else secondPrice)
       in i64_max floor secondPrice)"

text \<open>
  \<open>sortBids\<close> calls \<open>sort.Slice\<close>, whose comparison is \<open>bidLess\<close>. \<open>sort.Slice\<close> promises a permutation
  of its input in which no element precedes a smaller one (\<open>sliceSorted\<close>); \<open>sortBids\<close> computes one
  such list by insertion, as \<open>sort.Slice\<close> does for at most 12 elements.
\<close>

definition bidLess :: "Bid \<Rightarrow> Bid \<Rightarrow> bool" where
  "bidLess x y =
    (if bidPriority x \<noteq> bidPriority y then bidPriority y <s bidPriority x
     else
       let left = effectivePrice x; right = effectivePrice y in
       if left \<noteq> right then right <s left
       else bidID x < bidID y)"

definition sliceSorted :: "Bid list \<Rightarrow> Bid list \<Rightarrow> bool" where
  "sliceSorted xs ys \<longleftrightarrow> mset ys = mset xs \<and> sorted_wrt (\<lambda>x y. \<not> bidLess y x) ys"

fun insertBid :: "Bid \<Rightarrow> Bid list \<Rightarrow> Bid list" where
  "insertBid x [] = [x]"
| "insertBid x (y # ys) = (if bidLess y x then y # insertBid x ys else x # y # ys)"

definition sortBids :: "Bid list \<Rightarrow> Bid list" where
  "sortBids bids = foldr insertBid bids []"

section \<open>Effective price\<close>

lemma pacing_split:
  fixes p b :: int
  assumes "0 \<le> p" and "0 \<le> b"
  shows "p div 10000 * b + p mod 10000 * b div 10000 = p * b div 10000"
proof -
  have "p * b = (p div 10000 * b) * 10000 + p mod 10000 * b"
    using div_mult_mod_eq [of p 10000] by (simp add: algebra_simps flip: distrib_left)
  then show ?thesis by simp
qed

lemma pacing_le:
  fixes p b :: int
  assumes "0 \<le> p" and "0 \<le> b" and "b \<le> 10000"
  shows "p * b div 10000 \<le> p"
proof -
  have "p * b div 10000 \<le> p * 10000 div 10000"
    using assms by (intro zdiv_mono1 mult_left_mono) simp_all
  then show ?thesis by simp
qed

lemma effectivePrice_eq:
  assumes "0 \<le> sint (bidPriceMicros b)"
    and "0 \<le> sint (bidPacingBPS b)" and "sint (bidPacingBPS b) \<le> 10000"
  shows "sint (effectivePrice b) = sint (bidPriceMicros b) * sint (bidPacingBPS b) div 10000"
proof -
  let ?p = "sint (bidPriceMicros b)" and ?b = "sint (bidPacingBPS b)"
  have q: "sint (i64_div (bidPriceMicros b) 10000) = ?p div 10000"
    and r: "sint (i64_rem (bidPriceMicros b) 10000) = ?p mod 10000"
    using assms by (simp_all add: sint_i64_div sint_i64_rem)
  have le: "?p * ?b div 10000 \<le> ?p" using assms by (rule pacing_le)
  have pos: "0 \<le> ?p div 10000 * ?b" "0 \<le> ?p mod 10000 * ?b"
    using assms by simp_all
  have rb: "?p mod 10000 * ?b \<le> 10000 * 10000"
    using assms by (intro mult_mono) (simp_all add: order.strict_implies_order)
  have mod_part: "sint (i64_rem (bidPriceMicros b) 10000 * bidPacingBPS b) = ?p mod 10000 * ?b"
    using pos rb r by (subst sint_mult_64) simp_all
  have low: "sint (i64_div (i64_rem (bidPriceMicros b) 10000 * bidPacingBPS b) 10000)
      = ?p mod 10000 * ?b div 10000"
    using pos mod_part by (subst sint_i64_div) simp_all
  have split: "?p div 10000 * ?b + ?p mod 10000 * ?b div 10000 = ?p * ?b div 10000"
    using assms by (intro pacing_split) simp_all
  have low_pos: "0 \<le> ?p mod 10000 * ?b div 10000" using pos by simp
  have high: "sint (i64_div (bidPriceMicros b) 10000 * bidPacingBPS b) = ?p div 10000 * ?b"
  proof (subst sint_mult_64)
    have "?p div 10000 * ?b \<le> maxInt64"
      using split le low_pos sint_le_maxInt64 [of "bidPriceMicros b"] by linarith
    then show "sint (i64_div (bidPriceMicros b) 10000) * ?b \<le> maxInt64" by (simp only: q)
    show "minInt64 \<le> sint (i64_div (bidPriceMicros b) 10000) * ?b"
      using pos(1) by (simp add: q)
  qed (simp only: q)
  show ?thesis
    using high low split le pos low_pos sint_le_maxInt64 [of "bidPriceMicros b"]
    unfolding effectivePrice_def by (subst sint_add_64) linarith+
qed

lemma effectivePrice_valid:
  assumes "Bid_validate req b = None"
  shows "sint (effectivePrice b) = sint (bidPriceMicros b) * sint (bidPacingBPS b) div 10000"
    and "0 \<le> sint (effectivePrice b)"
    and "sint (effectivePrice b) \<le> sint (bidPriceMicros b)"
proof -
  note v = valid_bidD [OF assms]
  show eq: "sint (effectivePrice b) = sint (bidPriceMicros b) * sint (bidPacingBPS b) div 10000"
    using v by (intro effectivePrice_eq) simp_all
  show "0 \<le> sint (effectivePrice b)"
    unfolding eq using v by (simp add: pos_imp_zdiv_nonneg_iff)
  show "sint (effectivePrice b) \<le> sint (bidPriceMicros b)"
    unfolding eq using v by (intro pacing_le) simp_all
qed

section \<open>The ranking order\<close>

definition rankKey :: "Bid \<Rightarrow> int \<times> int \<times> string" where
  "rankKey b = (- sint (bidPriority b), - sint (effectivePrice b), bidID b)"

lemma ranksAhead_iff:
  "ranksAhead c (effectivePrice c) w (effectivePrice w) \<longleftrightarrow> rankKey c < rankKey w"
  by (auto simp: ranksAhead_def rankKey_def i64_simps eq_iff_sint)

lemma bidLess_iff: "bidLess x y \<longleftrightarrow> rankKey x < rankKey y"
proof -
  have "bidLess x y = ranksAhead x (effectivePrice x) y (effectivePrice y)"
    by (simp only: bidLess_def ranksAhead_def Let_def)
  then show ?thesis by (simp only: ranksAhead_iff)
qed

lemma rankKey_less_same_priority:
  "rankKey c \<le> rankKey w \<Longrightarrow> bidPriority w = bidPriority c
    \<Longrightarrow> sint (effectivePrice w) \<le> sint (effectivePrice c)"
  by (auto simp: rankKey_def less_eq_prod_def)

lemma rankKey_le_priority: "rankKey c \<le> rankKey w \<Longrightarrow> sint (bidPriority w) \<le> sint (bidPriority c)"
  by (auto simp: rankKey_def less_eq_prod_def)

lemma inj_on_rankKey: "distinct (map bidID xs) \<Longrightarrow> inj_on rankKey (set xs)"
  by (auto simp: inj_on_def rankKey_def distinct_map)

lemma insertBid_insort: "insertBid x xs = insort_key rankKey x xs"
  by (induction xs) (auto simp: bidLess_iff not_less)

lemma sortBids_eq_sort_key: "sortBids xs = sort_key rankKey xs"
proof -
  have "insertBid = insort_key rankKey" by (simp add: fun_eq_iff insertBid_insort)
  then show ?thesis by (simp add: sortBids_def sort_key_def)
qed

lemma sliceSorted_iff: "sliceSorted xs ys \<longleftrightarrow> mset ys = mset xs \<and> sorted (map rankKey ys)"
  by (simp add: sliceSorted_def bidLess_iff sorted_wrt_not_less_sorted)

lemma sortBids_sliceSorted: "sliceSorted xs (sortBids xs)"
  by (simp add: sliceSorted_iff sortBids_eq_sort_key)

lemma sliceSorted_unique:
  assumes "distinct (map bidID xs)" and "sliceSorted xs ys"
  shows "ys = sortBids xs"
  using assms by (simp add: sliceSorted_iff sortBids_eq_sort_key sorted_perm_unique inj_on_rankKey)

lemma set_sortBids [simp]: "set (sortBids xs) = set xs"
  by (simp add: sortBids_eq_sort_key)

lemma mset_sortBids [simp]: "mset (sortBids xs) = mset xs"
  by (simp add: sortBids_eq_sort_key)

section \<open>The accumulator computes the auction's outcome\<close>

abbreviation candPrice :: "candidate \<Rightarrow> int" where
  "candPrice c \<equiv> sint (effectivePrice (fst c))"

abbreviation candEligible :: "AuctionRequest \<Rightarrow> int64 \<Rightarrow> candidate \<Rightarrow> bool" where
  "candEligible request nowUnix c \<equiv> eligible (fst c) request nowUnix (effectivePrice (fst c))"

text \<open>
  The highest price, at least 0, that another candidate of the winner's priority offers.
\<close>

definition runnerUpOf :: "Bid \<Rightarrow> candidate list \<Rightarrow> int" where
  "runnerUpOf w others =
     Max (insert 0 (candPrice ` {c \<in> set others. bidPriority (fst c) = bidPriority w}))"

text \<open>
  The specification of a finished pass over the eligible candidates \<open>es\<close>: the winner is the first
  of the best-ranked ones, and the runner-up price is that of the best same-priority rival.
\<close>

definition accOutcome :: "candidate list \<Rightarrow> auctionAccumulator \<Rightarrow> bool" where
  "accOutcome es a =
    (case accWinner a of
       None \<Rightarrow> es = [] \<and> accRunnerUpPrice a = 0 \<and> accWinnerBidderID a = []
     | Some w \<Rightarrow> \<exists>pre post.
         es = pre @ (w, accWinnerBidderID a) # post
         \<and> (\<forall>c \<in> set pre. rankKey w < rankKey (fst c))
         \<and> (\<forall>c \<in> set post. rankKey w \<le> rankKey (fst c))
         \<and> accWinnerPrice a = effectivePrice w
         \<and> sint (accRunnerUpPrice a) = runnerUpOf w (pre @ post))"

lemma runnerUpOf_snoc:
  "runnerUpOf w (cs @ [c]) =
    (if bidPriority (fst c) = bidPriority w then max (candPrice c) (runnerUpOf w cs)
     else runnerUpOf w cs)"
proof -
  let ?S = "{d \<in> set cs. bidPriority (fst d) = bidPriority w}"
  have "{d \<in> set (cs @ [c]). bidPriority (fst d) = bidPriority w} =
     (if bidPriority (fst c) = bidPriority w then insert c ?S else ?S)"
    by auto
  moreover have "Max (insert 0 (candPrice ` insert c ?S)) =
      max (candPrice c) (Max (insert 0 (candPrice ` ?S)))"
    unfolding image_insert by (rule Max_insert_image_append) simp
  ultimately show ?thesis unfolding runnerUpOf_def by presburger
qed

lemma runnerUpOf_new_leader:
  assumes "\<forall>c \<in> set cs. rankKey w \<le> rankKey (fst c)" and "0 \<le> sint (effectivePrice w)"
    and "(w, bidder) \<in> set cs" and "rankKey b < rankKey w"
  shows "runnerUpOf b cs =
    (if bidPriority b = bidPriority w then sint (effectivePrice w) else 0)"
proof (cases "bidPriority b = bidPriority w")
  case True
  let ?S = "insert 0 (candPrice ` {c \<in> set cs. bidPriority (fst c) = bidPriority b})"
  have "Max ?S = sint (effectivePrice w)"
  proof (rule Max_eqI)
    show "y \<le> sint (effectivePrice w)" if "y \<in> ?S" for y
      using that assms(1,2) True by (auto dest: rankKey_less_same_priority)
    have "candPrice (w, bidder) \<in> candPrice ` {c \<in> set cs. bidPriority (fst c) = bidPriority b}"
      using assms(3) True by (intro imageI) simp
    then show "sint (effectivePrice w) \<in> ?S" by simp
  qed simp
  with True show ?thesis by (simp add: runnerUpOf_def)
next
  case False
  have "sint (bidPriority w) < sint (bidPriority b)"
    using rankKey_le_priority [OF order.strict_implies_order [OF assms(4)]] False
    by (simp add: eq_iff_sint order_less_le)
  then have "{c \<in> set cs. bidPriority (fst c) = bidPriority b} = {}"
    using assms(1) by (auto dest!: rankKey_le_priority)
  with False show ?thesis by (simp only: runnerUpOf_def) simp
qed

lemma accOutcomeI:
  assumes "accWinner a = Some w" and "es = pre @ (w, accWinnerBidderID a) # post"
    and "\<forall>c \<in> set pre. rankKey w < rankKey (fst c)"
    and "\<forall>c \<in> set post. rankKey w \<le> rankKey (fst c)"
    and "accWinnerPrice a = effectivePrice w"
    and "sint (accRunnerUpPrice a) = runnerUpOf w (pre @ post)"
  shows "accOutcome es a"
  using assms by (auto simp: accOutcome_def)

lemma accOutcome_step:
  assumes "accOutcome es a" and "\<forall>c \<in> set es. 0 \<le> candPrice c"
    and "eligible b (accRequest a) (accNowUnix a) (effectivePrice b)"
    and "0 \<le> sint (effectivePrice b)"
  shows "accOutcome (es @ [(b, bidder)]) (considerBid b bidder a)"
proof (cases "accWinner a")
  case None
  with assms show ?thesis
    by (intro accOutcomeI [of _ b _ "[]" "[]"])
      (auto simp: accOutcome_def considerBid_def runnerUpOf_def Let_def)
next
  case (Some w)
  with assms(1) obtain pre post where es: "es = pre @ (w, accWinnerBidderID a) # post"
    and pre: "\<forall>c \<in> set pre. rankKey w < rankKey (fst c)"
    and post: "\<forall>c \<in> set post. rankKey w \<le> rankKey (fst c)"
    and price: "accWinnerPrice a = effectivePrice w"
    and runner: "sint (accRunnerUpPrice a) = runnerUpOf w (pre @ post)"
    by (auto simp: accOutcome_def)
  show ?thesis
  proof (cases "rankKey b < rankKey w")
    case True
    have least: "\<forall>c \<in> set es. rankKey w \<le> rankKey (fst c)"
      using pre post es by (auto simp: order.strict_implies_order)
    then have "\<forall>c \<in> set es. rankKey b < rankKey (fst c)"
      using True by (auto intro: order.strict_trans2)
    moreover have "runnerUpOf b es =
        (if bidPriority b = bidPriority w then sint (effectivePrice w) else 0)"
      using least True assms(2) es by (intro runnerUpOf_new_leader) auto
    ultimately show ?thesis
      using Some True assms(3) price
      by (intro accOutcomeI [of _ b _ es "[]"])
        (auto simp: considerBid_def ranksAhead_iff Let_def)
  next
    case False
    then have ahead: "\<not> ranksAhead b (effectivePrice b) w (accWinnerPrice a)"
      by (simp add: price ranksAhead_iff)
    have "runnerUpOf w (pre @ post @ [(b, bidder)]) =
      (if bidPriority b = bidPriority w then max (sint (effectivePrice b)) (runnerUpOf w (pre @ post))
       else runnerUpOf w (pre @ post))"
      using runnerUpOf_snoc [of w "pre @ post" "(b, bidder)"] by simp
    then show ?thesis
      using Some False ahead assms(3) price runner es pre post
      by (intro accOutcomeI [of _ w _ pre "post @ [(b, bidder)]"])
        (auto simp: considerBid_def Let_def i64_simps not_less)
  qed
qed


lemma considerBid_frame [simp]:
  "accRequest (considerBid b bidder a) = accRequest a"
  "accNowUnix (considerBid b bidder a) = accNowUnix a"
  by (simp_all add: considerBid_def Let_def split: option.split)

lemma considerBid_ineligible:
  "\<not> eligible b (accRequest a) (accNowUnix a) (effectivePrice b) \<Longrightarrow> considerBid b bidder a = a"
  by (simp add: considerBid_def)

lemma considerBid_candidates:
  "accCandidates (considerBid b bidder a) = accCandidates a +
    (if eligible b (accRequest a) (accNowUnix a) (effectivePrice b) then 1 else 0)"
  by (simp add: considerBid_def Let_def split: option.split)

lemma eligible_floor:
  "eligible b request nowUnix price \<Longrightarrow>
     max (sint (reqFloorMicros request)) (sint (bidFloorMicros b)) \<le> sint price"
  by (auto simp: eligible_def i64_simps split: if_splits)

lemma eligible_price_nonneg:
  "eligible b request nowUnix price \<Longrightarrow> 0 \<le> sint (reqFloorMicros request) \<Longrightarrow> 0 \<le> sint price"
  using eligible_floor by fastforce

lemma considerAll_frame [simp]:
  "accRequest (considerAll cs a) = accRequest a" "accNowUnix (considerAll cs a) = accNowUnix a"
  unfolding considerAll_def by (induction cs arbitrary: a) auto

lemma considerAll_snoc [simp]:
  "considerAll (cs @ [c]) a = considerBid (fst c) (snd c) (considerAll cs a)"
  by (simp add: considerAll_def case_prod_beta)

lemma considerAll_outcome:
  assumes "0 \<le> sint (reqFloorMicros request)"
  shows "accOutcome (filter (candEligible request nowUnix) cs)
           (considerAll cs (newAccumulator request nowUnix))"
proof (induction cs rule: rev_induct)
  case Nil
  then show ?case
    by (simp add: accOutcome_def considerAll_def newAccumulator_def)
next
  case (snoc c cs)
  let ?a = "considerAll cs (newAccumulator request nowUnix)"
  have frame: "accRequest ?a = request" "accNowUnix ?a = nowUnix"
    by (simp_all add: newAccumulator_def)
  have nonneg: "\<forall>c \<in> set (filter (candEligible request nowUnix) cs). 0 \<le> candPrice c"
    using assms by (auto dest: eligible_price_nonneg)
  show ?case
  proof (cases "candEligible request nowUnix c")
    case True
    then have "0 \<le> candPrice c" using assms eligible_price_nonneg by blast
    with accOutcome_step [OF snoc.IH nonneg, of "fst c" "snd c"] True frame
    show ?thesis by simp
  next
    case False
    with snoc.IH frame show ?thesis by (simp add: considerBid_ineligible)
  qed
qed

lemma considerAll_candidates:
  "accCandidates (considerAll cs (newAccumulator request nowUnix)) =
     of_nat (length (filter (candEligible request nowUnix) cs))"
  by (induction cs rule: rev_induct)
    (simp_all add: considerBid_candidates newAccumulator_def considerAll_def [of "[]"])

lemma considerAll_None_iff:
  assumes "0 \<le> sint (reqFloorMicros request)"
  shows "accWinner (considerAll cs (newAccumulator request nowUnix)) = None \<longleftrightarrow>
    (\<forall>c \<in> set cs. \<not> candEligible request nowUnix c)"
proof -
  have "accWinner (considerAll cs (newAccumulator request nowUnix)) = None \<longleftrightarrow>
      filter (candEligible request nowUnix) cs = []"
    using considerAll_outcome [OF assms, of nowUnix cs]
    by (auto simp: accOutcome_def split: option.splits)
  then show ?thesis by (simp add: filter_empty_conv)
qed

text \<open>What a winner is, in the form the auctioneer's properties use.\<close>

lemma considerAll_winnerE:
  assumes "accWinner (considerAll cs (newAccumulator request nowUnix)) = Some w"
    and "0 \<le> sint (reqFloorMicros request)"
  obtains pre post where
    "filter (candEligible request nowUnix) cs =
       pre @ (w, accWinnerBidderID (considerAll cs (newAccumulator request nowUnix))) # post"
    "\<forall>c \<in> set pre. rankKey w < rankKey (fst c)" "\<forall>c \<in> set post. rankKey w \<le> rankKey (fst c)"
    "accWinnerPrice (considerAll cs (newAccumulator request nowUnix)) = effectivePrice w"
    "sint (accRunnerUpPrice (considerAll cs (newAccumulator request nowUnix)))
       = runnerUpOf w (pre @ post)"
    "eligible w request nowUnix (effectivePrice w)"
proof -
  from considerAll_outcome [OF assms(2), of nowUnix cs] assms(1)
  obtain pre post where split: "filter (candEligible request nowUnix) cs =
       pre @ (w, accWinnerBidderID (considerAll cs (newAccumulator request nowUnix))) # post"
    and rest: "\<forall>c \<in> set pre. rankKey w < rankKey (fst c)"
      "\<forall>c \<in> set post. rankKey w \<le> rankKey (fst c)"
      "accWinnerPrice (considerAll cs (newAccumulator request nowUnix)) = effectivePrice w"
      "sint (accRunnerUpPrice (considerAll cs (newAccumulator request nowUnix)))
         = runnerUpOf w (pre @ post)"
    by (auto simp: accOutcome_def)
  have "eligible w request nowUnix (effectivePrice w)"
    using filter_eq_append_ConsD [OF split] by simp
  with split rest that show ?thesis by blast
qed

section \<open>Clearing price\<close>

lemma runnerUpOf_nonneg: "0 \<le> runnerUpOf w others"
  by (simp add: runnerUpOf_def)

lemma runnerUpOf_le:
  assumes "\<forall>c \<in> set others. rankKey w \<le> rankKey (fst c)" and "0 \<le> sint (effectivePrice w)"
  shows "runnerUpOf w others \<le> sint (effectivePrice w)"
  unfolding runnerUpOf_def
proof (rule Max.boundedI)
  fix x assume "x \<in> insert 0 (candPrice ` {c \<in> set others. bidPriority (fst c) = bidPriority w})"
  then show "x \<le> sint (effectivePrice w)"
    using assms by (auto dest: rankKey_less_same_priority)
qed simp_all

lemma clearingPrice_first:
  "policyPricingModel policy = FirstPrice \<Longrightarrow> clearingPrice policy w wp rp fl = wp"
  by (simp add: clearingPrice_def)

text \<open>
  The second price in integers: the wrap-around test and the cap together compute
  \<open>min (runner-up + increment) winner\<close>, so the sum cannot overflow into the result.
\<close>

lemma clearingPrice_second:
  assumes "policyPricingModel policy \<noteq> FirstPrice" and "0 \<le> sint (policyIncrement policy)"
    and "0 \<le> sint rp" and "sint rp \<le> sint wp"
  shows "sint (clearingPrice policy w wp rp fl) =
    (if sint rp = 0 then max (sint fl) (sint (bidFloorMicros w))
     else max (max (sint fl) (sint (bidFloorMicros w)))
            (min (sint rp + sint (policyIncrement policy)) (sint wp)))"
proof (cases "sint rp + sint (policyIncrement policy) \<le> maxInt64")
  case True
  then have "sint (rp + policyIncrement policy) = sint rp + sint (policyIncrement policy)"
    using assms by (intro sint_add_64) simp_all
  then show ?thesis
    using assms by (auto simp: clearingPrice_def Let_def i64_simps signed_eq_0_iff)
next
  case False
  then have wrap: "sint (rp + policyIncrement policy) < sint rp"
    using False sint_add_wraps_64 [OF assms(3,2)] sint_le_maxInt64 [of "policyIncrement policy"]
    by linarith
  have "sint wp \<le> sint rp + sint (policyIncrement policy)"
    using False sint_le_maxInt64 [of wp] by linarith
  then show ?thesis
    using assms wrap by (auto simp: clearingPrice_def Let_def i64_simps signed_eq_0_iff)
qed

lemma clearingPrice_bounds:
  assumes "AuctionPolicy_Validate policy = None" and "0 \<le> sint rp" and "sint rp \<le> sint wp"
    and "max (sint fl) (sint (bidFloorMicros w)) \<le> sint wp"
  shows "max (sint fl) (sint (bidFloorMicros w)) \<le> sint (clearingPrice policy w wp rp fl)"
    and "sint (clearingPrice policy w wp rp fl) \<le> sint wp"
  using assms clearingPrice_first [of policy w wp rp fl] clearingPrice_second [of policy rp wp w fl]
  by (cases "policyPricingModel policy = FirstPrice"; auto simp: AuctionPolicy_Validate_iff)+

section \<open>The outcome does not depend on the order of the candidates\<close>

lemma accOutcome_winner_least:
  assumes "accOutcome es a" and "accWinner a = Some w"
  shows "(w, accWinnerBidderID a) \<in> set es" and "\<forall>c \<in> set es. rankKey w \<le> rankKey (fst c)"
proof -
  from assms obtain pre post where es: "es = pre @ (w, accWinnerBidderID a) # post"
    and pre: "\<forall>c \<in> set pre. rankKey w < rankKey (fst c)"
    and post: "\<forall>c \<in> set post. rankKey w \<le> rankKey (fst c)"
    by (auto simp: accOutcome_def)
  show "(w, accWinnerBidderID a) \<in> set es" using es by simp
  show "\<forall>c \<in> set es. rankKey w \<le> rankKey (fst c)"
    using pre post unfolding es by (simp add: ball_Un order.strict_implies_order)
qed

lemma accOutcome_others:
  assumes "accOutcome es a" and "accWinner a = Some w"
  shows "\<exists>others. mset others = mset es - {#(w, accWinnerBidderID a)#}
    \<and> sint (accRunnerUpPrice a) = runnerUpOf w others"
proof -
  from assms obtain pre post where "es = pre @ (w, accWinnerBidderID a) # post"
    and "sint (accRunnerUpPrice a) = runnerUpOf w (pre @ post)"
    by (auto simp: accOutcome_def)
  then show ?thesis by (intro exI [of _ "pre @ post"]) simp
qed

lemma runnerUpOf_mset: "mset xs = mset ys \<Longrightarrow> runnerUpOf w xs = runnerUpOf w ys"
  unfolding runnerUpOf_def by (metis mset_eq_setD)

lemma accOutcome_perm:
  assumes a: "accOutcome es a" and a': "accOutcome es' a'" and perm: "mset es = mset es'"
    and inj: "inj_on (\<lambda>c. rankKey (fst c)) (set es)"
  shows "accWinner a = accWinner a'" and "accWinnerBidderID a = accWinnerBidderID a'"
    and "accRunnerUpPrice a = accRunnerUpPrice a'"
proof -
  have set: "set es = set es'" using perm by (rule mset_eq_setD)
  have none: "accWinner a = None \<longleftrightarrow> es = []" "accWinner a' = None \<longleftrightarrow> es' = []"
    using a a' by (auto simp: accOutcome_def split: option.splits)
  have "accWinner a = accWinner a' \<and> accWinnerBidderID a = accWinnerBidderID a'
    \<and> accRunnerUpPrice a = accRunnerUpPrice a'"
  proof (cases "accWinner a")
    case None
    with none set have "accWinner a' = None" by simp
    with None a a' show ?thesis by (auto simp: accOutcome_def split: option.splits)
  next
    case (Some w)
    with none set obtain w' where Some': "accWinner a' = Some w'"
      by (cases "accWinner a'") auto
    note w = accOutcome_winner_least [OF a Some] and w' = accOutcome_winner_least [OF a' Some']
    have "rankKey w \<le> rankKey w'" using w(2) w'(1) set by fastforce
    moreover have "rankKey w' \<le> rankKey w" using w'(2) w(1) set by fastforce
    ultimately have "rankKey w = rankKey w'" by (rule order.antisym)
    then have same: "(w, accWinnerBidderID a) = (w', accWinnerBidderID a')"
      using inj_onD [OF inj, of "(w, accWinnerBidderID a)" "(w', accWinnerBidderID a')"] w(1) w'(1) set
      by simp
    from accOutcome_others [OF a Some] accOutcome_others [OF a' Some']
    obtain xs ys where "mset xs = mset es - {#(w, accWinnerBidderID a)#}"
      and xs: "sint (accRunnerUpPrice a) = runnerUpOf w xs"
      and "mset ys = mset es' - {#(w', accWinnerBidderID a')#}"
      and ys: "sint (accRunnerUpPrice a') = runnerUpOf w' ys" by blast
    then have "mset xs = mset ys" using same perm by simp
    then have "sint (accRunnerUpPrice a) = sint (accRunnerUpPrice a')"
      using same xs ys runnerUpOf_mset [of xs ys w] by simp
    with same Some Some' show ?thesis by (simp add: eq_iff_sint)
  qed
  then show "accWinner a = accWinner a'" "accWinnerBidderID a = accWinnerBidderID a'"
    "accRunnerUpPrice a = accRunnerUpPrice a'" by simp_all
qed

text \<open>On a ranked list the winner is the first eligible bid.\<close>

lemma accWinner_find:
  assumes "0 \<le> sint (reqFloorMicros request)" and "sorted (map (\<lambda>c. rankKey (fst c)) cs)"
  shows "accWinner (considerAll cs (newAccumulator request nowUnix)) =
    map_option fst (find (candEligible request nowUnix) cs)"
proof (cases "accWinner (considerAll cs (newAccumulator request nowUnix))")
  case None
  then have "\<forall>c \<in> set cs. \<not> candEligible request nowUnix c"
    by (simp add: considerAll_None_iff [OF assms(1)])
  then have "find (candEligible request nowUnix) cs = None" by (simp only: find_None_iff) blast
  with None show ?thesis by simp
next
  case (Some w)
  let ?es = "filter (candEligible request nowUnix) cs"
  from Some assms(1) obtain pre post bidder where es: "?es = pre @ (w, bidder) # post"
    and pre: "\<forall>c \<in> set pre. rankKey w < rankKey (fst c)" by (rule considerAll_winnerE) blast
  have "sorted (map (\<lambda>c. rankKey (fst c)) ?es)" using assms(2) by (rule sorted_filter)
  then have "\<forall>c \<in> set pre. rankKey (fst c) \<le> rankKey w" by (simp add: es sorted_append)
  with pre have "pre = []" by (cases pre) fastforce+
  with es have "find (candEligible request nowUnix) cs = Some (w, bidder)"
    by (auto simp: find_filter)
  with Some show ?thesis by simp
qed

section \<open>Properties\<close>

text \<open>
  The effective price of a valid bid is exactly price times pacing over 10000, rounded down,
  with no overflow for any 64-bit price, and lies between zero and the price.
\<close>

theorem effective_price_exact:
  assumes "Bid_validate requireRevision b = None"
  shows "sint (effectivePrice b) = sint (bidPriceMicros b) * sint (bidPacingBPS b) div 10000
    \<and> 0 \<le> sint (effectivePrice b) \<and> sint (effectivePrice b) \<le> sint (bidPriceMicros b)"
  using effectivePrice_valid [OF assms] by simp

text \<open>The largest price there is, at full pacing.\<close>

definition largestBid :: Bid where
  "largestBid =
    \<lparr>bidID = ''a'', bidRevision = 1, bidPlacementID = ''p'', bidCampaignID = ''c'',
     bidCreativeID = ''x'', bidMarkup = [], bidClickURL = [], bidPriceMicros = 9223372036854775807,
     bidFloorMicros = 0, bidDealID = [], bidPriority = 0, bidPacingBPS = 9999,
     bidCountries = [], bidDevices = [], bidActiveFromUnix = 0, bidActiveToUnix = 0\<rparr>"

lemma largestBid_valid: "Bid_validate True largestBid = None"
  by (simp add: largestBid_def Bid_validate_def containsBrace_def i64_simps)

theorem effective_price_exact_witness:
  "sint (effectivePrice largestBid) = 9223372036854775807 * 9999 div 10000"
proof -
  have "sint (bidPriceMicros largestBid) = 9223372036854775807" "sint (bidPacingBPS largestBid) = 9999"
    by (simp_all add: largestBid_def)
  then show ?thesis using effective_price_exact [OF largestBid_valid] by simp
qed

text \<open>
  Sorting is deterministic. \<open>sort.Slice\<close> promises only a permutation without inversions; when
  the bid IDs are distinct exactly one list satisfies that promise, and \<open>sortBids\<close> computes it.
\<close>

theorem sort_bids_deterministic:
  assumes "distinct (map bidID bids)"
  shows "sliceSorted bids ys \<longleftrightarrow> ys = sortBids bids"
  using sliceSorted_unique [OF assms] sortBids_sliceSorted by blast

theorem sort_bids_deterministic_witness:
  "sliceSorted [largestBid, largestBid\<lparr>bidID := ''b'', bidPriority := 7\<rparr>]
     [largestBid\<lparr>bidID := ''b'', bidPriority := 7\<rparr>, largestBid]"
proof -
  let ?bs = "[largestBid, largestBid\<lparr>bidID := ''b'', bidPriority := 7\<rparr>]"
  have "distinct (map bidID ?bs)" by code_simp
  moreover have "sortBids ?bs = [largestBid\<lparr>bidID := ''b'', bidPriority := 7\<rparr>, largestBid]"
    by code_simp
  ultimately show ?thesis using sort_bids_deterministic [of ?bs] by simp
qed

end
