(* ===== verification/Bid_Store.thy ===== *)
theory Bid_Store
  imports Ranking
begin

text \<open>
  The \<open>BidStore\<close> interface of \<open>internal/ads/store.go\<close>. The Go interface value is a record of its
  methods over a state type; the cache and the HTTP server receive such a record, as the source
  passes an interface value. \<open>Subscribe\<close> is not a method of the record: the invalidation channel
  is the event queue of the cache's step relation.

  The locale \<open>bid_store\<close> states what the cache and the auctioneer rely on: every fetched bid has
  passed validation, belongs to the placement asked for, and the list is ranked.
\<close>

datatype store_error =
    ErrStaleBidRevision
  | ErrInvalidBid bid_error
  | ErrDeleteArguments
  | ErrRedis
  | ErrUpsertScript
  | ErrDeleteScript
  | ErrPublish
  | ErrDecode

record 's BidStore =
  storePing :: "'s \<Rightarrow> store_error option \<times> 's"
  storeUpsert :: "Bid \<Rightarrow> 's \<Rightarrow> store_error option \<times> 's"
  storeDelete :: "string \<Rightarrow> string \<Rightarrow> uint64 \<Rightarrow> 's \<Rightarrow> store_error option \<times> 's"
  storeFetch :: "string \<Rightarrow> 's \<Rightarrow> (store_error + Bid list) \<times> 's"
  storePlacements :: "'s \<Rightarrow> (store_error + string list) \<times> 's"

locale bid_store =
  fixes fetch :: "string \<Rightarrow> 's \<Rightarrow> (store_error + Bid list) \<times> 's"
  assumes fetch_valid:
      "fst (fetch p s) = Inr bids \<Longrightarrow> b \<in> set bids \<Longrightarrow> Bid_Validate b = None"
    and fetch_placement:
      "fst (fetch p s) = Inr bids \<Longrightarrow> b \<in> set bids \<Longrightarrow> bidPlacementID b = p"
    and fetch_sorted: "fst (fetch p s) = Inr bids \<Longrightarrow> sorted (map rankKey bids)"
begin

text \<open>Normalising a fetched list, as \<open>BidCache.refresh\<close> does once more, changes nothing.\<close>

lemma fetch_normalized:
  assumes "fst (fetch p s) = Inr bids"
  shows "map Bid_Normalize bids = bids"
proof (rule map_idI)
  fix b assume "b \<in> set bids"
  with assms have "Bid_Validate b = None" by (rule fetch_valid)
  then show "Bid_Normalize b = b"
    unfolding Bid_Validate_def by (rule Bid_Normalize_valid)
qed

text \<open>Sorting a fetched list again, as \<open>BidCache.refresh\<close> does, changes nothing either.\<close>

lemma fetch_resorted:
  assumes "fst (fetch p s) = Inr bids"
  shows "sortBids bids = bids"
  using fetch_sorted [OF assms] by (simp add: sortBids_eq_sort_key sort_key_id_if_sorted)

end

end
