(* ===== verification/Bid_Cache.thy ===== *)
theory Bid_Cache
  imports Bid_Store
begin

text \<open>
  \<open>BidCache\<close> of \<open>internal/ads/cache.go\<close>: local snapshots per placement, single-flight background
  refreshes, reconciliation with the store, and the counters. The store is any \<open>BidStore\<close>.

  A goroutine that \<open>RefreshAsync\<close> starts is an entry of \<open>cacheTasks\<close>; it fetches, installs the
  snapshot and leaves the in-flight set in separate steps of the relation \<open>cache_step\<close>, so that
  refreshes, reconciliation, store mutations and invalidations interleave. Contexts and their
  deadlines are not modelled: a deadline shows as a failing \<open>Fetch\<close>.
\<close>

section \<open>State\<close>

type_synonym StaleSnapshotAction = string

abbreviation ServeStale :: StaleSnapshotAction where "ServeStale \<equiv> ''serve_stale''"
abbreviation NoBidOnStale :: StaleSnapshotAction where "NoBidOnStale \<equiv> ''no_bid''"

record CachePolicy =
  cpRefreshEvery :: duration
  cpMaxSnapshotAge :: duration
  cpStaleAction :: StaleSnapshotAction

definition DefaultCachePolicy :: "duration \<Rightarrow> CachePolicy" where
  "DefaultCachePolicy refreshEvery =
    (let every = (if refreshEvery \<le>s 0 then 30 * second else refreshEvery) in
     \<lparr>cpRefreshEvery = every, cpMaxSnapshotAge = 2 * every, cpStaleAction = ServeStale\<rparr>)"

definition CachePolicy_Validate :: "CachePolicy \<Rightarrow> bool" where
  "CachePolicy_Validate p \<longleftrightarrow>
     0 <s cpRefreshEvery p \<and> 0 <s cpMaxSnapshotAge p
     \<and> (cpStaleAction p = ServeStale \<or> cpStaleAction p = NoBidOnStale)"

record bidList =
  listBids :: "Bid list"
  listRefreshedAtNS :: int64

record SnapshotState =
  snapFound :: bool
  snapStale :: bool
  snapRejectStale :: bool
  snapAge :: duration

definition noSnapshot :: SnapshotState where
  "noSnapshot = \<lparr>snapFound = False, snapStale = False, snapRejectStale = False, snapAge = 0\<rparr>"

record cacheCounters =
  cntRefreshes :: uint64
  cntRefreshFailures :: uint64
  cntReconciliations :: uint64
  cntReconcileFailures :: uint64
  cntSubscriptionFailures :: uint64

text \<open>
  \<open>cacheEntries p = Some None\<close> is an entry whose atomic pointer is still nil. \<open>cacheStarted\<close> lists
  the goroutines that \<open>RefreshAsync\<close> has started and that have not run yet.
\<close>

record BidCache =
  cacheEntries :: "string \<rightharpoonup> bidList option"
  cachePolicy :: CachePolicy
  cacheInflight :: "string set"
  cacheStarted :: "string list"
  cacheStats :: cacheCounters

definition NewBidCacheWithPolicy :: "CachePolicy \<Rightarrow> BidCache" where
  "NewBidCacheWithPolicy policy =
    \<lparr>cacheEntries = Map.empty,
     cachePolicy = (if \<not> CachePolicy_Validate policy then DefaultCachePolicy (30 * second) else policy),
     cacheInflight = {}, cacheStarted = [],
     cacheStats = \<lparr>cntRefreshes = 0, cntRefreshFailures = 0, cntReconciliations = 0,
       cntReconcileFailures = 0, cntSubscriptionFailures = 0\<rparr>\<rparr>"

definition NewBidCache :: "duration \<Rightarrow> BidCache" where
  "NewBidCache refreshEvery = NewBidCacheWithPolicy (DefaultCachePolicy refreshEvery)"

section \<open>Operations\<close>

definition countRefresh :: "BidCache \<Rightarrow> BidCache" where
  "countRefresh c =
    c\<lparr>cacheStats := (cacheStats c)\<lparr>cntRefreshes := cntRefreshes (cacheStats c) + 1\<rparr>\<rparr>"

definition countRefreshFailure :: "BidCache \<Rightarrow> BidCache" where
  "countRefreshFailure c =
    c\<lparr>cacheStats := (cacheStats c)\<lparr>cntRefreshFailures := cntRefreshFailures (cacheStats c) + 1\<rparr>\<rparr>"

definition countReconcile :: "BidCache \<Rightarrow> BidCache" where
  "countReconcile c =
    c\<lparr>cacheStats := (cacheStats c)\<lparr>cntReconciliations := cntReconciliations (cacheStats c) + 1\<rparr>\<rparr>"

definition countReconcileFailure :: "BidCache \<Rightarrow> BidCache" where
  "countReconcileFailure c =
    c\<lparr>cacheStats := (cacheStats c)\<lparr>cntReconcileFailures := cntReconcileFailures (cacheStats c) + 1\<rparr>\<rparr>"

definition countSubscriptionFailure :: "BidCache \<Rightarrow> BidCache" where
  "countSubscriptionFailure c =
    c\<lparr>cacheStats := (cacheStats c)
      \<lparr>cntSubscriptionFailures := cntSubscriptionFailures (cacheStats c) + 1\<rparr>\<rparr>"

definition BidCache_Get :: "BidCache \<Rightarrow> time \<Rightarrow> string \<Rightarrow> Bid list \<times> SnapshotState" where
  "BidCache_Get c now placement =
    (case cacheEntries c placement of
       None \<Rightarrow> ([], noSnapshot)
     | Some None \<Rightarrow> ([], noSnapshot)
     | Some (Some list) \<Rightarrow>
         let age = time_Sub now (time_fromUnixNano (listRefreshedAtNS list));
             stale = (cpMaxSnapshotAge (cachePolicy c) <s age)
         in (listBids list,
             \<lparr>snapFound = True, snapStale = stale,
              snapRejectStale = (stale \<and> cpStaleAction (cachePolicy c) = NoBidOnStale),
              snapAge = age\<rparr>))"

definition BidCache_RefreshAsync :: "string \<Rightarrow> BidCache \<Rightarrow> BidCache" where
  "BidCache_RefreshAsync placement c =
    (if placement = [] then c
     else if placement \<in> cacheInflight c then c
     else c\<lparr>cacheInflight := insert placement (cacheInflight c),
            cacheStarted := cacheStarted c @ [placement]\<rparr>)"

text \<open>The second half of \<open>refresh\<close>: normalise, sort and publish the new snapshot.\<close>

definition installSnapshot :: "string \<Rightarrow> Bid list \<Rightarrow> time \<Rightarrow> BidCache \<Rightarrow> BidCache" where
  "installSnapshot placement bids now c =
    c\<lparr>cacheEntries := (cacheEntries c)(placement \<mapsto>
        Some \<lparr>listBids = sortBids (map Bid_Normalize bids),
              listRefreshedAtNS = time_UnixNano now\<rparr>)\<rparr>"

definition BidCache_refresh ::
    "'s BidStore \<Rightarrow> string \<Rightarrow> time \<Rightarrow> BidCache \<times> 's \<Rightarrow> store_error option \<times> BidCache \<times> 's" where
  "BidCache_refresh S placement now = (\<lambda>(c, s).
    let c1 = countRefresh c in
    case storeFetch S placement s of
      (Inl e, s1) \<Rightarrow> (Some e, countRefreshFailure c1, s1)
    | (Inr bids, s1) \<Rightarrow> (None, installSnapshot placement bids now c1, s1))"

text \<open>
  The loop of \<open>Reconcile\<close>; \<open>clock p\<close> is the time read when placement \<open>p\<close> is refreshed.
\<close>

fun reconcileAll ::
    "'s BidStore \<Rightarrow> (string \<Rightarrow> time) \<Rightarrow> string list \<Rightarrow> BidCache \<times> 's
       \<Rightarrow> store_error option \<times> BidCache \<times> 's" where
  "reconcileAll S clock [] cs = (None, cs)"
| "reconcileAll S clock (p # ps) cs =
    (case BidCache_refresh S p (clock p) cs of
       (Some e, c1, s1) \<Rightarrow> (Some e, countReconcileFailure c1, s1)
     | (None, cs1) \<Rightarrow> reconcileAll S clock ps cs1)"

definition BidCache_Reconcile ::
    "'s BidStore \<Rightarrow> (string \<Rightarrow> time) \<Rightarrow> BidCache \<times> 's \<Rightarrow> store_error option \<times> BidCache \<times> 's" where
  "BidCache_Reconcile S clock = (\<lambda>(c, s).
    let c1 = countReconcile c in
    case storePlacements S s of
      (Inl e, s1) \<Rightarrow> (Some e, countReconcileFailure c1, s1)
    | (Inr placements, s1) \<Rightarrow> reconcileAll S clock placements (c1, s1))"

definition BidCache_Warm ::
    "'s BidStore \<Rightarrow> (string \<Rightarrow> time) \<Rightarrow> BidCache \<times> 's \<Rightarrow> store_error option \<times> BidCache \<times> 's" where
  "BidCache_Warm S clock cs = BidCache_Reconcile S clock cs"

record CacheStats =
  statRefreshes :: uint64
  statRefreshFailures :: uint64
  statReconciliations :: uint64
  statReconcileFailures :: uint64
  statSubscriptionFailures :: uint64
  statPlacements :: uint64
  statInflightRefreshes :: uint64

definition BidCache_Stats :: "BidCache \<Rightarrow> CacheStats" where
  "BidCache_Stats c =
    \<lparr>statRefreshes = cntRefreshes (cacheStats c),
     statRefreshFailures = cntRefreshFailures (cacheStats c),
     statReconciliations = cntReconciliations (cacheStats c),
     statReconcileFailures = cntReconcileFailures (cacheStats c),
     statSubscriptionFailures = cntSubscriptionFailures (cacheStats c),
     statPlacements = of_nat (card (dom (cacheEntries c))),
     statInflightRefreshes = of_nat (card (cacheInflight c))\<rparr>"

section \<open>Goroutines and their interleaving\<close>

text \<open>
  A refresh goroutine between its steps: after the fetch it holds the outcome; after the install
  (or a failed fetch) only the deferred removal from the in-flight set is left.
\<close>

datatype refreshTask = Fetched "Bid list" | Finishing

text \<open>
  The whole system around one cache: the store, the invalidation messages on their way to the
  subscriber, and the progress of the running goroutines. \<open>sysReconcile\<close> is a reconciliation
  under way: the placements still to do and the fetched list that is to be installed next.
\<close>

record 's cacheSystem =
  sysStore :: 's
  sysCache :: BidCache
  sysRunning :: "string \<rightharpoonup> refreshTask"
  sysEvents :: "string list"
  sysReconcile :: "(string list \<times> (string \<times> Bid list) option) option"

text \<open>
  Steps of the system over a store \<open>S\<close>. \<open>mut s s' p\<close> says that some server's mutation of placement
  \<open>p\<close> takes the store from \<open>s\<close> to \<open>s'\<close>; its invalidation joins the channel, which delivers in
  order but may lose messages: those of a mutation that failed to publish, and those sent while
  \<open>subscribeLoop\<close> is not subscribed.
\<close>

inductive cache_step ::
    "'s BidStore \<Rightarrow> ('s \<Rightarrow> 's \<Rightarrow> string \<Rightarrow> bool) \<Rightarrow> 's cacheSystem \<Rightarrow> 's cacheSystem \<Rightarrow> bool"
  for S :: "'s BidStore" and mut :: "'s \<Rightarrow> 's \<Rightarrow> string \<Rightarrow> bool" where
  step_mutate: "mut (sysStore y) s' p \<Longrightarrow>
    cache_step S mut y (y\<lparr>sysStore := s', sysEvents := sysEvents y @ [p]\<rparr>)"
| step_lose: "sysEvents y = pre @ p # post \<Longrightarrow> cache_step S mut y (y\<lparr>sysEvents := pre @ post\<rparr>)"
| step_subscribe_fails: "cache_step S mut y (y\<lparr>sysCache := countSubscriptionFailure (sysCache y)\<rparr>)"
| step_event: "sysEvents y = p # es \<Longrightarrow>
    cache_step S mut y (y\<lparr>sysEvents := es, sysCache := BidCache_RefreshAsync p (sysCache y)\<rparr>)"
| step_auction: "cache_step S mut y (y\<lparr>sysCache := BidCache_RefreshAsync p (sysCache y)\<rparr>)"
| step_fetch: "cacheStarted (sysCache y) = pre @ p # post \<Longrightarrow>
    storeFetch S p (sysStore y) = (Inr bids, s') \<Longrightarrow>
    cache_step S mut y (y\<lparr>sysStore := s',
      sysCache := (countRefresh (sysCache y))\<lparr>cacheStarted := pre @ post\<rparr>,
      sysRunning := (sysRunning y)(p \<mapsto> Fetched bids)\<rparr>)"
| step_fetch_fails: "cacheStarted (sysCache y) = pre @ p # post \<Longrightarrow>
    storeFetch S p (sysStore y) = (Inl e, s') \<Longrightarrow>
    cache_step S mut y (y\<lparr>sysStore := s',
      sysCache := (countRefreshFailure (countRefresh (sysCache y)))\<lparr>cacheStarted := pre @ post\<rparr>,
      sysRunning := (sysRunning y)(p \<mapsto> Finishing)\<rparr>)"
| step_install: "sysRunning y p = Some (Fetched bids) \<Longrightarrow>
    cache_step S mut y (y\<lparr>sysCache := installSnapshot p bids now (sysCache y),
      sysRunning := (sysRunning y)(p \<mapsto> Finishing)\<rparr>)"
| step_finish: "sysRunning y p = Some Finishing \<Longrightarrow>
    cache_step S mut y (y\<lparr>sysCache := (sysCache y)\<lparr>cacheInflight := cacheInflight (sysCache y) - {p}\<rparr>,
      sysRunning := (sysRunning y)(p := None)\<rparr>)"
| step_tick: "sysReconcile y = None \<Longrightarrow>
    storePlacements S (sysStore y) = (Inr ps, s') \<Longrightarrow>
    cache_step S mut y (y\<lparr>sysStore := s', sysCache := countReconcile (sysCache y),
      sysReconcile := Some (ps, None)\<rparr>)"
| step_tick_fails: "sysReconcile y = None \<Longrightarrow>
    storePlacements S (sysStore y) = (Inl e, s') \<Longrightarrow>
    cache_step S mut y (y\<lparr>sysStore := s',
      sysCache := countReconcileFailure (countReconcile (sysCache y))\<rparr>)"
| step_reconcile_fetch: "sysReconcile y = Some (p # ps, None) \<Longrightarrow>
    storeFetch S p (sysStore y) = (Inr bids, s') \<Longrightarrow>
    cache_step S mut y (y\<lparr>sysStore := s', sysCache := countRefresh (sysCache y),
      sysReconcile := Some (ps, Some (p, bids))\<rparr>)"
| step_reconcile_fails: "sysReconcile y = Some (p # ps, None) \<Longrightarrow>
    storeFetch S p (sysStore y) = (Inl e, s') \<Longrightarrow>
    cache_step S mut y (y\<lparr>sysStore := s',
      sysCache := countReconcileFailure (countRefreshFailure (countRefresh (sysCache y))),
      sysReconcile := None\<rparr>)"
| step_reconcile_install: "sysReconcile y = Some (ps, Some (p, bids)) \<Longrightarrow>
    cache_step S mut y (y\<lparr>sysCache := installSnapshot p bids now (sysCache y),
      sysReconcile := Some (ps, None)\<rparr>)"
| step_reconcile_done: "sysReconcile y = Some ([], None) \<Longrightarrow>
    cache_step S mut y (y\<lparr>sysReconcile := None\<rparr>)"

definition initCacheSystem :: "CachePolicy \<Rightarrow> 's \<Rightarrow> 's cacheSystem" where
  "initCacheSystem policy s =
    \<lparr>sysStore = s, sysCache = NewBidCacheWithPolicy policy, sysRunning = Map.empty,
     sysEvents = [], sysReconcile = None\<rparr>"

inductive cache_reachable ::
    "'s BidStore \<Rightarrow> ('s \<Rightarrow> 's \<Rightarrow> string \<Rightarrow> bool) \<Rightarrow> CachePolicy \<Rightarrow> 's \<Rightarrow> 's cacheSystem \<Rightarrow> bool"
  for S :: "'s BidStore" and mut :: "'s \<Rightarrow> 's \<Rightarrow> string \<Rightarrow> bool" and policy :: CachePolicy and s0 :: 's
  where
  reach_init: "cache_reachable S mut policy s0 (initCacheSystem policy s0)"
| reach_step: "cache_reachable S mut policy s0 y \<Longrightarrow> cache_step S mut y z \<Longrightarrow>
    cache_reachable S mut policy s0 z"

section \<open>Snapshots\<close>

lemma count_frames [simp]:
  "cacheEntries (countRefresh c) = cacheEntries c"
  "cacheEntries (countRefreshFailure c) = cacheEntries c"
  "cacheEntries (countReconcile c) = cacheEntries c"
  "cacheEntries (countReconcileFailure c) = cacheEntries c"
  "cacheInflight (countRefresh c) = cacheInflight c"
  "cacheInflight (countRefreshFailure c) = cacheInflight c"
  "cacheInflight (countReconcile c) = cacheInflight c"
  "cacheInflight (countReconcileFailure c) = cacheInflight c"
  "cacheStarted (countRefresh c) = cacheStarted c"
  "cacheStarted (countRefreshFailure c) = cacheStarted c"
  "cacheStarted (countReconcile c) = cacheStarted c"
  "cacheStarted (countReconcileFailure c) = cacheStarted c"
  "cachePolicy (countRefresh c) = cachePolicy c"
  "cachePolicy (countRefreshFailure c) = cachePolicy c"
  "cachePolicy (countReconcile c) = cachePolicy c"
  "cachePolicy (countReconcileFailure c) = cachePolicy c"
  "cacheEntries (countSubscriptionFailure c) = cacheEntries c"
  "cacheInflight (countSubscriptionFailure c) = cacheInflight c"
  "cacheStarted (countSubscriptionFailure c) = cacheStarted c"
  "cachePolicy (countSubscriptionFailure c) = cachePolicy c"
  by (simp_all add: countRefresh_def countRefreshFailure_def countReconcile_def
      countReconcileFailure_def countSubscriptionFailure_def)

lemma installSnapshot_frame [simp]:
  "cacheInflight (installSnapshot p bids now c) = cacheInflight c"
  "cacheStarted (installSnapshot p bids now c) = cacheStarted c"
  "cachePolicy (installSnapshot p bids now c) = cachePolicy c"
  by (simp_all add: installSnapshot_def)

lemma RefreshAsync_frame [simp]:
  "cacheEntries (BidCache_RefreshAsync p c) = cacheEntries c"
  "cachePolicy (BidCache_RefreshAsync p c) = cachePolicy c"
  "cacheStats (BidCache_RefreshAsync p c) = cacheStats c"
  by (simp_all add: BidCache_RefreshAsync_def)

lemma NewBidCache_policy_valid: "CachePolicy_Validate (cachePolicy (NewBidCacheWithPolicy p))"
  by (simp add: NewBidCacheWithPolicy_def CachePolicy_Validate_def DefaultCachePolicy_def i64_simps
      second_def)

lemma Get_installSnapshot:
  assumes "nanoRange t0" and "nanoRange (t - t0)"
  shows "BidCache_Get (installSnapshot p bids t0 c) t p =
    (sortBids (map Bid_Normalize bids),
     \<lparr>snapFound = True, snapStale = (sint (cpMaxSnapshotAge (cachePolicy c)) < t - t0),
      snapRejectStale = (sint (cpMaxSnapshotAge (cachePolicy c)) < t - t0
         \<and> cpStaleAction (cachePolicy c) = NoBidOnStale),
      snapAge = word_of_int (t - t0)\<rparr>)"
proof -
  have "sint (time_Sub t t0) = t - t0"
    using assms(2) by (simp add: nanoRange_def sint_time_Sub)
  moreover have "time_Sub t t0 = word_of_int (t - t0)"
    using assms(2) by (simp add: nanoRange_def time_Sub_def)
  ultimately show ?thesis
    using assms(1)
    by (simp add: BidCache_Get_def installSnapshot_def fromUnixNano_UnixNano sless_iff_sint Let_def)
qed

section \<open>The cache over a store that can be read\<close>

text \<open>
  What the cache relies on beyond \<open>bid_store\<close>: reading a placement returns the store's current view
  of it, reading the index returns the known placements, and neither read changes them.
\<close>

locale readable_store = bid_store "storeFetch S" for S :: "'s BidStore" +
  fixes view :: "'s \<Rightarrow> string \<Rightarrow> Bid set" and known :: "'s \<Rightarrow> string set"
  assumes fetch_view: "storeFetch S p s = (Inr bids, s') \<Longrightarrow> set bids = view s p"
    and fetch_keeps: "storeFetch S p s = (res, s') \<Longrightarrow> view s' = view s \<and> known s' = known s"
    and placements_known: "storePlacements S s = (Inr ps, s') \<Longrightarrow> set ps = known s"
    and placements_keeps: "storePlacements S s = (res', s') \<Longrightarrow> view s' = view s \<and> known s' = known s"
begin

lemma fetch_installed:
  assumes "storeFetch S p s = (Inr bids, s')"
  shows "sortBids (map Bid_Normalize bids) = bids"
  using assms fetch_normalized [of p s bids] fetch_resorted [of p s bids] by simp

lemma refresh_ok:
  assumes "BidCache_refresh S p now (c, s) = (None, c', s')"
  shows "view s' = view s \<and> known s' = known s"
    and "\<exists>bids. cacheEntries c' = (cacheEntries c)(p \<mapsto>
      Some \<lparr>listBids = bids, listRefreshedAtNS = time_UnixNano now\<rparr>) \<and> set bids = view s p \<and> sorted (map rankKey bids)"
proof -
  from assms obtain bids where f: "storeFetch S p s = (Inr bids, s')"
    and c': "c' = installSnapshot p bids now (countRefresh c)"
    by (auto simp: BidCache_refresh_def Let_def split: prod.splits sum.splits)
  from f show "view s' = view s \<and> known s' = known s" by (rule fetch_keeps)
  show "\<exists>bids. cacheEntries c' = (cacheEntries c)(p \<mapsto>
      Some \<lparr>listBids = bids, listRefreshedAtNS = time_UnixNano now\<rparr>) \<and> set bids = view s p \<and> sorted (map rankKey bids)"
    using fetch_view [OF f] fetch_installed [OF f] fetch_sorted [of p s bids] f
    by (auto simp: c' installSnapshot_def)
qed

lemma reconcileAll_ok:
  assumes "reconcileAll S clock ps (c, s) = (None, c', s')"
  shows "\<forall>p. if p \<in> set ps
    then \<exists>bids. cacheEntries c' p =
        Some (Some \<lparr>listBids = bids, listRefreshedAtNS = time_UnixNano (clock p)\<rparr>)
      \<and> set bids = view s p \<and> sorted (map rankKey bids)
    else cacheEntries c' p = cacheEntries c p"
  using assms
proof (induction ps arbitrary: c s)
  case (Cons q ps)
  obtain err c1 s1 where r: "BidCache_refresh S q (clock q) (c, s) = (err, c1, s1)"
    by (metis prod_cases3)
  with Cons.prems have "err = None" and rest: "reconcileAll S clock ps (c1, s1) = (None, c', s')"
    by (auto split: option.splits)
  with r have r: "BidCache_refresh S q (clock q) (c, s) = (None, c1, s1)" by simp
  from refresh_ok [OF r] obtain bids where v: "view s1 = view s" and bids: "set bids = view s q" "sorted (map rankKey bids)"
    and c1: "cacheEntries c1 = (cacheEntries c)(q \<mapsto>
      Some \<lparr>listBids = bids, listRefreshedAtNS = time_UnixNano (clock q)\<rparr>)"
    by blast
  show ?case
  proof
    fix p
    from Cons.IH [OF rest] have "if p \<in> set ps
      then \<exists>bids. cacheEntries c' p =
          Some (Some \<lparr>listBids = bids, listRefreshedAtNS = time_UnixNano (clock p)\<rparr>)
        \<and> set bids = view s1 p \<and> sorted (map rankKey bids)
      else cacheEntries c' p = cacheEntries c1 p" by (rule spec)
    then show "if p \<in> set (q # ps)
      then \<exists>bids. cacheEntries c' p =
          Some (Some \<lparr>listBids = bids, listRefreshedAtNS = time_UnixNano (clock p)\<rparr>)
        \<and> set bids = view s p \<and> sorted (map rankKey bids)
      else cacheEntries c' p = cacheEntries c p"
      using c1 v bids by (cases "p \<in> set ps"; cases "p = q") simp_all
  qed
qed simp

lemma Reconcile_ok:
  assumes "BidCache_Reconcile S clock (c, s) = (None, c', s')" and "p \<in> known s"
  shows "\<exists>bids. cacheEntries c' p =
      Some (Some \<lparr>listBids = bids, listRefreshedAtNS = time_UnixNano (clock p)\<rparr>)
    \<and> set bids = view s p \<and> sorted (map rankKey bids)"
proof -
  from assms(1) obtain ps s1 where ps: "storePlacements S s = (Inr ps, s1)"
    and run: "reconcileAll S clock ps (countReconcile c, s1) = (None, c', s')"
    by (auto simp: BidCache_Reconcile_def Let_def split: prod.splits sum.splits)
  have "p \<in> set ps" using placements_known [OF ps] assms(2) by simp
  with reconcileAll_ok [OF run] placements_keeps [OF ps] show ?thesis by metis
qed

end

section \<open>Invariants of the interleaved system\<close>

text \<open>
  Single flight: the in-flight set is exactly the placements with a started or running refresh
  goroutine, and no placement has two.
\<close>

definition singleFlight :: "'s cacheSystem \<Rightarrow> bool" where
  "singleFlight y \<longleftrightarrow>
     distinct (cacheStarted (sysCache y))
     \<and> set (cacheStarted (sysCache y)) \<inter> dom (sysRunning y) = {}
     \<and> cacheInflight (sysCache y) = set (cacheStarted (sysCache y)) \<union> dom (sysRunning y)"

lemma singleFlight_refreshAsync:
  "singleFlight y \<Longrightarrow> singleFlight (y\<lparr>sysCache := BidCache_RefreshAsync p (sysCache y)\<rparr>)"
  by (auto simp: singleFlight_def BidCache_RefreshAsync_def)

lemma singleFlight_step:
  assumes "cache_step S mut y z" and "singleFlight y"
  shows "singleFlight z"
  using assms
proof (induction rule: cache_step.induct)
  case (step_event y p es)
  then have "singleFlight (y\<lparr>sysCache := BidCache_RefreshAsync p (sysCache y)\<rparr>)"
    by (intro singleFlight_refreshAsync)
  then show ?case by (simp add: singleFlight_def)
qed (auto simp: singleFlight_refreshAsync, auto simp: singleFlight_def)

lemma singleFlight_reachable: "cache_reachable S mut policy s0 y \<Longrightarrow> singleFlight y"
proof (induction rule: cache_reachable.induct)
  case reach_init
  show ?case by (simp add: singleFlight_def initCacheSystem_def NewBidCacheWithPolicy_def)
next
  case (reach_step y z)
  then show ?case by (blast intro: singleFlight_step)
qed

text \<open>Every list a goroutine or a snapshot holds for a placement consists of validated bids for it.\<close>

definition goodBids :: "string \<Rightarrow> Bid list \<Rightarrow> bool" where
  "goodBids p bids \<longleftrightarrow>
     (\<forall>b \<in> set bids. Bid_Validate b = None \<and> bidPlacementID b = p) \<and> sorted (map rankKey bids)"

definition goodSystem :: "'s cacheSystem \<Rightarrow> bool" where
  "goodSystem y \<longleftrightarrow>
     (\<forall>p bl. cacheEntries (sysCache y) p = Some (Some bl) \<longrightarrow> goodBids p (listBids bl))
     \<and> (\<forall>p bids. sysRunning y p = Some (Fetched bids) \<longrightarrow> goodBids p bids)
     \<and> (\<forall>ps p bids. sysReconcile y = Some (ps, Some (p, bids)) \<longrightarrow> goodBids p bids)"

lemma goodBids_install: "goodBids p bids \<Longrightarrow> sortBids (map Bid_Normalize bids) = bids"
proof -
  assume good: "goodBids p bids"
  then have "map Bid_Normalize bids = bids"
    by (auto simp: goodBids_def Bid_Validate_def intro!: map_idI Bid_Normalize_valid)
  with good show ?thesis
    by (simp add: goodBids_def sortBids_eq_sort_key sort_key_id_if_sorted)
qed

lemma goodSystem_install:
  assumes "goodSystem y" and "goodBids p bids"
    and "cacheEntries (installSnapshot p bids now (sysCache y)) q = Some (Some bl)"
  shows "goodBids q (listBids bl)"
  using assms goodBids_install [OF assms(2)]
  by (auto simp: installSnapshot_def goodSystem_def split: if_splits)

context bid_store begin

lemma fetch_goodBids: "fetch p s = (Inr bids, s') \<Longrightarrow> goodBids p bids"
  using fetch_valid [of p s bids] fetch_placement [of p s bids] fetch_sorted [of p s bids]
  by (simp add: goodBids_def)

end

context readable_store begin

lemma goodSystem_step:
  assumes "cache_step S mut y z" and "goodSystem y"
  shows "goodSystem z"
  using assms
proof (induction rule: cache_step.induct)
  case (step_install y p bids now)
  then have "goodBids p bids" by (auto simp: goodSystem_def)
  with step_install goodSystem_install show ?case by (fastforce simp: goodSystem_def)
next
  case (step_reconcile_install y ps p bids now)
  then have "goodBids p bids" by (auto simp: goodSystem_def)
  with step_reconcile_install goodSystem_install show ?case by (fastforce simp: goodSystem_def)
qed (auto simp: goodSystem_def dest: fetch_goodBids)

lemma goodSystem_reachable: "cache_reachable S mut policy s0 y \<Longrightarrow> goodSystem y"
proof (induction rule: cache_reachable.induct)
  case reach_init
  show ?case by (simp add: goodSystem_def initCacheSystem_def NewBidCacheWithPolicy_def)
next
  case (reach_step y z)
  then show ?case by (blast intro: goodSystem_step)
qed

end

end
