(* ===== verification/Auctioneer.thy ===== *)
theory Auctioneer
  imports Bid_Cache
begin

text \<open>
  \<open>Auctioneer\<close> of \<open>internal/ads/auction.go\<close>: \<open>Run\<close>, \<open>RunWithDynamic\<close> and \<open>Select\<close> over a \<open>BidCache\<close>.
  A run reads the clock twice, for the snapshot's age (\<open>readAt\<close>) and for the activity window
  (\<open>now\<close>), returns the decision, and may start a background refresh; it never touches the store.
\<close>

section \<open>Definitions\<close>

record AuctionDecision =
  decBid :: "Bid option"
  decEffectivePriceMicros :: int64
  decClearingPriceMicros :: int64
  decEligibleCandidates :: int64
  decNoBidReason :: string
  decServedStale :: bool
  decSnapshotAge :: duration
  decDynamicBidderID :: string

definition emptyDecision :: AuctionDecision where
  "emptyDecision =
    \<lparr>decBid = None, decEffectivePriceMicros = 0, decClearingPriceMicros = 0,
     decEligibleCandidates = 0, decNoBidReason = [], decServedStale = False, decSnapshotAge = 0,
     decDynamicBidderID = []\<rparr>"

definition AuctionDecision_Filled :: "AuctionDecision \<Rightarrow> bool" where
  "AuctionDecision_Filled d \<longleftrightarrow> decBid d \<noteq> None"

definition NewAuctioneerWithPolicy :: "AuctionPolicy \<Rightarrow> AuctionPolicy" where
  "NewAuctioneerWithPolicy policy =
    (if AuctionPolicy_Validate policy \<noteq> None then DefaultAuctionPolicy else policy)"

definition auctionCandidates :: "Bid list \<Rightarrow> DynamicBid list \<Rightarrow> candidate list" where
  "auctionCandidates bids dynamic =
     map (\<lambda>b. (b, [])) bids @ map (\<lambda>d. (dynBid d, dynBidderID d)) dynamic"

definition Auctioneer_run ::
    "AuctionPolicy \<Rightarrow> time \<Rightarrow> time \<Rightarrow> AuctionRequest \<Rightarrow> DynamicBid list \<Rightarrow> BidCache
       \<Rightarrow> AuctionDecision \<times> BidCache" where
  "Auctioneer_run policy readAt now request dynamic c =
    (let (bids, snapshot) = BidCache_Get c readAt (reqPlacementID request) in
     if \<not> snapFound snapshot
     then (emptyDecision\<lparr>decNoBidReason := ''cold_cache''\<rparr>,
           BidCache_RefreshAsync (reqPlacementID request) c)
     else
       let c1 = (if snapStale snapshot
                 then BidCache_RefreshAsync (reqPlacementID request) c else c) in
       if snapStale snapshot \<and> snapRejectStale snapshot
       then (emptyDecision\<lparr>decNoBidReason := ''stale_snapshot'', decSnapshotAge := snapAge snapshot\<rparr>, c1)
       else
         let acc = considerAll (auctionCandidates bids dynamic)
                     (newAccumulator request (time_Unix now)) in
         case accWinner acc of
           None \<Rightarrow>
             (emptyDecision\<lparr>decEligibleCandidates := accCandidates acc,
                decNoBidReason := ''no_eligible_bid'', decServedStale := snapStale snapshot,
                decSnapshotAge := snapAge snapshot\<rparr>, c1)
         | Some w \<Rightarrow>
             (\<lparr>decBid = Some w, decEffectivePriceMicros = accWinnerPrice acc,
               decClearingPriceMicros = clearingPrice policy w (accWinnerPrice acc)
                  (accRunnerUpPrice acc) (reqFloorMicros request),
               decEligibleCandidates = accCandidates acc, decNoBidReason = [],
               decServedStale = snapStale snapshot, decSnapshotAge = snapAge snapshot,
               decDynamicBidderID = accWinnerBidderID acc\<rparr>, c1))"

definition Auctioneer_Run ::
    "AuctionPolicy \<Rightarrow> time \<Rightarrow> time \<Rightarrow> AuctionRequest \<Rightarrow> BidCache \<Rightarrow> AuctionDecision \<times> BidCache" where
  "Auctioneer_Run policy readAt now request c = Auctioneer_run policy readAt now request [] c"

definition Auctioneer_RunWithDynamic ::
    "AuctionPolicy \<Rightarrow> time \<Rightarrow> time \<Rightarrow> AuctionRequest \<Rightarrow> DynamicBid list \<Rightarrow> BidCache
       \<Rightarrow> AuctionDecision \<times> BidCache" where
  "Auctioneer_RunWithDynamic policy readAt now request dynamic c =
     Auctioneer_run policy readAt now request dynamic c"

definition Auctioneer_Select ::
    "AuctionPolicy \<Rightarrow> time \<Rightarrow> time \<Rightarrow> AuctionRequest \<Rightarrow> BidCache \<Rightarrow> (Bid option \<times> bool) \<times> BidCache" where
  "Auctioneer_Select policy readAt now request c =
    (let (decision, c1) = Auctioneer_Run policy readAt now request c in
     ((decBid decision, AuctionDecision_Filled decision), c1))"

section \<open>Lemmas\<close>

abbreviation auctionAcc ::
    "AuctionRequest \<Rightarrow> time \<Rightarrow> DynamicBid list \<Rightarrow> BidCache \<Rightarrow> time \<Rightarrow> auctionAccumulator" where
  "auctionAcc request now dynamic c readAt \<equiv>
     considerAll (auctionCandidates (fst (BidCache_Get c readAt (reqPlacementID request))) dynamic)
       (newAccumulator request (time_Unix now))"

lemma NewAuctioneerWithPolicy_valid: "AuctionPolicy_Validate (NewAuctioneerWithPolicy p) = None"
  by (simp add: NewAuctioneerWithPolicy_def)

lemma set_auctionCandidates:
  "set (auctionCandidates bids dynamic) =
     (\<lambda>b. (b, [])) ` set bids \<union> (\<lambda>d. (dynBid d, dynBidderID d)) ` set dynamic"
  by (simp add: auctionCandidates_def)

lemma run_cache:
  "cacheEntries (snd (Auctioneer_run policy readAt now request dynamic c)) = cacheEntries c"
  "cachePolicy (snd (Auctioneer_run policy readAt now request dynamic c)) = cachePolicy c"
  by (simp_all add: Auctioneer_run_def Let_def split: prod.split option.split)

text \<open>The decision is a function of the snapshot state and the accumulator.\<close>

definition decisionFrom ::
    "AuctionPolicy \<Rightarrow> int64 \<Rightarrow> SnapshotState \<Rightarrow> auctionAccumulator \<Rightarrow> AuctionDecision" where
  "decisionFrom policy floor snapshot acc =
    (if \<not> snapFound snapshot then emptyDecision\<lparr>decNoBidReason := ''cold_cache''\<rparr>
     else if snapStale snapshot \<and> snapRejectStale snapshot
     then emptyDecision\<lparr>decNoBidReason := ''stale_snapshot'', decSnapshotAge := snapAge snapshot\<rparr>
     else case accWinner acc of
       None \<Rightarrow> emptyDecision\<lparr>decEligibleCandidates := accCandidates acc,
          decNoBidReason := ''no_eligible_bid'', decServedStale := snapStale snapshot,
          decSnapshotAge := snapAge snapshot\<rparr>
     | Some w \<Rightarrow> \<lparr>decBid = Some w, decEffectivePriceMicros = accWinnerPrice acc,
          decClearingPriceMicros =
            clearingPrice policy w (accWinnerPrice acc) (accRunnerUpPrice acc) floor,
          decEligibleCandidates = accCandidates acc, decNoBidReason = [],
          decServedStale = snapStale snapshot, decSnapshotAge = snapAge snapshot,
          decDynamicBidderID = accWinnerBidderID acc\<rparr>)"

lemma run_decision:
  "fst (Auctioneer_run policy readAt now request dynamic c) =
     decisionFrom policy (reqFloorMicros request) (snd (BidCache_Get c readAt (reqPlacementID request)))
       (auctionAcc request now dynamic c readAt)"
  by (simp add: Auctioneer_run_def decisionFrom_def split_beta Let_def split: option.split)

lemma decisionFrom_cong:
  assumes "accWinner a = accWinner a'" and "accWinnerBidderID a = accWinnerBidderID a'"
    and "accRunnerUpPrice a = accRunnerUpPrice a'" and "accCandidates a = accCandidates a'"
    and "\<And>w. accWinner a = Some w \<Longrightarrow> accWinnerPrice a = accWinnerPrice a'"
  shows "decisionFrom policy fl snapshot a = decisionFrom policy fl snapshot a'"
  using assms by (auto simp: decisionFrom_def split: option.split)

text \<open>A run that gets as far as ranking returns what the accumulator found.\<close>

lemma run_ranks:
  assumes "BidCache_Get c readAt (reqPlacementID request) = (bids, snapshot)"
    and "snapFound snapshot" and "\<not> (snapStale snapshot \<and> snapRejectStale snapshot)"
  shows "decBid (fst (Auctioneer_run policy readAt now request dynamic c)) =
      accWinner (auctionAcc request now dynamic c readAt)"
    and "decEligibleCandidates (fst (Auctioneer_run policy readAt now request dynamic c)) =
      accCandidates (auctionAcc request now dynamic c readAt)"
    and "decNoBidReason (fst (Auctioneer_run policy readAt now request dynamic c)) =
      (if accWinner (auctionAcc request now dynamic c readAt) = None then ''no_eligible_bid'' else [])"
    and "decServedStale (fst (Auctioneer_run policy readAt now request dynamic c)) = snapStale snapshot"
  using assms
  by (auto simp: Auctioneer_run_def emptyDecision_def Let_def split: option.split)

lemma run_filled:
  assumes "decBid (fst (Auctioneer_run policy readAt now request dynamic c)) = Some w"
  shows "accWinner (auctionAcc request now dynamic c readAt) = Some w"
    and "decEffectivePriceMicros (fst (Auctioneer_run policy readAt now request dynamic c)) =
      accWinnerPrice (auctionAcc request now dynamic c readAt)"
    and "decDynamicBidderID (fst (Auctioneer_run policy readAt now request dynamic c)) =
      accWinnerBidderID (auctionAcc request now dynamic c readAt)"
    and "decClearingPriceMicros (fst (Auctioneer_run policy readAt now request dynamic c)) =
      clearingPrice policy w (accWinnerPrice (auctionAcc request now dynamic c readAt))
        (accRunnerUpPrice (auctionAcc request now dynamic c readAt)) (reqFloorMicros request)"
  using assms
  by (auto simp: Auctioneer_run_def Let_def emptyDecision_def
      split: prod.splits option.splits if_splits)

text \<open>The facts about a filled decision that the pricing properties share.\<close>

lemma run_filled_prices:
  assumes "decBid (fst (Auctioneer_run policy readAt now request dynamic c)) = Some w"
    and "AuctionRequest_Validate request"
  shows "accWinnerPrice (auctionAcc request now dynamic c readAt) = effectivePrice w"
    and "0 \<le> sint (accRunnerUpPrice (auctionAcc request now dynamic c readAt))"
    and "sint (accRunnerUpPrice (auctionAcc request now dynamic c readAt)) \<le> sint (effectivePrice w)"
    and "max (sint (reqFloorMicros request)) (sint (bidFloorMicros w)) \<le> sint (effectivePrice w)"
proof -
  note floor = AuctionRequest_floor [OF assms(2)]
  from run_filled(1) [OF assms(1)] floor obtain pre post where
    pre: "\<forall>c \<in> set pre. rankKey w < rankKey (fst c)"
    and post: "\<forall>c \<in> set post. rankKey w \<le> rankKey (fst c)"
    and price: "accWinnerPrice (auctionAcc request now dynamic c readAt) = effectivePrice w"
    and runner: "sint (accRunnerUpPrice (auctionAcc request now dynamic c readAt)) =
      runnerUpOf w (pre @ post)"
    and elig: "eligible w request (time_Unix now) (effectivePrice w)"
    by (rule considerAll_winnerE) blast
  have "\<forall>c \<in> set (pre @ post). rankKey w \<le> rankKey (fst c)"
    using pre post by (simp add: ball_Un order.strict_implies_order)
  moreover have "0 \<le> sint (effectivePrice w)" using elig floor by (rule eligible_price_nonneg)
  ultimately show "sint (accRunnerUpPrice (auctionAcc request now dynamic c readAt)) \<le> sint (effectivePrice w)"
    unfolding runner by (rule runnerUpOf_le)
  show "0 \<le> sint (accRunnerUpPrice (auctionAcc request now dynamic c readAt))"
    unfolding runner by (rule runnerUpOf_nonneg)
  show "accWinnerPrice (auctionAcc request now dynamic c readAt) = effectivePrice w" by (rule price)
  show "max (sint (reqFloorMicros request)) (sint (bidFloorMicros w)) \<le> sint (effectivePrice w)"
    using elig by (rule eligible_floor)
qed

section \<open>Example data\<close>

text \<open>A placement with three bids, used to instantiate the properties below.\<close>

definition exampleBid :: "string \<Rightarrow> int64 \<Rightarrow> int64 \<Rightarrow> int64 \<Rightarrow> Bid" where
  "exampleBid i price pacing priority =
    \<lparr>bidID = i, bidRevision = 1, bidPlacementID = ''top'', bidCampaignID = ''c'',
     bidCreativeID = ''x'', bidMarkup = [], bidClickURL = [], bidPriceMicros = price,
     bidFloorMicros = 0, bidDealID = ''d'', bidPriority = priority, bidPacingBPS = pacing,
     bidCountries = [], bidDevices = [], bidActiveFromUnix = 0, bidActiveToUnix = 0\<rparr>"

definition exampleBids :: "Bid list" where
  "exampleBids = [exampleBid ''winner'' 900 8000 5, exampleBid ''runner'' 650 10000 5,
     exampleBid ''open'' 880 10000 0]"

definition exampleCache :: BidCache where
  "exampleCache = installSnapshot ''top'' exampleBids 0 (NewBidCache minute)"

definition exampleRequest :: AuctionRequest where
  "exampleRequest = \<lparr>reqPlacementID = ''top'', reqUserID = [], reqCountry = ''IN'',
     reqDevice = ''mobile'', reqFloorMicros = 600\<rparr>"

definition examplePolicy :: AuctionPolicy where
  "examplePolicy = \<lparr>policyPricingModel = SecondPrice, policyIncrement = 10\<rparr>"

definition exampleDynamic :: "DynamicBid list" where
  "exampleDynamic = [\<lparr>dynBid = exampleBid ''dsp:1'' 5000 10000 0, dynBidderID = ''dsp''\<rparr>]"

lemma exampleRequest_valid: "AuctionRequest_Validate exampleRequest"
  by code_simp

lemma example_filled:
  "decBid (fst (Auctioneer_run (NewAuctioneerWithPolicy examplePolicy) 1000000000 1000000000
     exampleRequest exampleDynamic exampleCache)) = Some (exampleBid ''winner'' 900 8000 5)"
  by code_simp

section \<open>Winners\<close>

abbreviation decisionOf ::
    "AuctionPolicy \<Rightarrow> time \<Rightarrow> time \<Rightarrow> AuctionRequest \<Rightarrow> DynamicBid list \<Rightarrow> BidCache \<Rightarrow> AuctionDecision" where
  "decisionOf policy readAt now request dynamic c \<equiv>
     fst (Auctioneer_run policy readAt now request dynamic c)"

abbreviation candidatesOf ::
    "time \<Rightarrow> AuctionRequest \<Rightarrow> DynamicBid list \<Rightarrow> BidCache \<Rightarrow> candidate list" where
  "candidatesOf readAt request dynamic c \<equiv>
     auctionCandidates (fst (BidCache_Get c readAt (reqPlacementID request))) dynamic"

lemma run_fills:
  assumes "snapFound (snd (BidCache_Get c readAt (reqPlacementID request)))"
    and "\<not> snapStale (snd (BidCache_Get c readAt (reqPlacementID request)))"
    and valid: "AuctionRequest_Validate request"
    and "b \<in> set (fst (BidCache_Get c readAt (reqPlacementID request)))"
    and "eligible b request (time_Unix now) (effectivePrice b)"
  shows "\<exists>w. decBid (decisionOf policy readAt now request dynamic c) = Some w"
proof -
  have "(b, []) \<in> set (candidatesOf readAt request dynamic c)"
    using assms(4) by (simp add: set_auctionCandidates)
  then have "accWinner (auctionAcc request now dynamic c readAt) \<noteq> None"
    using considerAll_None_iff [OF AuctionRequest_floor [OF valid], of "candidatesOf readAt request dynamic c"
        "time_Unix now"] assms(5) by fastforce
  with run_ranks(1) [OF prod.collapse [symmetric], of c readAt request policy now dynamic] assms(1,2)
  show ?thesis by auto
qed

lemma run_winner_best:
  assumes filled: "decBid (decisionOf policy readAt now request dynamic c) = Some w"
    and valid: "AuctionRequest_Validate request"
  shows "(w, decDynamicBidderID (decisionOf policy readAt now request dynamic c))
        \<in> set (candidatesOf readAt request dynamic c)
    \<and> eligible w request (time_Unix now) (effectivePrice w)
    \<and> decEffectivePriceMicros (decisionOf policy readAt now request dynamic c) = effectivePrice w
    \<and> (\<forall>(b, bidder) \<in> set (candidatesOf readAt request dynamic c).
         eligible b request (time_Unix now) (effectivePrice b) \<longrightarrow>
         \<not> ranksAhead b (effectivePrice b) w (effectivePrice w))"
proof -
  note run = run_filled [OF filled]
  note out = considerAll_outcome [OF AuctionRequest_floor [OF valid],
      of "time_Unix now" "candidatesOf readAt request dynamic c"]
  note least = accOutcome_winner_least [OF out run(1)]
  show ?thesis
    using least run(2,3) run_filled_prices(1) [OF filled valid]
    by (auto simp: ranksAhead_iff not_less)
qed

lemma run_deal_first:
  assumes filled: "decBid (decisionOf policy readAt now request dynamic c) = Some w"
    and valid: "AuctionRequest_Validate request"
    and dyn: "\<forall>x \<in> set dynamic. bidPriority (dynBid x) = 0"
    and deal: "b \<in> set (fst (BidCache_Get c readAt (reqPlacementID request)))" "0 <s bidPriority b"
      "eligible b request (time_Unix now) (effectivePrice b)"
  shows "w \<in> set (fst (BidCache_Get c readAt (reqPlacementID request))) \<and> 0 <s bidPriority w
    \<and> decDynamicBidderID (decisionOf policy readAt now request dynamic c) = []"
proof -
  note run = run_filled [OF filled]
  note out = considerAll_outcome [OF AuctionRequest_floor [OF valid],
      of "time_Unix now" "candidatesOf readAt request dynamic c"]
  note least = accOutcome_winner_least [OF out run(1)]
  have "(b, []) \<in> set (filter (candEligible request (time_Unix now)) (candidatesOf readAt request dynamic c))"
    using deal by (simp add: set_auctionCandidates)
  with least(2) have "sint (bidPriority b) \<le> sint (bidPriority w)"
    by (fastforce dest: rankKey_le_priority)
  with deal(2) have pos: "0 < sint (bidPriority w)" by (simp add: i64_simps)
  then have "\<forall>x \<in> set dynamic. dynBid x \<noteq> w" using dyn by auto
  with least(1) run(3) pos show ?thesis
    by (auto simp: set_auctionCandidates i64_simps)
qed

section \<open>Properties\<close>

text \<open>
  C1: the winner is right. When an auction on a valid request is filled, the winning bid is one of
  the snapshot or DSP candidates, the reported bidder is the one it came from, it is eligible, the
  reported effective price is its own, and no eligible candidate ranks ahead of it by priority,
  then effective price, then bid ID.
\<close>

theorem auction_winner_optimal:
  assumes filled: "decBid (decisionOf policy readAt now request dynamic c) = Some w"
    and valid: "AuctionRequest_Validate request"
  shows "(w, decDynamicBidderID (decisionOf policy readAt now request dynamic c))
        \<in> set (candidatesOf readAt request dynamic c)
    \<and> eligible w request (time_Unix now) (effectivePrice w)
    \<and> decEffectivePriceMicros (decisionOf policy readAt now request dynamic c) = effectivePrice w
    \<and> (\<forall>(b, bidder) \<in> set (candidatesOf readAt request dynamic c).
         eligible b request (time_Unix now) (effectivePrice b) \<longrightarrow>
         \<not> ranksAhead b (effectivePrice b) w (effectivePrice w))"
  using assms by (rule run_winner_best)

theorem auction_winner_optimal_witness:
  "\<not> ranksAhead (exampleBid ''open'' 880 10000 0) (effectivePrice (exampleBid ''open'' 880 10000 0))
     (exampleBid ''winner'' 900 8000 5) (effectivePrice (exampleBid ''winner'' 900 8000 5))"
proof -
  have "(exampleBid ''open'' 880 10000 0, [])
      \<in> set (candidatesOf 1000000000 exampleRequest exampleDynamic exampleCache)"
    by code_simp
  moreover have "eligible (exampleBid ''open'' 880 10000 0) exampleRequest (time_Unix 1000000000)
      (effectivePrice (exampleBid ''open'' 880 10000 0))"
    by code_simp
  ultimately show ?thesis
    using auction_winner_optimal [OF example_filled exampleRequest_valid] by blast
qed

text \<open>
  C21: when an auction is filled. An auction on a valid request is filled exactly when a snapshot is
  present, the snapshot is not rejected as stale, and some snapshot or DSP candidate is eligible;
  otherwise the reported reason is the first of these that fails. The reported count is the number of
  eligible candidates, and zero when the ranking is not reached.
\<close>

theorem auction_filled_iff:
  assumes "BidCache_Get c readAt (reqPlacementID request) = (bids, snapshot)"
    and valid: "AuctionRequest_Validate request"
  shows "(AuctionDecision_Filled (decisionOf policy readAt now request dynamic c) \<longleftrightarrow>
      snapFound snapshot \<and> \<not> (snapStale snapshot \<and> snapRejectStale snapshot)
      \<and> (\<exists>(b, bidder) \<in> set (auctionCandidates bids dynamic).
        eligible b request (time_Unix now) (effectivePrice b)))
    \<and> decNoBidReason (decisionOf policy readAt now request dynamic c) =
        (if \<not> snapFound snapshot then ''cold_cache''
         else if snapStale snapshot \<and> snapRejectStale snapshot then ''stale_snapshot''
         else if AuctionDecision_Filled (decisionOf policy readAt now request dynamic c) then []
         else ''no_eligible_bid'')
    \<and> decEligibleCandidates (decisionOf policy readAt now request dynamic c) =
        (if snapFound snapshot \<and> \<not> (snapStale snapshot \<and> snapRejectStale snapshot)
         then of_nat (length (filter (candEligible request (time_Unix now)) (auctionCandidates bids dynamic)))
         else 0)"
proof (cases "snapFound snapshot \<and> \<not> (snapStale snapshot \<and> snapRejectStale snapshot)")
  case True
  then have reached: "snapFound snapshot" "\<not> (snapStale snapshot \<and> snapRejectStale snapshot)" by blast+
  note run = run_ranks [OF assms(1) reached, where policy = policy and now = now and dynamic = dynamic]
  have cands: "candidatesOf readAt request dynamic c = auctionCandidates bids dynamic"
    by (simp add: assms(1))
  show ?thesis
    using considerAll_None_iff [OF AuctionRequest_floor [OF valid], of
        "auctionCandidates bids dynamic" "time_Unix now"] True
    unfolding AuctionDecision_Filled_def run cands considerAll_candidates
    by (auto simp: split_beta)
next
  case False
  then show ?thesis
    unfolding run_decision by (auto simp: decisionFrom_def emptyDecision_def AuctionDecision_Filled_def assms(1))
qed

theorem auction_filled_iff_witness:
  "decNoBidReason (decisionOf examplePolicy 1000000000 1000000000
     (exampleRequest\<lparr>reqFloorMicros := 901\<rparr>) [] exampleCache) = ''no_eligible_bid''"
proof -
  let ?r = "exampleRequest\<lparr>reqFloorMicros := 901\<rparr>"
  have get: "BidCache_Get exampleCache 1000000000 (reqPlacementID ?r) =
      (exampleBids, \<lparr>snapFound = True, snapStale = False, snapRejectStale = False, snapAge = 1000000000\<rparr>)"
    by code_simp
  have valid: "AuctionRequest_Validate ?r" by code_simp
  have none: "\<not> (\<exists>(b, bidder) \<in> set (auctionCandidates exampleBids []).
      eligible b ?r (time_Unix 1000000000) (effectivePrice b))"
    by code_simp
  show ?thesis
    using auction_filled_iff [OF get valid, where policy = examplePolicy and now = 1000000000
        and dynamic = "[]"] none
    by simp
qed

text \<open>
  C2: the clearing price is exact. Under first price the winner pays its effective price. Under
  second price it pays the larger of the floors and the best same-priority rival's effective price
  plus the increment, capped by its own effective price, with no overflow; without a rival above
  zero it pays the larger of the floors.
\<close>

theorem auction_clearing_price:
  assumes filled: "decBid (decisionOf (NewAuctioneerWithPolicy policy) readAt now request dynamic c) = Some w"
    and valid: "AuctionRequest_Validate request"
  shows "\<exists>pre post.
    filter (candEligible request (time_Unix now)) (candidatesOf readAt request dynamic c) =
      pre @ (w, decDynamicBidderID (decisionOf (NewAuctioneerWithPolicy policy) readAt now request dynamic c)) # post
    \<and> sint (decClearingPriceMicros (decisionOf (NewAuctioneerWithPolicy policy) readAt now request dynamic c)) =
      (let floor = max (sint (reqFloorMicros request)) (sint (bidFloorMicros w));
           own = sint (effectivePrice w);
           rival = runnerUpOf w (pre @ post)
       in if policyPricingModel (NewAuctioneerWithPolicy policy) = FirstPrice then own
          else if rival = 0 then floor
          else max floor (min (rival + sint (policyIncrement (NewAuctioneerWithPolicy policy))) own))"
proof -
  let ?p = "NewAuctioneerWithPolicy policy"
  note run = run_filled [OF filled] and prices = run_filled_prices [OF filled valid]
  from run(1) AuctionRequest_floor [OF valid] obtain pre post where
    es: "filter (candEligible request (time_Unix now)) (candidatesOf readAt request dynamic c) =
      pre @ (w, decDynamicBidderID (decisionOf ?p readAt now request dynamic c)) # post"
    and runner: "sint (accRunnerUpPrice (auctionAcc request now dynamic c readAt)) = runnerUpOf w (pre @ post)"
    using run(3) by (elim considerAll_winnerE) auto
  have "0 \<le> sint (policyIncrement ?p)"
    using NewAuctioneerWithPolicy_valid by (simp add: AuctionPolicy_Validate_iff)
  then show ?thesis
    using es run(4) prices clearingPrice_first [of ?p] clearingPrice_second [of ?p]
    by (intro exI [of _ pre] exI [of _ post]) (simp add: runner [symmetric] Let_def)
qed

theorem auction_clearing_price_witness:
  "\<exists>others. sint (decClearingPriceMicros (decisionOf (NewAuctioneerWithPolicy examplePolicy) 1000000000
      1000000000 exampleRequest exampleDynamic exampleCache)) =
    (if runnerUpOf (exampleBid ''winner'' 900 8000 5) others = 0 then 600
     else max 600 (min (runnerUpOf (exampleBid ''winner'' 900 8000 5) others + 10) 720))"
proof -
  have facts: "policyPricingModel (NewAuctioneerWithPolicy examplePolicy) \<noteq> FirstPrice"
    "sint (policyIncrement (NewAuctioneerWithPolicy examplePolicy)) = 10"
    "max (sint (reqFloorMicros exampleRequest)) (sint (bidFloorMicros (exampleBid ''winner'' 900 8000 5))) = 600"
    "sint (effectivePrice (exampleBid ''winner'' 900 8000 5)) = 720"
    by code_simp+
  from auction_clearing_price [OF example_filled exampleRequest_valid] show ?thesis
    by (simp only: Let_def facts if_False) blast
qed

text \<open>
  C22: a winner never pays more than it offered and never less than a floor: for every policy the
  auctioneer can be built with, the clearing price lies between the larger of the request's and
  the bid's floor and the winner's effective price.
\<close>

theorem auction_price_bounds:
  assumes filled: "decBid (decisionOf (NewAuctioneerWithPolicy policy) readAt now request dynamic c) = Some w"
    and valid: "AuctionRequest_Validate request"
  shows "max (sint (reqFloorMicros request)) (sint (bidFloorMicros w))
      \<le> sint (decClearingPriceMicros (decisionOf (NewAuctioneerWithPolicy policy) readAt now request dynamic c))
    \<and> sint (decClearingPriceMicros (decisionOf (NewAuctioneerWithPolicy policy) readAt now request dynamic c))
      \<le> sint (decEffectivePriceMicros (decisionOf (NewAuctioneerWithPolicy policy) readAt now request dynamic c))"
  unfolding run_filled(2,4) [OF filled] run_filled_prices(1) [OF filled valid]
  using run_filled_prices [OF filled valid]
  by (intro conjI clearingPrice_bounds NewAuctioneerWithPolicy_valid)

theorem auction_price_bounds_witness:
  "600 \<le> sint (decClearingPriceMicros (decisionOf (NewAuctioneerWithPolicy examplePolicy) 1000000000
     1000000000 exampleRequest exampleDynamic exampleCache))"
proof -
  have "sint (reqFloorMicros exampleRequest) = 600" by code_simp
  then show ?thesis
    using auction_price_bounds [OF example_filled exampleRequest_valid] by simp
qed

text \<open>
  C20: the decision does not depend on the order in which bids are stored, fetched or returned by
  DSPs: two auctions over the same candidates in any order, with distinct bid IDs and the same
  snapshot state, return the same decision.
\<close>

theorem auction_order_independent:
  assumes perm: "mset (candidatesOf readAt request dynamic c) = mset (candidatesOf readAt request dynamic' c')"
    and snap: "snd (BidCache_Get c readAt (reqPlacementID request)) =
      snd (BidCache_Get c' readAt (reqPlacementID request))"
    and ids: "distinct (map (\<lambda>cand. bidID (fst cand)) (candidatesOf readAt request dynamic c))"
    and valid: "AuctionRequest_Validate request"
  shows "decisionOf policy readAt now request dynamic c = decisionOf policy readAt now request dynamic' c'"
proof -
  let ?e = "candEligible request (time_Unix now)"
  let ?cs = "candidatesOf readAt request dynamic c" and ?cs' = "candidatesOf readAt request dynamic' c'"
  let ?a = "auctionAcc request now dynamic c readAt" and ?a' = "auctionAcc request now dynamic' c' readAt"
  note floor = AuctionRequest_floor [OF valid]
  have out: "accOutcome (filter ?e ?cs) ?a" "accOutcome (filter ?e ?cs') ?a'"
    by (rule considerAll_outcome [OF floor])+
  have elig: "mset (filter ?e ?cs) = mset (filter ?e ?cs')" using perm by (simp add: mset_filter)
  moreover have "inj_on (\<lambda>cand. rankKey (fst cand)) (set (filter ?e ?cs))"
    using ids by (intro inj_onI) (auto simp: rankKey_def distinct_map dest: inj_onD)
  ultimately have same: "accWinner ?a = accWinner ?a'" "accWinnerBidderID ?a = accWinnerBidderID ?a'"
    "accRunnerUpPrice ?a = accRunnerUpPrice ?a'"
    using accOutcome_perm [OF out] by blast+
  have price: "accWinnerPrice ?a = accWinnerPrice ?a'" if "accWinner ?a = Some w" for w
    using out that same(1) by (auto simp: accOutcome_def)
  have "accCandidates ?a = accCandidates ?a'"
    using mset_eq_length [OF elig] by (simp add: considerAll_candidates)
  with same price have "decisionFrom policy (reqFloorMicros request) st ?a =
      decisionFrom policy (reqFloorMicros request) st ?a'" for st
    by (intro decisionFrom_cong)
  then show ?thesis by (simp only: run_decision snap)
qed

theorem auction_order_independent_witness:
  "decisionOf examplePolicy 1000000000 0 exampleRequest exampleDynamic exampleCache =
   decisionOf examplePolicy 1000000000 0 exampleRequest exampleDynamic
     (exampleCache\<lparr>cacheEntries := [''top'' \<mapsto> Some \<lparr>listBids = rev exampleBids, listRefreshedAtNS = 0\<rparr>]\<rparr>)"
  by (rule auction_order_independent) code_simp+

text \<open>
  DSP bids never displace a private deal. If every DSP bid has the open-market priority 0 and
  some snapshot bid with a positive priority is eligible, a filled auction goes to a snapshot bid
  with a positive priority and reports no DSP bidder.
\<close>

theorem deals_outrank_dynamic:
  assumes filled: "decBid (decisionOf policy readAt now request dynamic c) = Some w"
    and valid: "AuctionRequest_Validate request"
    and dyn: "\<forall>x \<in> set dynamic. bidPriority (dynBid x) = 0"
    and deal: "b \<in> set (fst (BidCache_Get c readAt (reqPlacementID request)))" "0 <s bidPriority b"
      "eligible b request (time_Unix now) (effectivePrice b)"
  shows "w \<in> set (fst (BidCache_Get c readAt (reqPlacementID request))) \<and> 0 <s bidPriority w
    \<and> decDynamicBidderID (decisionOf policy readAt now request dynamic c) = []"
  using assms by (rule run_deal_first)

theorem deals_outrank_dynamic_witness:
  "decDynamicBidderID (decisionOf (NewAuctioneerWithPolicy examplePolicy) 1000000000 1000000000
     exampleRequest exampleDynamic exampleCache) = []"
proof -
  have "\<forall>x \<in> set exampleDynamic. bidPriority (dynBid x) = 0" by code_simp
  moreover have "exampleBid ''runner'' 650 10000 5
      \<in> set (fst (BidCache_Get exampleCache 1000000000 (reqPlacementID exampleRequest)))" by code_simp
  moreover have "0 <s bidPriority (exampleBid ''runner'' 650 10000 5)" by code_simp
  moreover have "eligible (exampleBid ''runner'' 650 10000 5) exampleRequest (time_Unix 1000000000)
      (effectivePrice (exampleBid ''runner'' 650 10000 5))" by code_simp
  ultimately show ?thesis
    using deals_outrank_dynamic [OF example_filled exampleRequest_valid] by blast
qed

text \<open>
  The one-pass accumulator agrees with scanning the ranked snapshot. On a snapshot in \<open>sortBids\<close>
  order and without DSP bids, the winner of \<open>Run\<close> is the first eligible bid.
\<close>

theorem run_is_first_eligible:
  assumes "BidCache_Get c readAt (reqPlacementID request) = (bids, snapshot)"
    and "snapFound snapshot" and "\<not> (snapStale snapshot \<and> snapRejectStale snapshot)"
    and valid: "AuctionRequest_Validate request" and "sortBids xs = bids"
  shows "decBid (fst (Auctioneer_Run policy readAt now request c)) =
    find (\<lambda>b. eligible b request (time_Unix now) (effectivePrice b)) bids"
proof -
  let ?cs = "map (\<lambda>b. (b, [] :: string)) bids"
  have "sorted (map rankKey bids)" using assms(5) by (auto simp: sortBids_eq_sort_key)
  then have "accWinner (considerAll ?cs (newAccumulator request (time_Unix now))) =
      map_option fst (find (candEligible request (time_Unix now)) ?cs)"
    by (intro accWinner_find AuctionRequest_floor [OF valid]) (simp add: comp_def)
  also have "\<dots> = find (\<lambda>b. eligible b request (time_Unix now) (effectivePrice b)) bids"
    by (induction bids) simp_all
  finally show ?thesis
    using run_ranks(1) [OF assms(1-3)]
    by (simp add: Auctioneer_Run_def assms(1) auctionCandidates_def)
qed

theorem run_is_first_eligible_witness:
  "decBid (fst (Auctioneer_Run examplePolicy 1000000000 0 exampleRequest exampleCache)) =
     find (\<lambda>b. eligible b exampleRequest 0 (effectivePrice b)) (sortBids exampleBids)"
proof -
  have get: "BidCache_Get exampleCache 1000000000 (reqPlacementID exampleRequest) =
      (sortBids exampleBids, \<lparr>snapFound = True, snapStale = False, snapRejectStale = False, snapAge = 1000000000\<rparr>)"
    by code_simp
  have "time_Unix 0 = 0" by (simp add: time_Unix_def)
  then show ?thesis
    using run_is_first_eligible [OF get _ _ exampleRequest_valid refl, of examplePolicy 0] by simp
qed

text \<open>
  C40: the snapshot table of the architecture document. A missing snapshot gives \<open>cold_cache\<close> and a
  rejected stale one gives \<open>stale_snapshot\<close>, both without a bid; a missing or stale snapshot starts a
  background refresh of the placement, a fresh one starts nothing; a decision is marked as served
  stale exactly when it was taken on a stale snapshot that is not rejected, and it reports the age of
  the snapshot, zero without one; and no auction changes a snapshot or the cache policy.
\<close>

theorem auction_snapshot_states:
  assumes "BidCache_Get c readAt (reqPlacementID request) = (bids, snapshot)"
    and "Auctioneer_run policy readAt now request dynamic c = (d, c')"
  shows "(\<not> snapFound snapshot \<longrightarrow> decBid d = None \<and> decNoBidReason d = ''cold_cache'')
    \<and> (snapFound snapshot \<and> snapStale snapshot \<and> snapRejectStale snapshot \<longrightarrow>
        decBid d = None \<and> decNoBidReason d = ''stale_snapshot'')
    \<and> (reqPlacementID request \<noteq> [] \<and> (\<not> snapFound snapshot \<or> snapStale snapshot) \<longrightarrow>
        reqPlacementID request \<in> cacheInflight c')
    \<and> (snapFound snapshot \<and> \<not> snapStale snapshot \<longrightarrow> c' = c)
    \<and> decServedStale d = (snapFound snapshot \<and> snapStale snapshot \<and> \<not> snapRejectStale snapshot)
    \<and> decSnapshotAge d = (if snapFound snapshot then snapAge snapshot else 0)
    \<and> cacheEntries c' = cacheEntries c \<and> cachePolicy c' = cachePolicy c"
proof -
  have d: "d = decisionFrom policy (reqFloorMicros request) snapshot (auctionAcc request now dynamic c readAt)"
    using assms run_decision [of policy readAt now request dynamic c] by simp
  have c': "c' = (if \<not> snapFound snapshot \<or> snapStale snapshot
      then BidCache_RefreshAsync (reqPlacementID request) c else c)"
    using assms by (auto simp: Auctioneer_run_def Let_def split: option.splits if_splits)
  show ?thesis
    unfolding d c' by (auto simp: decisionFrom_def emptyDecision_def BidCache_RefreshAsync_def split: option.split)
qed

theorem auction_snapshot_states_witness:
  "''top'' \<in> cacheInflight (snd (Auctioneer_run examplePolicy 0 0 exampleRequest [] (NewBidCache minute)))"
proof -
  have get: "BidCache_Get (NewBidCache minute) 0 (reqPlacementID exampleRequest) = ([], noSnapshot)"
    and p: "reqPlacementID exampleRequest = ''top''" and cold: "\<not> snapFound noSnapshot"
    by code_simp+
  show ?thesis
    using auction_snapshot_states [OF get surjective_pairing [of
        "Auctioneer_run examplePolicy 0 0 exampleRequest [] (NewBidCache minute)"]] p cold
    by simp
qed

end
