(* ===== verification/Go_Strconv.thy ===== *)
theory Go_Strconv
  imports Prelude
begin

text \<open>
  The part of Go's \<open>strconv\<close> that the server uses: \<open>FormatUint\<close> and \<open>FormatInt\<close> (base 10 in Redis
  arguments and cache keys, base 36 in request IDs), \<open>ParseUint\<close>, \<open>ParseInt\<close> and \<open>Atoi\<close> in base
  10 with 64 bits. A parse error (syntax or range) is \<open>None\<close>. Printing is injective in every base
  from 2 to 36 and parsing inverts it.
\<close>

section \<open>Digits\<close>

definition digitChar :: "nat \<Rightarrow> char" where
  "digitChar d = (if d < 10 then char_of (48 + d) else char_of (87 + d))"

definition isDigit :: "char \<Rightarrow> bool" where
  "isDigit c \<longleftrightarrow> 48 \<le> (of_char c :: nat) \<and> (of_char c :: nat) \<le> 57"

definition digitVal :: "char \<Rightarrow> nat" where
  "digitVal c = (if isDigit c then of_char c - 48 else of_char c - 87)"

fun formatBits :: "nat \<Rightarrow> nat \<Rightarrow> string" where
  "formatBits base n =
    (if n < base \<or> base < 2 then [digitChar n]
     else formatBits base (n div base) @ [digitChar (n mod base)])"

declare formatBits.simps [simp del]

definition digitsValue :: "nat \<Rightarrow> string \<Rightarrow> nat" where
  "digitsValue base s = foldl (\<lambda>acc c. acc * base + digitVal c) 0 s"

definition FormatUint :: "uint64 \<Rightarrow> nat \<Rightarrow> string" where
  "FormatUint i base = formatBits base (unat i)"

definition FormatInt :: "int64 \<Rightarrow> string" where
  "FormatInt i =
    (if i <s 0 then CHR ''-'' # formatBits 10 (nat (- sint i)) else formatBits 10 (nat (sint i)))"

definition ParseUint :: "string \<Rightarrow> uint64 option" where
  "ParseUint s =
    (if s = [] \<or> \<not> list_all isDigit s then None
     else let n = digitsValue 10 s in
       if 2 ^ 64 \<le> n then None else Some (of_nat n))"

definition ParseInt :: "string \<Rightarrow> int64 option" where
  "ParseInt s =
    (case s of
       [] \<Rightarrow> None
     | c # rest \<Rightarrow>
         let neg = (c = CHR ''-'');
             digits = (if c = CHR ''+'' \<or> c = CHR ''-'' then rest else s)
         in case ParseUint digits of
              None \<Rightarrow> None
            | Some un \<Rightarrow>
                if \<not> neg \<and> 2 ^ 63 \<le> unat un then None
                else if neg \<and> 2 ^ 63 < unat un then None
                else Some (if neg then - un else un))"

text \<open>\<open>int\<close> has 64 bits, so \<open>Atoi\<close> accepts what \<open>ParseInt(s, 10, 64)\<close> accepts.\<close>

definition Atoi :: "string \<Rightarrow> int64 option" where
  "Atoi s = ParseInt s"

section \<open>Printing is injective and parsing inverts it\<close>

lemma isDigit_digitChar: "d < 10 \<Longrightarrow> isDigit (digitChar d)"
  by (simp add: digitChar_def isDigit_def)

lemma digitVal_digitChar [simp]: "d < 36 \<Longrightarrow> digitVal (digitChar d) = d"
  by (auto simp: digitVal_def digitChar_def isDigit_def)

lemma formatBits_not_Nil [simp]: "formatBits base n \<noteq> []"
  by (subst formatBits.simps) simp

lemma digitsValue_snoc [simp]:
  "digitsValue base (s @ [c]) = digitsValue base s * base + digitVal c"
  by (simp add: digitsValue_def)

lemma digitsValue_single [simp]: "digitsValue base [c] = digitVal c"
  by (simp add: digitsValue_def)

lemma digitsValue_formatBits:
  assumes "2 \<le> base" and "base \<le> 36"
  shows "digitsValue base (formatBits base n) = n"
  using assms
proof (induction base n rule: formatBits.induct)
  case (1 base n)
  show ?case
  proof (cases "n < base")
    case True
    with "1.prems" show ?thesis by (simp add: formatBits.simps [of base n])
  next
    case False
    with 1 have "digitsValue base (formatBits base (n div base)) = n div base" by simp
    moreover have "n mod base < 36" using "1.prems" mod_less_divisor [of base n] by linarith
    ultimately show ?thesis
      using False "1.prems" by (simp add: formatBits.simps [of base n])
  qed
qed

lemma formatBits_inj:
  "2 \<le> base \<Longrightarrow> base \<le> 36 \<Longrightarrow> formatBits base m = formatBits base n \<longleftrightarrow> m = n"
  by (metis digitsValue_formatBits)

lemma formatBits_digits: "list_all isDigit (formatBits 10 n)"
proof (induction n rule: less_induct)
  case (less n)
  show ?case
  proof (cases "n < 10")
    case True
    then show ?thesis by (simp add: formatBits.simps [of 10 n] isDigit_digitChar)
  next
    case False
    with less [of "n div 10"] show ?thesis
      by (simp add: formatBits.simps [of 10 n] isDigit_digitChar)
  qed
qed

lemma FormatUint_inj:
  "2 \<le> base \<Longrightarrow> base \<le> 36 \<Longrightarrow> FormatUint i base = FormatUint j base \<longleftrightarrow> i = j"
  by (simp add: FormatUint_def formatBits_inj word_unat_eq_iff)

lemma ParseUint_FormatUint [simp]: "ParseUint (FormatUint i 10) = Some i"
  using unat_less_2_64 [of i]
  by (simp add: ParseUint_def FormatUint_def formatBits_digits digitsValue_formatBits)

lemma digit_not_sign: "isDigit c \<Longrightarrow> c \<noteq> CHR ''-'' \<and> c \<noteq> CHR ''+''"
  by (auto simp: isDigit_def)

lemma formatBits_Cons:
  obtains c cs where "formatBits 10 n = c # cs" "isDigit c"
  using formatBits_digits [of n] by (cases "formatBits 10 n") auto

lemma FormatInt_inj: "FormatInt i = FormatInt j \<longleftrightarrow> i = j"
proof
  assume eq: "FormatInt i = FormatInt j"
  obtain c cs where c: "formatBits 10 (nat (sint i)) = c # cs" "isDigit c"
    by (rule formatBits_Cons)
  obtain d ds where d: "formatBits 10 (nat (sint j)) = d # ds" "isDigit d"
    by (rule formatBits_Cons)
  have "i <s 0 \<longleftrightarrow> j <s 0"
    using eq c d digit_not_sign by (auto simp: FormatInt_def split: if_splits)
  then have "sint i = sint j"
    using eq by (auto simp: FormatInt_def formatBits_inj i64_simps split: if_splits)
  then show "i = j" by (simp add: eq_iff_sint)
qed simp

lemma ParseInt_FormatInt: "ParseInt (FormatInt i) = Some i"
proof (cases "i <s 0")
  case True
  then have neg: "sint i < 0" by (simp add: i64_simps)
  define n where "n = nat (- sint i)"
  have bound: "n \<le> 2 ^ 63"
    using neg sint_ge_minInt64 [of i] by (simp add: n_def)
  have "ParseUint (formatBits 10 n) = Some (of_nat n)"
    using bound by (simp add: ParseUint_def formatBits_digits digitsValue_formatBits)
  moreover have "unat (of_nat n :: int64) = n"
    using bound by (simp add: unat_of_nat)
  moreover have "- (of_nat n :: int64) = i"
    using neg by (simp add: n_def)
  ultimately show ?thesis
    using True bound by (simp add: ParseInt_def FormatInt_def n_def [symmetric] Let_def)
next
  case False
  then have pos: "0 \<le> sint i" by (simp add: i64_simps)
  define n where "n = nat (sint i)"
  have bound: "n < 2 ^ 63"
    using pos sint_le_maxInt64 [of i] by (simp add: n_def)
  have "ParseUint (formatBits 10 n) = Some (of_nat n)"
    using bound by (simp add: ParseUint_def formatBits_digits digitsValue_formatBits)
  moreover have "unat (of_nat n :: int64) = n"
    using bound by (simp add: unat_of_nat)
  moreover have "(of_nat n :: int64) = i"
    using pos by (simp add: n_def)
  moreover obtain c cs where "formatBits 10 n = c # cs" "isDigit c"
    by (rule formatBits_Cons)
  ultimately show ?thesis
    using False bound digit_not_sign
    by (auto simp: ParseInt_def FormatInt_def n_def [symmetric] Let_def)
qed

end
