(* ===== verification/Go_Text.thy ===== *)
theory Go_Text
  imports Go_Strconv
begin

text \<open>
  The parts of Go's \<open>strings\<close> and \<open>time\<close> that read the environment: \<open>TrimSpace\<close>, \<open>Split\<close>, \<open>SplitN\<close>
  with limit 2, \<open>TrimPrefix\<close> and \<open>ParseDuration\<close>. A string is its list of bytes, so white space
  outside ASCII is its UTF-8 encoding.
\<close>

section \<open>Strings\<close>

definition utf8Spaces :: "string list" where
  "utf8Spaces =
     map (\<lambda>c. [c]) [CHR 0x09, CHR 0x0A, CHR 0x0B, CHR 0x0C, CHR 0x0D, CHR 0x20]
     @ [[CHR 0xC2, CHR 0x85], [CHR 0xC2, CHR 0xA0], [CHR 0xE1, CHR 0x9A, CHR 0x80]]
     @ map (\<lambda>c. [CHR 0xE2, CHR 0x80, c])
         [CHR 0x80, CHR 0x81, CHR 0x82, CHR 0x83, CHR 0x84, CHR 0x85, CHR 0x86, CHR 0x87, CHR 0x88,
          CHR 0x89, CHR 0x8A, CHR 0xA8, CHR 0xA9, CHR 0xAF]
     @ [[CHR 0xE2, CHR 0x81, CHR 0x9F], [CHR 0xE3, CHR 0x80, CHR 0x80]]"

text \<open>Drop one of the given non-empty words from the front as long as one is there.\<close>

function trimWords :: "string list \<Rightarrow> string \<Rightarrow> string" where
  "trimWords ws s =
    (case find (\<lambda>w. w \<noteq> [] \<and> take (length w) s = w) ws of
       None \<Rightarrow> s
     | Some w \<Rightarrow> trimWords ws (drop (length w) s))"
  by pat_completeness auto

lemma find_word:
  "find (\<lambda>w. w \<noteq> [] \<and> take (length w) s = w) ws = Some w \<Longrightarrow> w \<noteq> [] \<and> take (length w) s = w"
  by (auto simp: find_Some_iff)

termination trimWords
proof (relation "measure (\<lambda>(ws, s). length s)")
  fix ws s w
  assume "find (\<lambda>w. w \<noteq> [] \<and> take (length w) s = w) ws = Some w"
  then have w: "w \<noteq> []" "take (length w) s = w" using find_word by blast+
  then have "s \<noteq> []" by auto
  with w show "((ws, drop (length w) s), (ws, s)) \<in> measure (\<lambda>(ws, s). length s)" by simp
qed simp

declare trimWords.simps [simp del]

definition TrimSpace :: "string \<Rightarrow> string" where
  "TrimSpace s = rev (trimWords (map rev utf8Spaces) (rev (trimWords utf8Spaces s)))"

fun Split :: "char \<Rightarrow> string \<Rightarrow> string list" where
  "Split sep [] = [[]]"
| "Split sep (c # s) =
    (if c = sep then [] # Split sep s
     else case Split sep s of [] \<Rightarrow> [[c]] | part # parts \<Rightarrow> (c # part) # parts)"

text \<open>\<open>strings.SplitN(s, sep, 2)\<close>.\<close>

definition SplitN2 :: "char \<Rightarrow> string \<Rightarrow> string list" where
  "SplitN2 sep s =
    (case dropWhile (\<lambda>c. c \<noteq> sep) s of
       [] \<Rightarrow> [s]
     | _ # rest \<Rightarrow> [takeWhile (\<lambda>c. c \<noteq> sep) s, rest])"

definition TrimPrefix :: "string \<Rightarrow> string \<Rightarrow> string" where
  "TrimPrefix s pre = (if take (length pre) s = pre then drop (length pre) s else s)"

section \<open>Doubles\<close>

text \<open>
  \<open>ParseDuration\<close> computes a fraction in floating point. A positive double is \<open>(m, e)\<close> for
  \<open>m * 2 ^ e\<close>; \<open>roundDouble n d\<close> is the double nearest to \<open>n / d\<close>, ties to even. All values here are
  far from the subnormal and overflow ranges.
\<close>

function normUp :: "nat \<Rightarrow> nat \<Rightarrow> int \<Rightarrow> nat \<times> int" where
  "normUp n d e = (if n = 0 \<or> d * 2 ^ 52 \<le> n then (n, e) else normUp (2 * n) d (e - 1))"
  by pat_completeness auto
termination by (relation "measure (\<lambda>(n, d, e). d * 2 ^ 52 - n)") auto

function normDown :: "nat \<Rightarrow> nat \<Rightarrow> int \<Rightarrow> nat \<times> int" where
  "normDown n d e = (if d = 0 \<or> n < d * 2 ^ 53 then (d, e) else normDown n (2 * d) (e + 1))"
  by pat_completeness auto
termination by (relation "measure (\<lambda>(n, d, e). n - d)") auto

declare normUp.simps [simp del] normDown.simps [simp del]

definition roundDouble :: "nat \<Rightarrow> nat \<Rightarrow> nat \<times> int" where
  "roundDouble n0 d0 =
    (let (n, e0) = normUp n0 d0 0; (d, e) = normDown n d0 e0;
         q = n div d; r = n mod d
     in (if d < 2 * r \<or> (2 * r = d \<and> odd q) then q + 1 else q, e))"

definition mulDouble :: "nat \<times> int \<Rightarrow> nat \<times> int \<Rightarrow> nat \<times> int" where
  "mulDouble x y = (let (m, e) = roundDouble (fst x * fst y) 1 in (m, e + snd x + snd y))"

definition truncDouble :: "nat \<times> int \<Rightarrow> nat" where
  "truncDouble x = (if 0 \<le> snd x then fst x * 2 ^ nat (snd x) else fst x div 2 ^ nat (- snd x))"

section \<open>Durations\<close>

fun leadingInt :: "nat \<Rightarrow> string \<Rightarrow> (nat \<times> string) option" where
  "leadingInt x [] = Some (x, [])"
| "leadingInt x (c # s) =
    (if \<not> isDigit c then Some (x, c # s)
     else if 2 ^ 63 div 10 < x then None
     else let y = x * 10 + digitVal c in if 2 ^ 63 < y then None else leadingInt y s)"

text \<open>The fraction's digits as an integer, and the number of digits that count.\<close>

fun leadingFraction :: "nat \<Rightarrow> nat \<Rightarrow> bool \<Rightarrow> string \<Rightarrow> nat \<times> nat \<times> string" where
  "leadingFraction x digits overflow [] = (x, digits, [])"
| "leadingFraction x digits overflow (c # s) =
    (if \<not> isDigit c then (x, digits, c # s)
     else if overflow \<or> (2 ^ 63 - 1) div 10 < x then leadingFraction x digits True s
     else let y = x * 10 + digitVal c in
       if 2 ^ 63 < y then leadingFraction x digits True s
       else leadingFraction y (digits + 1) False s)"

definition unitMap :: "string \<Rightarrow> nat option" where
  "unitMap u =
    (if u = ''ns'' then Some 1
     else if u = ''us'' \<or> u = [CHR 0xC2, CHR 0xB5, CHR ''s''] \<or> u = [CHR 0xCE, CHR 0xBC, CHR ''s'']
     then Some 1000
     else if u = ''ms'' then Some 1000000
     else if u = ''s'' then Some 1000000000
     else if u = ''m'' then Some 60000000000
     else if u = ''h'' then Some 3600000000000
     else None)"

definition unitChar :: "char \<Rightarrow> bool" where
  "unitChar c \<longleftrightarrow> c \<noteq> CHR ''.'' \<and> \<not> isDigit c"

text \<open>One number with its unit: the value in nanoseconds and the rest, or \<open>None\<close> for an error.\<close>

definition parseSegment :: "string \<Rightarrow> (nat \<times> string) option" where
  "parseSegment s =
    (if s = [] \<or> unitChar (hd s) then None
     else
       case leadingInt 0 s of
         None \<Rightarrow> None
       | Some (v, s1) \<Rightarrow>
           let pre = (length s1 \<noteq> length s);
               dot = (s1 \<noteq> [] \<and> hd s1 = CHR ''.'');
               (f, digits, s2) = (if dot then leadingFraction 0 0 False (tl s1) else (0, 0, s1));
               post = (dot \<and> length s2 \<noteq> length (tl s1));
               u = takeWhile unitChar s2
           in if \<not> pre \<and> \<not> post then None
              else if u = [] then None
              else
                case unitMap u of
                  None \<Rightarrow> None
                | Some unit \<Rightarrow>
                    if 2 ^ 63 div unit < v then None
                    else
                      let v1 = v * unit;
                          v2 = (if 0 < f
                                then v1 + truncDouble (mulDouble (roundDouble f 1) (roundDouble unit (10 ^ digits)))
                                else v1)
                      in if 0 < f \<and> 2 ^ 63 < v2 then None else Some (v2, dropWhile unitChar s2))"

lemma leadingInt_length: "leadingInt x s = Some (v, r) \<Longrightarrow> length r \<le> length s"
  by (induction x s rule: leadingInt.induct) (auto simp: Let_def split: if_splits)

lemma leadingFraction_length: "leadingFraction x d ov s = (f, k, r) \<Longrightarrow> length r \<le> length s"
  by (induction x d ov s rule: leadingFraction.induct) (auto simp: Let_def split: if_splits)

lemma dropWhile_shorter: "takeWhile P xs \<noteq> [] \<Longrightarrow> length (dropWhile P xs) < length xs"
  by (cases xs) (auto simp: le_imp_less_Suc length_dropWhile_le split: if_splits)

lemma parseSegment_shorter:
  assumes "parseSegment s = Some (v, r)"
  shows "length r < length s"
proof -
  obtain v0 s1 where int: "leadingInt 0 s = Some (v0, s1)"
    using assms by (auto simp: parseSegment_def split: if_splits option.splits)
  define dot where "dot = (s1 \<noteq> [] \<and> hd s1 = CHR ''.'')"
  obtain f k s2 where frac: "(if dot then leadingFraction 0 0 False (tl s1) else (0, 0, s1)) = (f, k, s2)"
    by (metis prod_cases3)
  have "takeWhile unitChar s2 \<noteq> []" and "r = dropWhile unitChar s2"
    using assms int frac unfolding parseSegment_def dot_def
    by (auto simp: Let_def split: if_splits option.splits)
  then have "length r < length s2" by (simp add: dropWhile_shorter)
  also have "length s2 \<le> length s1"
    using frac leadingFraction_length [of 0 0 False "tl s1"] by (fastforce split: if_splits)
  also have "\<dots> \<le> length s" using int by (rule leadingInt_length)
  finally show ?thesis .
qed

text \<open>The sum is a \<open>uint64\<close>: two segments of \<open>2 ^ 63\<close> wrap before the comparison.\<close>

function parseSegments :: "nat \<Rightarrow> string \<Rightarrow> nat option" where
  "parseSegments d s =
    (if s = [] then Some d
     else case parseSegment s of
       None \<Rightarrow> None
     | Some (v, r) \<Rightarrow>
         let d1 = (d + v) mod 2 ^ 64 in if 2 ^ 63 < d1 then None else parseSegments d1 r)"
  by pat_completeness auto
termination
  by (relation "measure (\<lambda>(d, s). length s)") (auto simp: parseSegment_shorter)

declare parseSegments.simps [simp del]

definition ParseDuration :: "string \<Rightarrow> duration option" where
  "ParseDuration s0 =
    (let neg = (s0 \<noteq> [] \<and> hd s0 = CHR ''-'');
         s = (if s0 \<noteq> [] \<and> (hd s0 = CHR ''-'' \<or> hd s0 = CHR ''+'') then tl s0 else s0)
     in if s = ''0'' then Some 0
        else if s = [] then None
        else
          case parseSegments 0 s of
            None \<Rightarrow> None
          | Some d \<Rightarrow>
              if neg then Some (- of_nat d)
              else if 2 ^ 63 - 1 < d then None else Some (of_nat d))"

end
