(* ===== verification/Dynamic_Cache.thy ===== *)
theory Dynamic_Cache
  imports Bid_Types Go_Strconv
begin

text \<open>
  The expiring cache of DSP results and its keys, from \<open>internal/ads/dynamic_bidding.go\<close>:
  \<open>DynamicBidCache\<close> with \<open>Get\<close> and \<open>Put\<close>, and \<open>dynamicCacheKey\<close>. \<open>Put\<close> runs under a mutex, so it is one
  step; the order in which \<open>sync.Map.Range\<close> visits the keys is a parameter, and so are the clock
  readings.
\<close>

section \<open>Definitions\<close>

record BidderEngineConfig =
  engMaxFanout :: int64
  engMaxConcurrentRefreshes :: int64
  engCacheTTL :: duration
  engFailureTTL :: duration
  engMaxKeys :: int64

datatype engine_config_error = ErrFanoutLimit | ErrDSPCacheConfig

definition BidderEngineConfig_Validate :: "BidderEngineConfig \<Rightarrow> engine_config_error option" where
  "BidderEngineConfig_Validate c =
    (if engMaxFanout c <s 1 \<or> 64 <s engMaxFanout c \<or> engMaxConcurrentRefreshes c <s 1
        \<or> 4096 <s engMaxConcurrentRefreshes c
     then Some ErrFanoutLimit
     else if engMaxKeys c <s 1 \<or> 1000000 <s engMaxKeys c \<or> engCacheTTL c \<le>s 0
        \<or> 10 * minute <s engCacheTTL c \<or> engFailureTTL c \<le>s 0 \<or> minute <s engFailureTTL c
     then Some ErrDSPCacheConfig
     else None)"

definition DefaultBidderEngineConfig :: BidderEngineConfig where
  "DefaultBidderEngineConfig =
    \<lparr>engMaxFanout = 3, engMaxConcurrentRefreshes = 128, engCacheTTL = 2 * second,
     engFailureTTL = 250 * millisecond, engMaxKeys = 10000\<rparr>"

record dynamicBidList =
  dlBids :: "DynamicBid list"
  dlExpiresNS :: int64

record DynamicBidCache =
  dcEntries :: "string \<rightharpoonup> dynamicBidList"
  dcCount :: int64
  dcMaxKeys :: int64

definition NewDynamicBidCache :: "int64 \<Rightarrow> DynamicBidCache" where
  "NewDynamicBidCache maxKeys =
    \<lparr>dcEntries = Map.empty, dcCount = 0,
     dcMaxKeys = (if maxKeys <s 1 then engMaxKeys DefaultBidderEngineConfig else maxKeys)\<rparr>"

definition DynamicBidCache_Get :: "DynamicBidCache \<Rightarrow> time \<Rightarrow> string \<Rightarrow> DynamicBid list option" where
  "DynamicBidCache_Get c now k =
    (case dcEntries c k of
       None \<Rightarrow> None
     | Some l \<Rightarrow> if dlExpiresNS l \<le>s time_UnixNano now then None else Some (dlBids l))"

text \<open>
  The \<open>Range\<close> callback over the keys in \<open>order\<close>: it removes expired entries until there is room.
\<close>

fun evictExpired :: "int64 \<Rightarrow> string list \<Rightarrow> DynamicBidCache \<Rightarrow> DynamicBidCache" where
  "evictExpired now [] c = c"
| "evictExpired now (k # order) c =
    (case dcEntries c k of
       None \<Rightarrow> evictExpired now order c
     | Some l \<Rightarrow>
         let c1 = (if dlExpiresNS l \<le>s now
                   then c\<lparr>dcEntries := (dcEntries c)(k := None), dcCount := dcCount c - 1\<rparr> else c)
         in if dcMaxKeys c1 \<le>s dcCount c1 then evictExpired now order c1 else c1)"

text \<open>\<open>now1\<close> is read for the expiry of the new entry, \<open>now2\<close> when the cache is full.\<close>

definition DynamicBidCache_Put ::
    "string list \<Rightarrow> time \<Rightarrow> time \<Rightarrow> string \<Rightarrow> DynamicBid list \<Rightarrow> duration \<Rightarrow> DynamicBidCache
       \<Rightarrow> bool \<times> DynamicBidCache" where
  "DynamicBidCache_Put order now1 now2 k bids ttl c =
    (if ttl \<le>s 0 then (False, c)
     else
       let l = \<lparr>dlBids = bids, dlExpiresNS = time_UnixNano (time_Add now1 ttl)\<rparr> in
       if dcEntries c k \<noteq> None
       then (True, c\<lparr>dcEntries := (dcEntries c)(k \<mapsto> l)\<rparr>)
       else
         let c1 = (if dcMaxKeys c \<le>s dcCount c
                   then evictExpired (time_UnixNano now2) order c else c) in
         if dcMaxKeys c1 \<le>s dcCount c1 then (False, c1)
         else (True, c1\<lparr>dcEntries := (dcEntries c1)(k \<mapsto> l), dcCount := dcCount c1 + 1\<rparr>))"

text \<open>The unit separator \<open>"\x1f"\<close>.\<close>

definition unitSeparator :: char where
  "unitSeparator = CHR 0x1F"

definition dynamicCacheKey :: "AuctionRequest \<Rightarrow> string" where
  "dynamicCacheKey request =
     reqPlacementID request @ [unitSeparator] @ reqCountry request @ [unitSeparator]
     @ reqDevice request @ [unitSeparator] @ FormatInt (reqFloorMicros request)"

section \<open>The counter is the number of entries\<close>

definition cacheBounded :: "DynamicBidCache \<Rightarrow> bool" where
  "cacheBounded c \<longleftrightarrow>
     finite (dom (dcEntries c)) \<and> int (card (dom (dcEntries c))) = sint (dcCount c)
     \<and> sint (dcCount c) \<le> sint (dcMaxKeys c) \<and> 1 \<le> sint (dcMaxKeys c)"

lemma New_cacheBounded [simp]: "cacheBounded (NewDynamicBidCache maxKeys)"
  by (auto simp: cacheBounded_def NewDynamicBidCache_def DefaultBidderEngineConfig_def i64_simps)

lemma sint_decrement: "0 < sint (a :: int64) \<Longrightarrow> sint (a - 1) = sint a - 1"
  using sint_add_64 [of a "-1"] sint_le_maxInt64 [of a] by simp

lemma sint_increment: "sint (a :: int64) < sint (b :: int64) \<Longrightarrow> sint (a + 1) = sint a + 1"
  using sint_add_64 [of a 1] sint_le_maxInt64 [of b] sint_ge_minInt64 [of a] by simp

lemma remove_cacheBounded:
  assumes "cacheBounded c" and "dcEntries c k = Some l"
  shows "cacheBounded (c\<lparr>dcEntries := (dcEntries c)(k := None), dcCount := dcCount c - 1\<rparr>)"
proof -
  have k: "k \<in> dom (dcEntries c)" and fin: "finite (dom (dcEntries c))"
    using assms by (auto simp: cacheBounded_def)
  then have "0 < card (dom (dcEntries c))" by (auto simp: card_gt_0_iff)
  then have "0 < sint (dcCount c)" using assms(1) by (simp add: cacheBounded_def)
  with assms(1) k fin \<open>0 < card (dom (dcEntries c))\<close> show ?thesis
    by (simp add: cacheBounded_def sint_decrement card_Diff_singleton of_nat_diff)
qed

lemma evictExpired_cacheBounded:
  "cacheBounded c \<Longrightarrow> cacheBounded (evictExpired now order c)"
  by (induction order arbitrary: c) (simp_all add: remove_cacheBounded Let_def split: option.split)

lemma evictExpired_maxKeys [simp]: "dcMaxKeys (evictExpired now order c) = dcMaxKeys c"
  by (induction order arbitrary: c) (simp_all add: Let_def split: option.split)

lemma evictExpired_entries:
  "dcEntries (evictExpired now order c) k = dcEntries c k
   \<or> (dcEntries (evictExpired now order c) k = None
      \<and> (\<exists>l. dcEntries c k = Some l \<and> dlExpiresNS l \<le>s now))"
proof (induction order arbitrary: c)
  case (Cons j order)
  let ?removed = "c\<lparr>dcEntries := (dcEntries c)(j := None), dcCount := dcCount c - 1\<rparr>"
  from Cons.IH [of c] Cons.IH [of ?removed] show ?case
    by (auto simp: Let_def split: option.split if_splits)
qed simp

lemma insert_cacheBounded:
  assumes "cacheBounded c" and "dcEntries c k = None" and "sint (dcCount c) < sint (dcMaxKeys c)"
  shows "cacheBounded (c\<lparr>dcEntries := (dcEntries c)(k \<mapsto> l), dcCount := dcCount c + 1\<rparr>)"
  using assms sint_increment [OF assms(3)]
  by (auto simp: cacheBounded_def domIff card_insert_if)

lemma Put_cacheBounded:
  assumes "cacheBounded c"
  shows "cacheBounded (snd (DynamicBidCache_Put order now1 now2 k bids ttl c))"
proof -
  have "dcEntries c k \<noteq> None \<Longrightarrow> cacheBounded (c\<lparr>dcEntries := (dcEntries c)(k \<mapsto> l)\<rparr>)" for l
    using assms by (auto simp: cacheBounded_def insert_absorb domIff)
  moreover have "dcEntries c k = None \<Longrightarrow> dcEntries (evictExpired now order c) k = None" for now
    using evictExpired_entries [of now order c k] by auto
  ultimately show ?thesis
    using assms evictExpired_cacheBounded [OF assms]
    by (auto simp: DynamicBidCache_Put_def Let_def i64_simps intro!: insert_cacheBounded)
qed

lemma Put_maxKeys [simp]:
  "dcMaxKeys (snd (DynamicBidCache_Put order now1 now2 k bids ttl c)) = dcMaxKeys c"
  by (simp add: DynamicBidCache_Put_def Let_def)

section \<open>Room for a new key\<close>

text \<open>If every visited key is unexpired nothing was removed, else there is room afterwards.\<close>

lemma evictExpired_makes_room:
  assumes "cacheBounded c" and "dcCount c = dcMaxKeys c"
    and "j \<in> set order" and "dcEntries c j = Some l" and "dlExpiresNS l \<le>s now"
  shows "sint (dcCount (evictExpired now order c)) < sint (dcMaxKeys c)"
  using assms
proof (induction order)
  case (Cons i order)
  have drop: "sint (dcCount c - 1) < sint (dcMaxKeys c)"
    using Cons.prems(1,2) by (simp add: cacheBounded_def sint_decrement)
  show ?case
  proof (cases "\<exists>m. dcEntries c i = Some m \<and> dlExpiresNS m \<le>s now")
    case True
    with drop show ?thesis by (auto simp: Let_def i64_simps)
  next
    case False
    with Cons.prems have "i \<noteq> j" by auto
    with False Cons show ?thesis by (auto simp: Let_def split: option.split)
  qed
qed simp

section \<open>Keys\<close>

lemma append_separator_eq:
  assumes "c \<notin> set xs" and "c \<notin> set ys"
  shows "xs @ c # us = ys @ c # vs \<longleftrightarrow> xs = ys \<and> us = vs"
  using assms
proof (induction xs arbitrary: ys)
  case Nil
  then show ?case by (cases ys) auto
next
  case (Cons x xs)
  then show ?case by (cases ys) auto
qed

definition cleanRequest :: "AuctionRequest \<Rightarrow> bool" where
  "cleanRequest r \<longleftrightarrow> unitSeparator \<notin> set (reqPlacementID r) \<and> unitSeparator \<notin> set (reqCountry r)
     \<and> unitSeparator \<notin> set (reqDevice r)"

lemma dynamicCacheKey_eq:
  assumes "cleanRequest r" and "cleanRequest q"
  shows "dynamicCacheKey r = dynamicCacheKey q \<longleftrightarrow>
    reqPlacementID r = reqPlacementID q \<and> reqCountry r = reqCountry q \<and> reqDevice r = reqDevice q
    \<and> reqFloorMicros r = reqFloorMicros q"
  using assms
  by (simp add: dynamicCacheKey_def cleanRequest_def append_separator_eq FormatInt_inj)

section \<open>Properties\<close>

text \<open>A sequence of calls to \<open>Put\<close>, in the order in which they obtain the mutex.\<close>

fun putAll ::
    "(string list \<times> time \<times> time \<times> string \<times> DynamicBid list \<times> duration) list
       \<Rightarrow> DynamicBidCache \<Rightarrow> DynamicBidCache" where
  "putAll [] c = c"
| "putAll ((order, now1, now2, k, bids, ttl) # puts) c =
    putAll puts (snd (DynamicBidCache_Put order now1 now2 k bids ttl c))"

lemma putAll_cacheBounded: "cacheBounded c \<Longrightarrow> cacheBounded (putAll puts c)"
  by (induction puts c rule: putAll.induct) (simp_all add: Put_cacheBounded)

lemma putAll_maxKeys: "dcMaxKeys (putAll puts c) = dcMaxKeys c"
  by (induction puts c rule: putAll.induct) simp_all

text \<open>
  C25: the cache of DSP results is bounded. After every sequence of \<open>Put\<close> calls, with every order of
  the range over the map, the counter is the number of stored keys and does not exceed the limit.
\<close>

theorem dynamic_cache_bounded:
  "int (card (dom (dcEntries (putAll puts (NewDynamicBidCache maxKeys)))))
      = sint (dcCount (putAll puts (NewDynamicBidCache maxKeys)))
    \<and> int (card (dom (dcEntries (putAll puts (NewDynamicBidCache maxKeys)))))
      \<le> (if 1 \<le> sint maxKeys then sint maxKeys else 10000)"
  using putAll_cacheBounded [OF New_cacheBounded, of puts maxKeys]
    putAll_maxKeys [of puts "NewDynamicBidCache maxKeys"]
  by (auto simp: cacheBounded_def NewDynamicBidCache_def DefaultBidderEngineConfig_def i64_simps)

text \<open>
  C13: \<open>Put\<close> and \<open>Get\<close> form an expiring map. After a successful \<open>Put\<close> the key reads back the stored bids
  until \<open>now + ttl\<close> and nothing from then on; every other key, and every key after a refused \<open>Put\<close>,
  reads as before.
\<close>

theorem dynamic_cache_put_get:
  assumes "DynamicBidCache_Put order now1 now2 k bids ttl c = (ok, c')"
    and "nanoRange (now1 + sint ttl)" and "nanoRange now2" and "nanoRange t" and "now2 \<le> t"
  shows "DynamicBidCache_Get c' t k' =
    (if ok \<and> k' = k then (if t < now1 + sint ttl then Some bids else None)
     else DynamicBidCache_Get c t k')"
proof -
  let ?e = "evictExpired (time_UnixNano now2) order c"
  have time: "sint (time_UnixNano (time_Add now1 ttl)) = now1 + sint ttl"
    "sint (time_UnixNano now2) = now2" "sint (time_UnixNano t) = t"
    using assms(2-4) by (simp_all add: i64_simps time_Add_def)
  have evict: "DynamicBidCache_Get ?e t k' = DynamicBidCache_Get c t k'"
    using evictExpired_entries [of "time_UnixNano now2" order c k']
  proof (elim disjE)
    assume "dcEntries ?e k' = dcEntries c k'"
    then show ?thesis by (simp add: DynamicBidCache_Get_def)
  next
    assume "dcEntries ?e k' = None
      \<and> (\<exists>l. dcEntries c k' = Some l \<and> dlExpiresNS l \<le>s time_UnixNano now2)"
    with assms(5) show ?thesis by (auto simp: DynamicBidCache_Get_def i64_simps time)
  qed
  show ?thesis
    using assms(1) evict
    by (auto simp: DynamicBidCache_Put_def DynamicBidCache_Get_def Let_def i64_simps time
        split: if_splits)
qed

theorem dynamic_cache_put_get_witness:
  "DynamicBidCache_Get (snd (DynamicBidCache_Put [] 5 5 ''k'' [] 10 (NewDynamicBidCache 1))) 14 ''k'' = Some []"
proof -
  have "DynamicBidCache_Put [] 5 5 ''k'' [] 10 (NewDynamicBidCache 1) =
      (True, snd (DynamicBidCache_Put [] 5 5 ''k'' [] 10 (NewDynamicBidCache 1)))"
    by (simp add: DynamicBidCache_Put_def NewDynamicBidCache_def i64_simps Let_def)
  from dynamic_cache_put_get [OF this, of 14 "''k''"] show ?thesis by (simp add: nanoRange_def)
qed

text \<open>
  \<open>Put\<close> refuses a positive lifetime only when it has to. When the range visits every key and \<open>Put\<close>
  returns false, the key is new, the cache is full and none of its entries has expired.
\<close>

theorem dynamic_cache_refuses_only_when_full:
  assumes "cacheBounded c" and "DynamicBidCache_Put order now1 now2 k bids ttl c = (False, c')"
    and "0 <s ttl" and "dom (dcEntries c) \<subseteq> set order" and "nanoRange now2"
  shows "dcEntries c k = None \<and> int (card (dom (dcEntries c))) = sint (dcMaxKeys c)
    \<and> (\<forall>j l. dcEntries c j = Some l \<longrightarrow> now2 < sint (dlExpiresNS l))"
proof -
  let ?e = "evictExpired (time_UnixNano now2) order c"
  have k: "dcEntries c k = None"
    and full: "dcMaxKeys c \<le>s dcCount c" "dcMaxKeys ?e \<le>s dcCount ?e"
    using assms(2,3) by (auto simp: DynamicBidCache_Put_def Let_def i64_simps split: if_splits)
  then have eq: "sint (dcCount c) = sint (dcMaxKeys c)"
    using assms(1) by (simp add: cacheBounded_def i64_simps)
  have "\<not> dlExpiresNS l \<le>s time_UnixNano now2" if "dcEntries c j = Some l" for j l
    using evictExpired_makes_room [OF assms(1) _ _ that, of order "time_UnixNano now2"] eq full(2) that
      assms(4) by (auto simp: eq_iff_sint i64_simps)
  with k eq assms(1,5) show ?thesis by (auto simp: cacheBounded_def i64_simps not_le)
qed

theorem dynamic_cache_refuses_only_when_full_witness:
  "dcEntries (putAll [([], 0, 0, ''a'', [], 10)] (NewDynamicBidCache 1)) ''b'' = None
    \<and> int (card (dom (dcEntries (putAll [([], 0, 0, ''a'', [], 10)] (NewDynamicBidCache 1))))) = 1"
proof -
  let ?c = "putAll [([], 0, 0, ''a'', [], 10)] (NewDynamicBidCache 1)"
  have bounded: "cacheBounded ?c" by (rule putAll_cacheBounded) simp
  have c: "?c = \<lparr>dcEntries = [''a'' \<mapsto> \<lparr>dlBids = [], dlExpiresNS = 10\<rparr>], dcCount = 1, dcMaxKeys = 1\<rparr>"
    by (simp add: DynamicBidCache_Put_def NewDynamicBidCache_def i64_simps time_UnixNano_def time_Add_def)
  have "DynamicBidCache_Put [''a''] 3 3 ''b'' [] 10 ?c = (False, ?c)" "dom (dcEntries ?c) \<subseteq> set [''a'']"
    unfolding c by (simp_all add: DynamicBidCache_Put_def i64_simps time_UnixNano_def)
  from dynamic_cache_refuses_only_when_full [OF bounded this(1) _ this(2)] show ?thesis
    unfolding c by (simp add: nanoRange_def i64_simps)
qed

text \<open>
  The cache key separates requests. For requests whose placement, country and device contain no
  unit separator, two keys are equal exactly when placement, country, device and floor are.
\<close>

theorem dynamic_key_injective:
  assumes "cleanRequest r" and "cleanRequest q"
  shows "dynamicCacheKey r = dynamicCacheKey q \<longleftrightarrow>
    reqPlacementID r = reqPlacementID q \<and> reqCountry r = reqCountry q \<and> reqDevice r = reqDevice q
    \<and> reqFloorMicros r = reqFloorMicros q"
  using assms by (rule dynamicCacheKey_eq)

definition plainRequest :: "string \<Rightarrow> string \<Rightarrow> AuctionRequest" where
  "plainRequest placement country =
    \<lparr>reqPlacementID = placement, reqUserID = [], reqCountry = country, reqDevice = ''ios'',
     reqFloorMicros = 0\<rparr>"

theorem dynamic_key_injective_witness:
  "dynamicCacheKey (plainRequest ''p'' ''US'') \<noteq> dynamicCacheKey (plainRequest ''p'' ''DE'')"
  using dynamic_key_injective [of "plainRequest ''p'' ''US''" "plainRequest ''p'' ''DE''"]
  by (simp add: cleanRequest_def plainRequest_def unitSeparator_def)

text \<open>
  A unit separator inside a field defeats the separation: these two requests pass validation,
  address different placements and share one cache entry.
\<close>

theorem dynamic_key_collision:
  "\<exists>r q. AuctionRequest_Validate r \<and> AuctionRequest_Validate q
    \<and> reqPlacementID r \<noteq> reqPlacementID q \<and> dynamicCacheKey r = dynamicCacheKey q"
proof (intro exI conjI)
  let ?r = "plainRequest ''p'' (''US'' @ [unitSeparator] @ ''x'')\<lparr>reqDevice := ''ios''\<rparr>"
  let ?q = "plainRequest (''p'' @ [unitSeparator] @ ''US'') ''x''\<lparr>reqDevice := ''ios''\<rparr>"
  show "AuctionRequest_Validate ?r" "AuctionRequest_Validate ?q"
    by (simp_all add: AuctionRequest_Validate_def plainRequest_def i64_simps)
  show "reqPlacementID ?r \<noteq> reqPlacementID ?q" by (simp add: plainRequest_def)
  show "dynamicCacheKey ?r = dynamicCacheKey ?q"
    by (simp add: dynamicCacheKey_def plainRequest_def)
qed

end
