(* ===== verification/Circuit_Breaker.thy ===== *)
theory Circuit_Breaker
  imports Prelude
begin

text \<open>
  \<open>circuitBreaker\<close> of \<open>internal/ads/dynamic_bidding.go\<close>. Each method holds the mutex for its whole
  body, so an execution is a sequence of calls; \<open>runBreaker\<close> folds one. \<open>breakerSpec\<close> is the contract
  the calls implement, stated over the history: how many failures there were since the last
  success, when the last one was, and whether a probe is outstanding.
\<close>

section \<open>Definitions\<close>

record circuitBreaker =
  cbFailures :: int64
  cbOpenUntil :: time
  cbProbeInFlight :: bool
  cbThreshold :: int64
  cbOpenFor :: duration

definition newCircuitBreaker :: "int64 \<Rightarrow> duration \<Rightarrow> circuitBreaker" where
  "newCircuitBreaker threshold openFor =
    \<lparr>cbFailures = 0, cbOpenUntil = zeroTime, cbProbeInFlight = False,
     cbThreshold = (if threshold <s 1 then 3 else threshold),
     cbOpenFor = (if openFor \<le>s 0 then 5 * second else openFor)\<rparr>"

definition circuitBreaker_Allow :: "time \<Rightarrow> circuitBreaker \<Rightarrow> bool \<times> circuitBreaker" where
  "circuitBreaker_Allow now c =
    (if time_IsZero (cbOpenUntil c) then (True, c)
     else if time_Before now (cbOpenUntil c) then (False, c)
     else if cbProbeInFlight c then (False, c)
     else (True, c\<lparr>cbProbeInFlight := True\<rparr>))"

definition circuitBreaker_Success :: "circuitBreaker \<Rightarrow> circuitBreaker" where
  "circuitBreaker_Success c = c\<lparr>cbFailures := 0, cbOpenUntil := zeroTime, cbProbeInFlight := False\<rparr>"

definition circuitBreaker_Failure :: "time \<Rightarrow> circuitBreaker \<Rightarrow> circuitBreaker" where
  "circuitBreaker_Failure now c =
    (let c1 = c\<lparr>cbProbeInFlight := False, cbFailures := cbFailures c + 1\<rparr> in
     if cbThreshold c1 \<le>s cbFailures c1
     then c1\<lparr>cbOpenUntil := time_Add now (cbOpenFor c1)\<rparr> else c1)"

section \<open>Executions\<close>

datatype breakerCall = CAllow time | CSuccess | CFailure time

fun breakerStep :: "breakerCall \<Rightarrow> circuitBreaker \<Rightarrow> circuitBreaker" where
  "breakerStep (CAllow now) c = snd (circuitBreaker_Allow now c)"
| "breakerStep CSuccess c = circuitBreaker_Success c"
| "breakerStep (CFailure now) c = circuitBreaker_Failure now c"

definition runBreaker :: "breakerCall list \<Rightarrow> circuitBreaker \<Rightarrow> circuitBreaker" where
  "runBreaker calls c = fold breakerStep calls c"

lemma runBreaker_Nil [simp]: "runBreaker [] c = c"
  by (simp add: runBreaker_def)

lemma runBreaker_snoc [simp]: "runBreaker (calls @ [x]) c = breakerStep x (runBreaker calls c)"
  by (simp add: runBreaker_def)

lemma breakerStep_config [simp]:
  "cbThreshold (breakerStep x c) = cbThreshold c" "cbOpenFor (breakerStep x c) = cbOpenFor c"
  by (cases x; simp add: circuitBreaker_Allow_def circuitBreaker_Success_def
      circuitBreaker_Failure_def Let_def)+

lemma runBreaker_config [simp]:
  "cbThreshold (runBreaker calls c) = cbThreshold c" "cbOpenFor (runBreaker calls c) = cbOpenFor c"
  by (induction calls rule: rev_induct) simp_all

section \<open>The contract over the history\<close>

text \<open>The history is read from its end: \<open>failuresSince\<close> counts back to the last success.\<close>

fun failuresSince :: "breakerCall list \<Rightarrow> nat" where
  "failuresSince [] = 0"
| "failuresSince (CFailure now # past) = Suc (failuresSince past)"
| "failuresSince (CSuccess # past) = 0"
| "failuresSince (CAllow now # past) = failuresSince past"

fun lastFailure :: "breakerCall list \<Rightarrow> time option" where
  "lastFailure [] = None"
| "lastFailure (CFailure now # past) = Some now"
| "lastFailure (CSuccess # past) = None"
| "lastFailure (CAllow now # past) = lastFailure past"

definition openSpec :: "int \<Rightarrow> int \<Rightarrow> breakerCall list \<Rightarrow> time option" where
  "openSpec threshold openFor past =
    (if threshold \<le> int (failuresSince past)
     then map_option (\<lambda>now. now + openFor) (lastFailure past) else None)"

text \<open>A probe is outstanding when, since the last result, a call was admitted to an open circuit.\<close>

fun probeSpec :: "int \<Rightarrow> int \<Rightarrow> breakerCall list \<Rightarrow> bool" where
  "probeSpec threshold openFor [] = False"
| "probeSpec threshold openFor (CFailure now # past) = False"
| "probeSpec threshold openFor (CSuccess # past) = False"
| "probeSpec threshold openFor (CAllow now # past) =
    (probeSpec threshold openFor past
     \<or> (case openSpec threshold openFor past of None \<Rightarrow> False | Some until \<Rightarrow> until \<le> now))"

definition allowSpec :: "int \<Rightarrow> int \<Rightarrow> breakerCall list \<Rightarrow> time \<Rightarrow> bool" where
  "allowSpec threshold openFor past now =
    (case openSpec threshold openFor past of
       None \<Rightarrow> True
     | Some until \<Rightarrow> until \<le> now \<and> \<not> probeSpec threshold openFor past)"

text \<open>
  The breaker's fields spell the history out. \<open>IsZero\<close> marks the closed circuit, so a deadline that
  is itself the zero instant of year 1 would be read as closed; times since then are \<open>modern\<close>.
\<close>

definition modern :: "breakerCall list \<Rightarrow> bool" where
  "modern calls \<longleftrightarrow> (\<forall>now. CFailure now \<in> set calls \<longrightarrow> zeroTime \<le> now)"

definition breakerReflects :: "breakerCall list \<Rightarrow> circuitBreaker \<Rightarrow> bool" where
  "breakerReflects past c \<longleftrightarrow>
     sint (cbFailures c) = int (failuresSince past)
     \<and> cbOpenUntil c = (case openSpec (sint (cbThreshold c)) (sint (cbOpenFor c)) past of
          None \<Rightarrow> zeroTime | Some until \<Rightarrow> until)
     \<and> cbProbeInFlight c = probeSpec (sint (cbThreshold c)) (sint (cbOpenFor c)) past"

lemma failuresSince_le: "failuresSince past \<le> length past"
  by (induction past rule: failuresSince.induct) simp_all

lemma lastFailure_failures: "lastFailure past = None \<longleftrightarrow> failuresSince past = 0"
  by (induction past rule: lastFailure.induct) simp_all

lemma lastFailure_in: "lastFailure past = Some now \<Longrightarrow> CFailure now \<in> set past"
  by (induction past rule: lastFailure.induct) simp_all

lemma openSpec_after_zero:
  assumes "modern past" and "0 < openFor" and "openSpec threshold openFor past = Some until"
  shows "zeroTime < until"
  using assms lastFailure_in [of past]
  by (force simp: openSpec_def modern_def split: if_splits)

lemma newCircuitBreaker_config:
  "1 \<le> sint (cbThreshold (newCircuitBreaker threshold openFor))"
  "1 \<le> sint (cbOpenFor (newCircuitBreaker threshold openFor))"
  by (auto simp: newCircuitBreaker_def i64_simps second_def)

lemma breakerReflects_new:
  "breakerReflects [] (newCircuitBreaker threshold openFor)"
  using newCircuitBreaker_config [of threshold openFor]
  by (simp add: breakerReflects_def openSpec_def) (simp add: newCircuitBreaker_def)

lemma Allow_reflects:
  assumes "breakerReflects past c" and "modern past" and "1 \<le> sint (cbOpenFor c)"
  shows "fst (circuitBreaker_Allow now c) =
      allowSpec (sint (cbThreshold c)) (sint (cbOpenFor c)) past now"
    and "breakerReflects (CAllow now # past) (snd (circuitBreaker_Allow now c))"
proof -
  have zero: "openSpec (sint (cbThreshold c)) (sint (cbOpenFor c)) past = Some until \<Longrightarrow> until \<noteq> zeroTime"
    for until using openSpec_after_zero [OF assms(2), of "sint (cbOpenFor c)"] assms(3) by force
  have spec: "openSpec t f (CAllow now # past) = openSpec t f past" for t f
    by (simp add: openSpec_def)
  show "fst (circuitBreaker_Allow now c) =
      allowSpec (sint (cbThreshold c)) (sint (cbOpenFor c)) past now"
    and "breakerReflects (CAllow now # past) (snd (circuitBreaker_Allow now c))"
    using assms(1) zero
    by (auto simp: breakerReflects_def circuitBreaker_Allow_def allowSpec_def spec time_IsZero_def
        time_Before_def split: option.splits)
qed

lemma Failure_reflects:
  assumes "breakerReflects past c" and "sint (cbFailures c) < maxInt64" and "1 \<le> sint (cbThreshold c)"
  shows "breakerReflects (CFailure now # past) (circuitBreaker_Failure now c)"
proof -
  have inc: "sint (cbFailures c + 1) = int (Suc (failuresSince past))"
    using assms(1,2) sint_add_64 [of "cbFailures c" 1] sint_ge_minInt64 [of "cbFailures c"]
    by (simp add: breakerReflects_def)
  have below: "openSpec (sint (cbThreshold c)) f past = None"
    if "int (Suc (failuresSince past)) < sint (cbThreshold c)" for f
    using that by (simp add: openSpec_def)
  show ?thesis
    using assms(1) inc below
    by (auto simp: breakerReflects_def circuitBreaker_Failure_def Let_def openSpec_def time_Add_def
        i64_simps not_le)
qed

lemma run_reflects:
  assumes "modern calls" and "int (length calls) \<le> maxInt64"
  shows "breakerReflects (rev calls) (runBreaker calls (newCircuitBreaker threshold openFor))"
  using assms
proof (induction calls rule: rev_induct)
  case Nil
  show ?case by (simp add: breakerReflects_new)
next
  case (snoc x calls)
  let ?c = "runBreaker calls (newCircuitBreaker threshold openFor)"
  have "modern (rev calls)" and IH: "breakerReflects (rev calls) ?c"
    using snoc by (auto simp: modern_def)
  note conf = newCircuitBreaker_config [of threshold openFor]
  show ?case
  proof (cases x)
    case (CAllow now)
    with Allow_reflects(2) [OF IH \<open>modern (rev calls)\<close>] conf show ?thesis by simp
  next
    case CSuccess
    with IH conf show ?thesis
      by (simp add: breakerReflects_def circuitBreaker_Success_def openSpec_def)
  next
    case (CFailure now)
    have "sint (cbFailures ?c) < maxInt64"
      using IH failuresSince_le [of "rev calls"] snoc.prems(2) by (simp add: breakerReflects_def)
    with CFailure Failure_reflects [OF IH] conf show ?thesis by simp
  qed
qed

section \<open>Properties\<close>

text \<open>
  C12: the circuit breaker implements its contract. After every sequence of calls, \<open>Allow\<close> admits a
  request exactly when there were fewer failures than the threshold since the last success, or the
  open period that follows the last failure is over and no probe is outstanding.
\<close>

theorem circuit_breaker_contract:
  assumes "modern calls" and "int (length calls) \<le> maxInt64"
  shows "fst (circuitBreaker_Allow now (runBreaker calls (newCircuitBreaker threshold openFor))) =
    allowSpec (if 1 \<le> sint threshold then sint threshold else 3)
      (if 1 \<le> sint openFor then sint openFor else 5000000000) (rev calls) now"
proof -
  let ?c = "newCircuitBreaker threshold openFor"
  have "modern (rev calls)" using assms(1) by (simp add: modern_def)
  from Allow_reflects(1) [OF run_reflects [OF assms, of threshold openFor] this, of now]
  have "fst (circuitBreaker_Allow now (runBreaker calls ?c)) =
      allowSpec (sint (cbThreshold ?c)) (sint (cbOpenFor ?c)) (rev calls) now"
    using newCircuitBreaker_config by simp
  moreover have "sint (cbThreshold ?c) = (if 1 \<le> sint threshold then sint threshold else 3)"
    "sint (cbOpenFor ?c) = (if 1 \<le> sint openFor then sint openFor else 5000000000)"
    by (auto simp: newCircuitBreaker_def i64_simps second_def)
  ultimately show ?thesis by simp
qed

theorem circuit_breaker_contract_witness:
  "\<not> fst (circuitBreaker_Allow 14 (runBreaker [CFailure 1, CSuccess, CFailure 2, CAllow 3, CFailure 5]
      (newCircuitBreaker 2 10)))"
  using circuit_breaker_contract [of "[CFailure 1, CSuccess, CFailure 2, CAllow 3, CFailure 5]" 14 2 10]
  by (simp add: modern_def zeroTime_def allowSpec_def openSpec_def)

text \<open>
  An open circuit admits one probe at a time. Once \<open>Allow\<close> has admitted a request to a circuit that
  is not closed, it refuses every further request at every time until a result is reported.
\<close>

theorem circuit_single_probe:
  assumes "\<not> time_IsZero (cbOpenUntil c)" and "circuitBreaker_Allow now c = (True, c')"
  shows "fst (circuitBreaker_Allow later (runBreaker (map CAllow ts) c')) = False"
proof -
  have "runBreaker (map CAllow ts) c' = c'"
    using assms
    by (induction ts rule: rev_induct)
      (auto simp: circuitBreaker_Allow_def split: if_splits)
  with assms show ?thesis by (auto simp: circuitBreaker_Allow_def split: if_splits)
qed

theorem circuit_single_probe_witness:
  "fst (circuitBreaker_Allow 100 (runBreaker [CAllow 50] (snd (circuitBreaker_Allow 20
      (runBreaker [CFailure 1] (newCircuitBreaker 1 10)))))) = False"
proof -
  let ?c = "runBreaker [CFailure 1] (newCircuitBreaker 1 10)"
  have c: "?c = \<lparr>cbFailures = 1, cbOpenUntil = 11, cbProbeInFlight = False, cbThreshold = 1, cbOpenFor = 10\<rparr>"
    by (simp add: runBreaker_def circuitBreaker_Failure_def newCircuitBreaker_def i64_simps time_Add_def)
  have "\<not> time_IsZero (cbOpenUntil ?c)" "circuitBreaker_Allow 20 ?c = (True, snd (circuitBreaker_Allow 20 ?c))"
    unfolding c by (simp_all add: time_IsZero_def zeroTime_def circuitBreaker_Allow_def time_Before_def)
  from circuit_single_probe [OF this, of 100 "[50]"] show ?thesis by simp
qed

end
