(* ===== verification/Bidder_Engine.thy ===== *)
theory Bidder_Engine
  imports Dynamic_Cache Circuit_Breaker "HOL-Library.Sublist"
begin

text \<open>
  \<open>BidderEngine\<close> of \<open>internal/ads/dynamic_bidding.go\<close>: construction, \<open>Lookup\<close>, \<open>Trigger\<close>, and the
  refresh goroutine with its workers. The channels \<open>refreshSlots\<close> and \<open>sem\<close> only count, so they are
  the number of tokens in them; \<open>results\<close> is the list of values sent so far.

  A refresh and its workers run concurrently with everything else, so \<open>refresh\<close> is split at its
  shared-state accesses into the operations \<open>tryAcquire\<close>, \<open>askBreaker\<close>, \<open>workerReport\<close>,
  \<open>workerRelease\<close>, \<open>storeResults\<close> and the two deferred calls; \<open>engine_step\<close> interleaves them with
  \<open>Trigger\<close> and \<open>Lookup\<close>. What an adapter answers is an input of the step.
\<close>

section \<open>State\<close>

record DSPRequest =
  dspPlacementID :: string
  dspCountry :: string
  dspDevice :: string
  dspFloorMicros :: int64

text \<open>\<open>bcAdapter\<close> is \<open>None\<close> for a nil adapter and the adapter's \<open>ID()\<close> otherwise.\<close>

record BidderConfig =
  bcAdapter :: "string option"
  bcTimeout :: duration
  bcMaxConcurrent :: int64
  bcFailureThreshold :: int64
  bcCircuitOpenFor :: duration

record bidderRuntime =
  brID :: string
  brConfig :: BidderConfig
  brSem :: nat
  brBreaker :: circuitBreaker

record BidderEngineStats =
  besCacheHits :: uint64
  besCacheFull :: uint64
  besRefreshes :: uint64
  besRefreshSkipped :: uint64
  besFanoutSkipped :: uint64
  besCircuitOpen :: uint64
  besTimeouts :: uint64
  besFailures :: uint64

record BidderEngine =
  beCache :: DynamicBidCache
  beBidders :: "bidderRuntime list"
  beConfig :: BidderEngineConfig
  beStopped :: bool
  beSlots :: nat
  beInflight :: "string set"
  beStats :: BidderEngineStats

datatype engine_error =
    ErrNilContext
  | ErrEngineConfig engine_config_error
  | ErrBidderAdapter
  | ErrDuplicateBidder string
  | ErrBidderLimits string

section \<open>Construction\<close>

definition bidderIDChar :: "char \<Rightarrow> bool" where
  "bidderIDChar c \<longleftrightarrow>
     (CHR ''a'' \<le> c \<and> c \<le> CHR ''z'') \<or> (CHR ''A'' \<le> c \<and> c \<le> CHR ''Z'')
     \<or> (CHR ''0'' \<le> c \<and> c \<le> CHR ''9'') \<or> c = CHR ''-'' \<or> c = CHR ''_'' \<or> c = CHR ''.''"

text \<open>
  The source ranges over runes. Every rune it accepts is a single byte, and a string with a byte
  from \<open>0x80\<close> on contains a rune from \<open>0x80\<close> on, so the loop over bytes decides the same.
\<close>

definition validBidderID :: "string \<Rightarrow> bool" where
  "validBidderID i \<longleftrightarrow> \<not> (i = [] \<or> 64 < length i) \<and> list_all bidderIDChar i"

definition applyDefaults :: "BidderEngineConfig \<Rightarrow> BidderEngineConfig" where
  "applyDefaults config =
    (let d = DefaultBidderEngineConfig in
     \<lparr>engMaxFanout = (if engMaxFanout config <s 1 then engMaxFanout d else engMaxFanout config),
      engMaxConcurrentRefreshes =
        (if engMaxConcurrentRefreshes config <s 1 then engMaxConcurrentRefreshes d
         else engMaxConcurrentRefreshes config),
      engCacheTTL = (if engCacheTTL config \<le>s 0 then engCacheTTL d else engCacheTTL config),
      engFailureTTL = (if engFailureTTL config \<le>s 0 then engFailureTTL d else engFailureTTL config),
      engMaxKeys = (if engMaxKeys config <s 1 then engMaxKeys d else engMaxKeys config)\<rparr>)"

definition bidderDefaults :: "BidderConfig \<Rightarrow> BidderConfig" where
  "bidderDefaults config =
     config\<lparr>bcTimeout := (if bcTimeout config \<le>s 0 then 60 * millisecond else bcTimeout config),
       bcMaxConcurrent := (if bcMaxConcurrent config <s 1 then 32 else bcMaxConcurrent config)\<rparr>"

fun addBidders ::
    "string list \<Rightarrow> BidderConfig list \<Rightarrow> bidderRuntime list \<Rightarrow> engine_error + bidderRuntime list" where
  "addBidders seen [] bidders = Inr bidders"
| "addBidders seen (config # configs) bidders =
    (case bcAdapter config of
       None \<Rightarrow> Inl ErrBidderAdapter
     | Some i \<Rightarrow>
         if \<not> validBidderID i then Inl ErrBidderAdapter
         else if i \<in> set seen then Inl (ErrDuplicateBidder i)
         else
           let config1 = bidderDefaults config in
           if 10 * second <s bcTimeout config1 \<or> 1024 <s bcMaxConcurrent config1
              \<or> 100 <s bcFailureThreshold config1 \<or> hour <s bcCircuitOpenFor config1
           then Inl (ErrBidderLimits i)
           else addBidders (i # seen) configs
             (bidders @ [\<lparr>brID = i, brConfig = config1, brSem = 0,
                brBreaker = newCircuitBreaker (bcFailureThreshold config1) (bcCircuitOpenFor config1)\<rparr>]))"

definition emptyEngineStats :: BidderEngineStats where
  "emptyEngineStats =
    \<lparr>besCacheHits = 0, besCacheFull = 0, besRefreshes = 0, besRefreshSkipped = 0, besFanoutSkipped = 0,
     besCircuitOpen = 0, besTimeouts = 0, besFailures = 0\<rparr>"

definition NewBidderEngine ::
    "bool \<Rightarrow> BidderEngineConfig \<Rightarrow> BidderConfig list \<Rightarrow> engine_error + BidderEngine" where
  "NewBidderEngine ctxNil config0 bidderConfigs =
    (if ctxNil then Inl ErrNilContext
     else
       let config = applyDefaults config0 in
       case BidderEngineConfig_Validate config of
         Some e \<Rightarrow> Inl (ErrEngineConfig e)
       | None \<Rightarrow>
           (case addBidders [] bidderConfigs [] of
              Inl e \<Rightarrow> Inl e
            | Inr bidders \<Rightarrow> Inr
                \<lparr>beCache = NewDynamicBidCache (engMaxKeys config), beBidders = bidders, beConfig = config,
                 beStopped = False, beSlots = 0, beInflight = {}, beStats = emptyEngineStats\<rparr>))"

section \<open>Operations\<close>

definition sanitizeBid :: "string \<Rightarrow> DSPRequest \<Rightarrow> Bid \<Rightarrow> DynamicBid option" where
  "sanitizeBid bidder request bid0 =
    (let bid = (Bid_Normalize bid0)\<lparr>bidRevision := 0, bidPriority := 0, bidDealID := []\<rparr> in
     if bidPlacementID bid \<noteq> dspPlacementID request then None
     else
       let bid1 = bid\<lparr>bidID := bidder @ '':'' @ bidID bid\<rparr> in
       if Bid_ValidateDynamic bid1 \<noteq> None then None
       else Some \<lparr>dynBid = bid1, dynBidderID = bidder\<rparr>)"

definition sanitizeDynamicBids :: "string \<Rightarrow> DSPRequest \<Rightarrow> Bid list \<Rightarrow> DynamicBid list" where
  "sanitizeDynamicBids bidder request bids = List.map_filter (sanitizeBid bidder request) bids"

definition BidderEngine_Lookup ::
    "time \<Rightarrow> AuctionRequest \<Rightarrow> BidderEngine \<Rightarrow> DynamicBid list option \<times> BidderEngine" where
  "BidderEngine_Lookup now request e =
    (case DynamicBidCache_Get (beCache e) now (dynamicCacheKey request) of
       None \<Rightarrow> (None, e)
     | Some bids \<Rightarrow>
         (Some bids, e\<lparr>beStats := (beStats e)\<lparr>besCacheHits := besCacheHits (beStats e) + 1\<rparr>\<rparr>))"

definition dspRequestOf :: "AuctionRequest \<Rightarrow> DSPRequest" where
  "dspRequestOf request =
    \<lparr>dspPlacementID = reqPlacementID request, dspCountry = reqCountry request,
     dspDevice = reqDevice request, dspFloorMicros = reqFloorMicros request\<rparr>"

text \<open>
  \<open>Trigger\<close> also returns the arguments of the refresh goroutine it starts. When no slot is free the source
  marks the key and unmarks it again; here both happen at once, and a trigger of the same key in
  between, which the source ignores, is treated like any other.
\<close>

definition BidderEngine_Trigger ::
    "time \<Rightarrow> AuctionRequest \<Rightarrow> BidderEngine \<Rightarrow> (string \<times> DSPRequest) option \<times> BidderEngine" where
  "BidderEngine_Trigger now request e =
    (if beBidders e = [] \<or> beStopped e then (None, e)
     else
       let k = dynamicCacheKey request in
       if DynamicBidCache_Get (beCache e) now k \<noteq> None then (None, e)
       else if k \<in> beInflight e then (None, e)
       else if int (beSlots e) < sint (engMaxConcurrentRefreshes (beConfig e))
       then (Some (k, dspRequestOf request),
             e\<lparr>beInflight := insert k (beInflight e), beSlots := beSlots e + 1\<rparr>)
       else (None, e\<lparr>beStats := (beStats e)\<lparr>besRefreshSkipped := besRefreshSkipped (beStats e) + 1\<rparr>\<rparr>))"

record bidderResult =
  resBids :: "DynamicBid list"
  resSuccess :: bool

text \<open>
  The local state of \<open>refresh\<close>: the bidders the loop has not reached (by index), the bidder whose
  semaphore it has just taken, \<open>started\<close>, the workers waiting for their adapter, those that have
  sent their result and still hold their semaphore, and the content of \<open>results\<close>.
\<close>

record fanoutTask =
  ftRequest :: DSPRequest
  ftTodo :: "nat list"
  ftHeld :: "nat option"
  ftStarted :: nat
  ftRunning :: "nat list"
  ftReleasing :: "nat list"
  ftResults :: "bidderResult list"

datatype taskPhase = Fanning fanoutTask | Stored

datatype fetchOutcome = FetchOK "Bid list" | FetchTimeout | FetchError

definition startRefresh :: "DSPRequest \<Rightarrow> BidderEngine \<Rightarrow> fanoutTask \<times> BidderEngine" where
  "startRefresh request e =
    (\<lparr>ftRequest = request, ftTodo = [0 ..< length (beBidders e)], ftHeld = None, ftStarted = 0,
      ftRunning = [], ftReleasing = [], ftResults = []\<rparr>,
     e\<lparr>beStats := (beStats e)\<lparr>besRefreshes := besRefreshes (beStats e) + 1\<rparr>\<rparr>)"

definition updateBidder :: "nat \<Rightarrow> (bidderRuntime \<Rightarrow> bidderRuntime) \<Rightarrow> BidderEngine \<Rightarrow> BidderEngine" where
  "updateBidder i f e = e\<lparr>beBidders := (beBidders e)[i := f (beBidders e ! i)]\<rparr>"

definition semCapacity :: "bidderRuntime \<Rightarrow> int" where
  "semCapacity b = sint (bcMaxConcurrent (brConfig b))"

text \<open>The head of the loop body: \<open>select\<close> on the bidder's semaphore.\<close>

definition tryAcquire :: "nat \<Rightarrow> nat list \<Rightarrow> fanoutTask \<Rightarrow> BidderEngine \<Rightarrow> fanoutTask \<times> BidderEngine" where
  "tryAcquire i rest t e =
    (if int (brSem (beBidders e ! i)) < semCapacity (beBidders e ! i)
     then (t\<lparr>ftTodo := rest, ftHeld := Some i\<rparr>, updateBidder i (\<lambda>b. b\<lparr>brSem := brSem b + 1\<rparr>) e)
     else (t\<lparr>ftTodo := rest\<rparr>,
           e\<lparr>beStats := (beStats e)\<lparr>besFanoutSkipped := besFanoutSkipped (beStats e) + 1\<rparr>\<rparr>))"

definition askBreaker :: "nat \<Rightarrow> time \<Rightarrow> fanoutTask \<Rightarrow> BidderEngine \<Rightarrow> fanoutTask \<times> BidderEngine" where
  "askBreaker i now t e =
    (let (ok, breaker) = circuitBreaker_Allow now (brBreaker (beBidders e ! i)) in
     if \<not> ok
     then (t\<lparr>ftHeld := None\<rparr>,
           (updateBidder i (\<lambda>b. b\<lparr>brBreaker := breaker, brSem := brSem b - 1\<rparr>) e)
             \<lparr>beStats := (beStats e)\<lparr>besCircuitOpen := besCircuitOpen (beStats e) + 1\<rparr>\<rparr>)
     else (t\<lparr>ftHeld := None, ftStarted := ftStarted t + 1, ftRunning := i # ftRunning t\<rparr>,
           updateBidder i (\<lambda>b. b\<lparr>brBreaker := breaker\<rparr>) e))"

text \<open>A worker after its adapter has returned: breaker, counters, and the send on \<open>results\<close>.\<close>

definition workerReport ::
    "nat \<Rightarrow> time \<Rightarrow> fetchOutcome \<Rightarrow> fanoutTask \<Rightarrow> BidderEngine \<Rightarrow> fanoutTask \<times> BidderEngine" where
  "workerReport i now outcome t e =
    (let moved = t\<lparr>ftRunning := remove1 i (ftRunning t), ftReleasing := i # ftReleasing t\<rparr> in
     case outcome of
       FetchOK bids \<Rightarrow>
         (moved\<lparr>ftResults := ftResults t @
             [\<lparr>resBids = sanitizeDynamicBids (brID (beBidders e ! i)) (ftRequest t) bids, resSuccess = True\<rparr>]\<rparr>,
          updateBidder i (\<lambda>b. b\<lparr>brBreaker := circuitBreaker_Success (brBreaker b)\<rparr>) e)
     | FetchTimeout \<Rightarrow>
         (moved\<lparr>ftResults := ftResults t @ [\<lparr>resBids = [], resSuccess = False\<rparr>]\<rparr>,
          (updateBidder i (\<lambda>b. b\<lparr>brBreaker := circuitBreaker_Failure now (brBreaker b)\<rparr>) e)
            \<lparr>beStats := (beStats e)\<lparr>besTimeouts := besTimeouts (beStats e) + 1\<rparr>\<rparr>)
     | FetchError \<Rightarrow>
         (moved\<lparr>ftResults := ftResults t @ [\<lparr>resBids = [], resSuccess = False\<rparr>]\<rparr>,
          (updateBidder i (\<lambda>b. b\<lparr>brBreaker := circuitBreaker_Failure now (brBreaker b)\<rparr>) e)
            \<lparr>beStats := (beStats e)\<lparr>besFailures := besFailures (beStats e) + 1\<rparr>\<rparr>))"

definition workerRelease :: "nat \<Rightarrow> fanoutTask \<Rightarrow> BidderEngine \<Rightarrow> fanoutTask \<times> BidderEngine" where
  "workerRelease i t e =
    (t\<lparr>ftReleasing := remove1 i (ftReleasing t)\<rparr>, updateBidder i (\<lambda>b. b\<lparr>brSem := brSem b - 1\<rparr>) e)"

text \<open>The loop is left when \<open>MaxFanout\<close> workers were started or no bidder is left.\<close>

definition loopDone :: "BidderEngine \<Rightarrow> fanoutTask \<Rightarrow> bool" where
  "loopDone e t \<longleftrightarrow> int (ftStarted t) = sint (engMaxFanout (beConfig e)) \<or> ftTodo t = []"

definition collectResults :: "bidderResult list \<Rightarrow> DynamicBid list \<times> bool" where
  "collectResults results =
     (concat (map resBids (filter resSuccess results)), list_ex resSuccess results)"

definition storeResults ::
    "string list \<Rightarrow> time \<Rightarrow> time \<Rightarrow> string \<Rightarrow> fanoutTask \<Rightarrow> BidderEngine \<Rightarrow> BidderEngine" where
  "storeResults order now1 now2 k t e =
    (let (bids, success) = collectResults (ftResults t);
         ttl = (if success then engCacheTTL (beConfig e) else engFailureTTL (beConfig e));
         (stored, cache) = DynamicBidCache_Put order now1 now2 k bids ttl (beCache e);
         e1 = e\<lparr>beCache := cache\<rparr>
     in if \<not> stored
        then e1\<lparr>beStats := (beStats e)\<lparr>besCacheFull := besCacheFull (beStats e) + 1\<rparr>\<rparr> else e1)"

section \<open>Interleaving\<close>

text \<open>
  \<open>esDraining\<close> counts the goroutines whose only remaining action is to give their slot back.
\<close>

record engineSystem =
  esEngine :: BidderEngine
  esTasks :: "string \<rightharpoonup> taskPhase"
  esDraining :: nat

definition setTask :: "string \<Rightarrow> fanoutTask \<times> BidderEngine \<Rightarrow> engineSystem \<Rightarrow> engineSystem" where
  "setTask k te y = y\<lparr>esEngine := snd te, esTasks := (esTasks y)(k \<mapsto> Fanning (fst te))\<rparr>"

text \<open>
  \<open>allowed\<close> restricts the requests that auctions pass to \<open>Trigger\<close>. The send on \<open>results\<close> needs room
  in the channel's buffer, since nobody receives before all workers are done.
\<close>

inductive engine_step ::
    "(AuctionRequest \<Rightarrow> bool) \<Rightarrow> engineSystem \<Rightarrow> engineSystem \<Rightarrow> bool"
  for allowed :: "AuctionRequest \<Rightarrow> bool" where
  step_trigger: "allowed request \<Longrightarrow>
    BidderEngine_Trigger now request (esEngine y) = (Some (k, dsp), e) \<Longrightarrow>
    engine_step allowed y (setTask k (startRefresh dsp e) y)"
| step_trigger_nothing: "BidderEngine_Trigger now request (esEngine y) = (None, e) \<Longrightarrow>
    engine_step allowed y (y\<lparr>esEngine := e\<rparr>)"
| step_lookup: "engine_step allowed y (y\<lparr>esEngine := snd (BidderEngine_Lookup now request (esEngine y))\<rparr>)"
| step_acquire: "esTasks y k = Some (Fanning t) \<Longrightarrow> ftHeld t = None \<Longrightarrow> \<not> loopDone (esEngine y) t \<Longrightarrow>
    ftTodo t = i # rest \<Longrightarrow>
    engine_step allowed y (setTask k (tryAcquire i rest t (esEngine y)) y)"
| step_allow: "esTasks y k = Some (Fanning t) \<Longrightarrow> ftHeld t = Some i \<Longrightarrow>
    engine_step allowed y (setTask k (askBreaker i now t (esEngine y)) y)"
| step_report: "esTasks y k = Some (Fanning t) \<Longrightarrow> i \<in> set (ftRunning t) \<Longrightarrow>
    int (length (ftResults t)) < sint (engMaxFanout (beConfig (esEngine y))) \<Longrightarrow>
    engine_step allowed y (setTask k (workerReport i now outcome t (esEngine y)) y)"
| step_worker_release: "esTasks y k = Some (Fanning t) \<Longrightarrow> i \<in> set (ftReleasing t) \<Longrightarrow>
    engine_step allowed y (setTask k (workerRelease i t (esEngine y)) y)"
| step_store: "esTasks y k = Some (Fanning t) \<Longrightarrow> loopDone (esEngine y) t \<Longrightarrow> ftHeld t = None \<Longrightarrow>
    ftRunning t = [] \<Longrightarrow> ftReleasing t = [] \<Longrightarrow>
    engine_step allowed y (y\<lparr>esEngine := storeResults order now1 now2 k t (esEngine y),
      esTasks := (esTasks y)(k \<mapsto> Stored)\<rparr>)"
| step_clear: "esTasks y k = Some Stored \<Longrightarrow>
    engine_step allowed y (y\<lparr>esEngine := (esEngine y)\<lparr>beInflight := beInflight (esEngine y) - {k}\<rparr>,
      esTasks := (esTasks y)(k := None), esDraining := esDraining y + 1\<rparr>)"
| step_release: "0 < esDraining y \<Longrightarrow>
    engine_step allowed y (y\<lparr>esEngine := (esEngine y)\<lparr>beSlots := beSlots (esEngine y) - 1\<rparr>,
      esDraining := esDraining y - 1\<rparr>)"
| step_stop: "engine_step allowed y (y\<lparr>esEngine := (esEngine y)\<lparr>beStopped := True\<rparr>\<rparr>)"

definition initEngineSystem :: "BidderEngine \<Rightarrow> engineSystem" where
  "initEngineSystem e = \<lparr>esEngine = e, esTasks = Map.empty, esDraining = 0\<rparr>"

inductive engine_reachable ::
    "(AuctionRequest \<Rightarrow> bool) \<Rightarrow> BidderEngineConfig \<Rightarrow> BidderConfig list \<Rightarrow> engineSystem \<Rightarrow> bool"
  for allowed :: "AuctionRequest \<Rightarrow> bool" and config :: BidderEngineConfig
    and bidderConfigs :: "BidderConfig list" where
  engine_init: "NewBidderEngine False config bidderConfigs = Inr e \<Longrightarrow>
    engine_reachable allowed config bidderConfigs (initEngineSystem e)"
| engine_next: "engine_reachable allowed config bidderConfigs y \<Longrightarrow> engine_step allowed y z \<Longrightarrow>
    engine_reachable allowed config bidderConfigs z"

section \<open>Frames\<close>

lemma updateBidder_sel [simp]:
  "beCache (updateBidder i f e) = beCache e" "beConfig (updateBidder i f e) = beConfig e"
  "beStopped (updateBidder i f e) = beStopped e" "beSlots (updateBidder i f e) = beSlots e"
  "beInflight (updateBidder i f e) = beInflight e" "beStats (updateBidder i f e) = beStats e"
  "length (beBidders (updateBidder i f e)) = length (beBidders e)"
  by (simp_all add: updateBidder_def)

lemma updateBidder_nth:
  "j < length (beBidders e) \<Longrightarrow>
    beBidders (updateBidder i f e) ! j = (if j = i then f (beBidders e ! i) else beBidders e ! j)"
  by (simp add: updateBidder_def nth_list_update)

text \<open>What the operations of a refresh leave alone, given that they change one bidder's runtime only.\<close>

definition sameBidders :: "BidderEngine \<Rightarrow> BidderEngine \<Rightarrow> bool" where
  "sameBidders e e' \<longleftrightarrow>
     length (beBidders e') = length (beBidders e)
     \<and> (\<forall>j < length (beBidders e). brID (beBidders e' ! j) = brID (beBidders e ! j)
          \<and> brConfig (beBidders e' ! j) = brConfig (beBidders e ! j))
     \<and> beConfig e' = beConfig e"

lemma sameBidders_refl [simp]: "sameBidders e e"
  by (simp add: sameBidders_def)

lemma sameBidders_trans: "sameBidders e e' \<Longrightarrow> sameBidders e' e'' \<Longrightarrow> sameBidders e e''"
  by (simp add: sameBidders_def)

lemmas refresh_op_defs = tryAcquire_def askBreaker_def workerReport_def workerRelease_def

lemma refresh_ops_same:
  "sameBidders e (snd (tryAcquire i rest t e))"
  "sameBidders e (snd (askBreaker i now t e))"
  "sameBidders e (snd (workerReport i now outcome t e))"
  "sameBidders e (snd (workerRelease i t e))"
  by (auto simp: refresh_op_defs sameBidders_def updateBidder_nth Let_def
      split: prod.split fetchOutcome.split)

lemma refresh_ops_frame [simp]:
  "beCache (snd (tryAcquire i rest t e)) = beCache e"
  "beCache (snd (askBreaker i now t e)) = beCache e"
  "beCache (snd (workerReport i now outcome t e)) = beCache e"
  "beCache (snd (workerRelease i t e)) = beCache e"
  "beSlots (snd (tryAcquire i rest t e)) = beSlots e"
  "beSlots (snd (askBreaker i now t e)) = beSlots e"
  "beSlots (snd (workerReport i now outcome t e)) = beSlots e"
  "beSlots (snd (workerRelease i t e)) = beSlots e"
  "beInflight (snd (tryAcquire i rest t e)) = beInflight e"
  "beInflight (snd (askBreaker i now t e)) = beInflight e"
  "beInflight (snd (workerReport i now outcome t e)) = beInflight e"
  "beInflight (snd (workerRelease i t e)) = beInflight e"
  by (simp_all add: refresh_op_defs Let_def split: prod.split fetchOutcome.split)

lemma storeResults_frame [simp]:
  "beBidders (storeResults order now1 now2 k t e) = beBidders e"
  "beConfig (storeResults order now1 now2 k t e) = beConfig e"
  "beSlots (storeResults order now1 now2 k t e) = beSlots e"
  "beInflight (storeResults order now1 now2 k t e) = beInflight e"
  by (simp_all add: storeResults_def Let_def split: prod.split)

lemma Lookup_frame [simp]:
  "beBidders (snd (BidderEngine_Lookup now request e)) = beBidders e"
  "beConfig (snd (BidderEngine_Lookup now request e)) = beConfig e"
  "beSlots (snd (BidderEngine_Lookup now request e)) = beSlots e"
  "beInflight (snd (BidderEngine_Lookup now request e)) = beInflight e"
  "beCache (snd (BidderEngine_Lookup now request e)) = beCache e"
  by (simp_all add: BidderEngine_Lookup_def split: option.split)

lemma Trigger_frame:
  assumes "BidderEngine_Trigger now request e = (started, e')"
  shows "beBidders e' = beBidders e" "beConfig e' = beConfig e" "beCache e' = beCache e"
    and "started = None \<Longrightarrow> beSlots e' = beSlots e \<and> beInflight e' = beInflight e"
    and "started = Some (k, dsp) \<Longrightarrow>
      k = dynamicCacheKey request \<and> dsp = dspRequestOf request \<and> k \<notin> beInflight e
      \<and> beInflight e' = insert k (beInflight e) \<and> beSlots e' = beSlots e + 1
      \<and> int (beSlots e) < sint (engMaxConcurrentRefreshes (beConfig e))"
  using assms by (auto simp: BidderEngine_Trigger_def Let_def split: if_splits)

lemma startRefresh_sel [simp]:
  "beBidders (snd (startRefresh dsp e)) = beBidders e" "beConfig (snd (startRefresh dsp e)) = beConfig e"
  "beCache (snd (startRefresh dsp e)) = beCache e" "beSlots (snd (startRefresh dsp e)) = beSlots e"
  "beInflight (snd (startRefresh dsp e)) = beInflight e"
  "ftRequest (fst (startRefresh dsp e)) = dsp" "ftHeld (fst (startRefresh dsp e)) = None"
  "ftRunning (fst (startRefresh dsp e)) = []" "ftReleasing (fst (startRefresh dsp e)) = []"
  "ftResults (fst (startRefresh dsp e)) = []" "ftStarted (fst (startRefresh dsp e)) = 0"
  "ftTodo (fst (startRefresh dsp e)) = [0 ..< length (beBidders e)]"
  by (simp_all add: startRefresh_def)

lemma setTask_sel [simp]:
  "esEngine (setTask k te y) = snd te"
  "esTasks (setTask k te y) = (esTasks y)(k \<mapsto> Fanning (fst te))"
  "esDraining (setTask k te y) = esDraining y"
  by (simp_all add: setTask_def)

section \<open>Refresh slots\<close>

text \<open>One slot per refresh goroutine, one goroutine per in-flight key.\<close>

definition slotsOK :: "engineSystem \<Rightarrow> bool" where
  "slotsOK y \<longleftrightarrow>
     finite (beInflight (esEngine y)) \<and> dom (esTasks y) = beInflight (esEngine y)
     \<and> beSlots (esEngine y) = card (beInflight (esEngine y)) + esDraining y
     \<and> int (beSlots (esEngine y)) \<le> sint (engMaxConcurrentRefreshes (beConfig (esEngine y)))"

lemma slotsOK_setTask:
  assumes "slotsOK y" and "esTasks y k = Some v" and "sameBidders (esEngine y) (snd te)"
    and "beSlots (snd te) = beSlots (esEngine y)" and "beInflight (snd te) = beInflight (esEngine y)"
  shows "slotsOK (setTask k te y)"
proof -
  have "insert k (beInflight (esEngine y)) = beInflight (esEngine y)"
    using assms(1,2) by (auto simp: slotsOK_def)
  with assms show ?thesis by (simp add: slotsOK_def sameBidders_def)
qed

lemma slotsOK_step:
  assumes "engine_step allowed y z" and "slotsOK y"
  shows "slotsOK z"
  using assms
proof (induction rule: engine_step.induct)
  case (step_trigger request now y k dsp e)
  from Trigger_frame(2) [OF step_trigger.hyps(2)] Trigger_frame(5) [OF step_trigger.hyps(2) refl]
    step_trigger.prems
  show ?case by (auto simp: slotsOK_def)
next
  case (step_trigger_nothing now request y e)
  from Trigger_frame(2,4) [OF step_trigger_nothing.hyps(1)] step_trigger_nothing.prems
  show ?case by (simp add: slotsOK_def)
next
  case (step_store y k t order now1 now2)
  then have "insert k (beInflight (esEngine y)) = beInflight (esEngine y)"
    by (auto simp: slotsOK_def)
  with step_store show ?case by (simp add: slotsOK_def)
next
  case (step_clear y k)
  then have "k \<in> beInflight (esEngine y)" "finite (beInflight (esEngine y))"
    by (auto simp: slotsOK_def)
  then have "card (beInflight (esEngine y)) = Suc (card (beInflight (esEngine y) - {k}))"
    by (rule card.remove [rotated])
  with step_clear show ?case by (auto simp: slotsOK_def)
next
  case (step_release y)
  then show ?case by (auto simp: slotsOK_def)
qed (simp_all add: slotsOK_setTask refresh_ops_same, simp_all add: slotsOK_def)

lemma NewBidderEngineE:
  assumes "NewBidderEngine False config0 configs = Inr e"
  obtains bidders where "addBidders [] configs [] = Inr bidders"
    and "BidderEngineConfig_Validate (applyDefaults config0) = None"
    and "e = \<lparr>beCache = NewDynamicBidCache (engMaxKeys (applyDefaults config0)), beBidders = bidders,
      beConfig = applyDefaults config0, beStopped = False, beSlots = 0, beInflight = {},
      beStats = emptyEngineStats\<rparr>"
  using assms
  by (auto simp: NewBidderEngine_def Let_def split: option.splits sum.splits)

lemma BidderEngineConfig_Validate_iff:
  "BidderEngineConfig_Validate c = None \<longleftrightarrow>
     1 \<le> sint (engMaxFanout c) \<and> sint (engMaxFanout c) \<le> 64
     \<and> 1 \<le> sint (engMaxConcurrentRefreshes c) \<and> sint (engMaxConcurrentRefreshes c) \<le> 4096
     \<and> 1 \<le> sint (engMaxKeys c) \<and> sint (engMaxKeys c) \<le> 1000000
     \<and> 0 < sint (engCacheTTL c) \<and> sint (engCacheTTL c) \<le> 600000000000
     \<and> 0 < sint (engFailureTTL c) \<and> sint (engFailureTTL c) \<le> 60000000000"
  by (auto simp: BidderEngineConfig_Validate_def i64_simps minute_def second_def)

lemma slotsOK_init:
  assumes "NewBidderEngine False config configs = Inr e"
  shows "slotsOK (initEngineSystem e)"
  using assms
  by (rule NewBidderEngineE) (simp add: slotsOK_def initEngineSystem_def BidderEngineConfig_Validate_iff)

lemma slotsOK_reachable: "engine_reachable allowed config configs y \<Longrightarrow> slotsOK y"
  by (induction rule: engine_reachable.induct) (blast intro: slotsOK_init slotsOK_step)+

section \<open>Workers and semaphores\<close>

definition boolNat :: "bool \<Rightarrow> nat" where
  "boolNat b = (if b then 1 else 0)"

text \<open>How many tokens of bidder \<open>i\<close>'s semaphore a refresh holds.\<close>

definition taskHeld :: "nat \<Rightarrow> fanoutTask \<Rightarrow> nat" where
  "taskHeld i t = boolNat (ftHeld t = Some i) + count_list (ftRunning t) i + count_list (ftReleasing t) i"

fun phaseHeld :: "nat \<Rightarrow> taskPhase option \<Rightarrow> nat" where
  "phaseHeld i None = 0"
| "phaseHeld i (Some Stored) = 0"
| "phaseHeld i (Some (Fanning t)) = taskHeld i t"

definition totalHeld :: "nat \<Rightarrow> (string \<rightharpoonup> taskPhase) \<Rightarrow> nat" where
  "totalHeld i m = (\<Sum>k \<in> dom m. phaseHeld i (m k))"

lemma totalHeld_superset:
  assumes "finite A" and "dom m \<subseteq> A"
  shows "totalHeld i m = (\<Sum>k \<in> A. phaseHeld i (m k))"
  unfolding totalHeld_def using assms by (intro sum.mono_neutral_left) (auto simp: domIff)

lemma totalHeld_update:
  assumes "finite (dom m)"
  shows "totalHeld i (m(k := v)) + phaseHeld i (m k) = totalHeld i m + phaseHeld i v"
proof -
  let ?A = "insert k (dom m)"
  have "totalHeld i (m(k := v)) = (\<Sum>j \<in> ?A. phaseHeld i ((m(k := v)) j))"
    using assms by (intro totalHeld_superset) (auto simp: domIff)
  also have "\<dots> = phaseHeld i v + (\<Sum>j \<in> ?A - {k}. phaseHeld i (m j))"
    using assms by (simp add: sum.remove [of _ k])
  finally have "totalHeld i (m(k := v)) = phaseHeld i v + (\<Sum>j \<in> ?A - {k}. phaseHeld i (m j))" .
  moreover have "totalHeld i m = phaseHeld i (m k) + (\<Sum>j \<in> ?A - {k}. phaseHeld i (m j))"
    using assms totalHeld_superset [of ?A m i] by (auto simp: sum.remove [of _ k])
  ultimately show ?thesis by simp
qed

abbreviation semAt :: "BidderEngine \<Rightarrow> nat \<Rightarrow> nat" where
  "semAt e i \<equiv> brSem (beBidders e ! i)"

text \<open>Every token is accounted for, and no semaphore is over its capacity.\<close>

definition semOK :: "engineSystem \<Rightarrow> bool" where
  "semOK y \<longleftrightarrow> (\<forall>i < length (beBidders (esEngine y)).
     semAt (esEngine y) i = totalHeld i (esTasks y)
     \<and> int (semAt (esEngine y) i) \<le> semCapacity (beBidders (esEngine y) ! i))"

text \<open>An operation of a refresh is balanced when the tokens it takes or returns are its own.\<close>

definition balanced :: "fanoutTask \<Rightarrow> BidderEngine \<Rightarrow> fanoutTask \<times> BidderEngine \<Rightarrow> bool" where
  "balanced t e te \<longleftrightarrow> (\<forall>j < length (beBidders e).
     semAt (snd te) j + taskHeld j t = semAt e j + taskHeld j (fst te)
     \<and> (semAt (snd te) j \<le> semAt e j \<or> int (semAt (snd te) j) \<le> semCapacity (beBidders e ! j)))"

lemma count_list_pos: "i \<in> set xs \<Longrightarrow> 0 < count_list xs i"
  using count_list_0_iff [of xs i] by auto

lemma balanced_tryAcquire:
  "ftHeld t = None \<Longrightarrow> balanced t e (tryAcquire i rest t e)"
  by (auto simp: balanced_def tryAcquire_def taskHeld_def updateBidder_nth boolNat_def)

lemma balanced_askBreaker:
  assumes "ftHeld t = Some i" and "taskHeld i t \<le> semAt e i"
  shows "balanced t e (askBreaker i now t e)"
  using assms
  by (auto simp: balanced_def askBreaker_def taskHeld_def updateBidder_nth boolNat_def Let_def
      split: prod.split)

lemma balanced_workerReport:
  assumes "i \<in> set (ftRunning t)"
  shows "balanced t e (workerReport i now outcome t e)"
  using count_list_pos [OF assms]
  by (auto simp: balanced_def workerReport_def taskHeld_def updateBidder_nth boolNat_def Let_def
      split: fetchOutcome.split)

lemma balanced_workerRelease:
  assumes "i \<in> set (ftReleasing t)" and "taskHeld i t \<le> semAt e i"
  shows "balanced t e (workerRelease i t e)"
  using count_list_pos [OF assms(1)] assms(2)
  by (fastforce simp: balanced_def workerRelease_def taskHeld_def updateBidder_nth boolNat_def)

lemma semOK_setTask:
  assumes "semOK y" and "finite (dom (esTasks y))" and "esTasks y k = Some (Fanning t)"
    and "sameBidders (esEngine y) (snd te)" and "balanced t (esEngine y) te"
  shows "semOK (setTask k te y)"
  unfolding semOK_def
proof (intro allI impI)
  fix i assume "i < length (beBidders (esEngine (setTask k te y)))"
  then have i: "i < length (beBidders (esEngine y))" using assms(4) by (simp add: sameBidders_def)
  let ?tasks = "(esTasks y)(k := Some (Fanning (fst te)))"
  have "totalHeld i ?tasks + taskHeld i t = totalHeld i (esTasks y) + taskHeld i (fst te)"
    using totalHeld_update [OF assms(2), of i k "Some (Fanning (fst te))"] assms(3) by simp
  moreover have "semCapacity (beBidders (snd te) ! i) = semCapacity (beBidders (esEngine y) ! i)"
    using assms(4) i by (simp add: sameBidders_def semCapacity_def)
  ultimately show "semAt (esEngine (setTask k te y)) i = totalHeld i (esTasks (setTask k te y))
      \<and> int (semAt (esEngine (setTask k te y)) i) \<le> semCapacity (beBidders (esEngine (setTask k te y)) ! i)"
    using assms(1,5) i by (fastforce simp: semOK_def balanced_def)
qed

lemma taskHeld_le_sem:
  assumes "semOK y" and "finite (dom (esTasks y))" and "esTasks y k = Some (Fanning t)"
    and "i < length (beBidders (esEngine y))"
  shows "taskHeld i t \<le> semAt (esEngine y) i"
proof -
  have "phaseHeld i (esTasks y k) \<le> totalHeld i (esTasks y)"
    unfolding totalHeld_def using assms(2,3) by (intro member_le_sum) auto
  with assms show ?thesis by (simp add: semOK_def)
qed

text \<open>
  The local state of a refresh: indices are in range, \<open>started\<close> counts the workers that are running
  or have reported, and it stays within the fan-out limit.
\<close>

definition taskOK :: "BidderEngine \<Rightarrow> fanoutTask \<Rightarrow> bool" where
  "taskOK e t \<longleftrightarrow>
     set (ftTodo t) \<union> set_option (ftHeld t) \<union> set (ftRunning t) \<union> set (ftReleasing t)
       \<subseteq> {..< length (beBidders e)}
     \<and> ftStarted t = length (ftRunning t) + length (ftResults t)
     \<and> int (ftStarted t) \<le> sint (engMaxFanout (beConfig e))
     \<and> (ftHeld t \<noteq> None \<longrightarrow> int (ftStarted t) < sint (engMaxFanout (beConfig e)))"

definition tasksOK :: "engineSystem \<Rightarrow> bool" where
  "tasksOK y \<longleftrightarrow> (\<forall>k t. esTasks y k = Some (Fanning t) \<longrightarrow> taskOK (esEngine y) t)"

lemma taskOK_same: "sameBidders e e' \<Longrightarrow> taskOK e' t \<longleftrightarrow> taskOK e t"
  by (simp add: taskOK_def sameBidders_def)

lemma taskOK_running: "taskOK e t \<Longrightarrow> i \<in> set (ftRunning t) \<Longrightarrow> i < length (beBidders e)"
  by (auto simp: taskOK_def)

lemma taskOK_tryAcquire:
  assumes "taskOK e t" and "ftHeld t = None" and "ftTodo t = i # rest" and "\<not> loopDone e t"
  shows "taskOK e (fst (tryAcquire i rest t e))"
  using assms by (auto simp: taskOK_def tryAcquire_def loopDone_def)

lemma taskOK_askBreaker:
  assumes "taskOK e t" and "ftHeld t = Some i"
  shows "taskOK e (fst (askBreaker i now t e))"
  using assms by (auto simp: taskOK_def askBreaker_def Let_def split: prod.split)

lemma taskOK_workerReport:
  assumes "taskOK e t" and "i \<in> set (ftRunning t)"
  shows "taskOK e (fst (workerReport i now outcome t e))"
proof -
  have "length (ftRunning t) = Suc (length (remove1 i (ftRunning t)))"
    using assms(2) length_pos_if_in_set [OF assms(2)] by (simp add: length_remove1)
  with assms set_remove1_subset [of i "ftRunning t"] show ?thesis
    by (auto simp: taskOK_def workerReport_def Let_def split: fetchOutcome.split)
qed

lemma taskOK_workerRelease:
  assumes "taskOK e t"
  shows "taskOK e (fst (workerRelease i t e))"
  using assms set_remove1_subset [of i "ftReleasing t"] by (auto simp: taskOK_def workerRelease_def)

lemma tasksOK_setTask:
  assumes "tasksOK y" and "sameBidders (esEngine y) (snd te)" and "taskOK (esEngine y) (fst te)"
  shows "tasksOK (setTask k te y)"
  using assms taskOK_same [OF assms(2)] by (simp add: tasksOK_def)

section \<open>The invariant of the running engine\<close>

definition engineInv :: "engineSystem \<Rightarrow> bool" where
  "engineInv y \<longleftrightarrow>
     slotsOK y \<and> semOK y \<and> tasksOK y \<and> BidderEngineConfig_Validate (beConfig (esEngine y)) = None"

lemma engineInvD:
  assumes "engineInv y"
  shows "slotsOK y" "semOK y" "tasksOK y" "finite (dom (esTasks y))"
    "1 \<le> sint (engMaxFanout (beConfig (esEngine y)))"
  using assms by (simp_all add: engineInv_def slotsOK_def BidderEngineConfig_Validate_iff)

lemma semOK_cong:
  "beBidders (esEngine z) = beBidders (esEngine y) \<Longrightarrow> (\<And>i. totalHeld i (esTasks z) = totalHeld i (esTasks y))
    \<Longrightarrow> semOK z \<longleftrightarrow> semOK y"
  by (simp only: semOK_def)

lemma taskOK_cong:
  "beBidders e' = beBidders e \<Longrightarrow> beConfig e' = beConfig e \<Longrightarrow> taskOK e' t \<longleftrightarrow> taskOK e t"
  by (simp only: taskOK_def)

text \<open>The four operations of a refresh preserve the invariant by the same argument.\<close>

lemma engineInv_setTask:
  assumes "engineInv y" and "esTasks y k = Some (Fanning t)" and "sameBidders (esEngine y) (snd te)"
    and "beSlots (snd te) = beSlots (esEngine y)" and "beInflight (snd te) = beInflight (esEngine y)"
    and "balanced t (esEngine y) te" and "taskOK (esEngine y) (fst te)"
  shows "engineInv (setTask k te y)"
proof -
  note inv = engineInvD [OF assms(1)]
  have "beConfig (snd te) = beConfig (esEngine y)" using assms(3) by (simp add: sameBidders_def)
  then show ?thesis
    using assms(1) slotsOK_setTask [OF inv(1) assms(2-5)] semOK_setTask [OF inv(2,4) assms(2,3,6)]
      tasksOK_setTask [OF inv(3) assms(3,7)]
    by (simp add: engineInv_def)
qed

lemma engineInv_trigger:
  assumes "engineInv y" and trig: "BidderEngine_Trigger now request (esEngine y) = (Some (k, dsp), e)"
  shows "engineInv (setTask k (startRefresh dsp e) y)"
proof -
  note inv = engineInvD [OF assms(1)]
  note frame = Trigger_frame(1,2) [OF trig] Trigger_frame(5) [OF trig refl]
  have "slotsOK (setTask k (startRefresh dsp e) y)"
    by (rule slotsOK_step [OF step_trigger [where allowed = "\<lambda>_. True"] inv(1)]) (use trig in simp_all)
  moreover have none: "esTasks y k = None" using inv(1) frame by (auto simp: slotsOK_def domIff)
  have "totalHeld i ((esTasks y)(k \<mapsto> Fanning (fst (startRefresh dsp e)))) = totalHeld i (esTasks y)" for i
    using totalHeld_update [OF inv(4), of i k "Some (Fanning (fst (startRefresh dsp e)))"] none
    by (simp add: taskHeld_def boolNat_def)
  then have "semOK (setTask k (startRefresh dsp e) y)"
    using inv(2) frame(1) by (subst semOK_cong [where y = y]) simp_all
  moreover have "taskOK (esEngine y) (fst (startRefresh dsp e))"
    using inv(5) frame(1,2) by (auto simp: taskOK_def)
  then have "tasksOK (setTask k (startRefresh dsp e) y)"
    using inv(3) frame(1,2) taskOK_cong [of "snd (startRefresh dsp e)" "esEngine y"]
    by (simp add: tasksOK_def)
  ultimately show ?thesis using assms(1) frame by (simp add: engineInv_def)
qed

lemma engineInv_same:
  assumes "engineInv y" and "beBidders e = beBidders (esEngine y)" and "beConfig e = beConfig (esEngine y)"
    and "beSlots e = beSlots (esEngine y)" and "beInflight e = beInflight (esEngine y)"
  shows "engineInv (y\<lparr>esEngine := e\<rparr>)"
  using assms semOK_cong [of "y\<lparr>esEngine := e\<rparr>" y] taskOK_cong [OF assms(2,3)]
  by (simp add: engineInv_def slotsOK_def tasksOK_def)

lemma engineInv_leave:
  assumes "engineInv y" and "slotsOK z" and "esTasks y k = Some v" and "\<And>i. phaseHeld i (esTasks y k) = 0"
    and "beBidders (esEngine z) = beBidders (esEngine y)" and "beConfig (esEngine z) = beConfig (esEngine y)"
    and "esTasks z = (esTasks y)(k := u)" and "u = None \<or> u = Some Stored"
  shows "engineInv z"
proof -
  note inv = engineInvD [OF assms(1)]
  have "totalHeld i (esTasks z) = totalHeld i (esTasks y)" for i
    using totalHeld_update [OF inv(4), of i k u] assms(4,7,8) by auto
  then have "semOK z" using semOK_cong [OF assms(5)] inv(2) by blast
  moreover have "tasksOK z"
    using inv(3) assms(7,8) taskOK_cong [OF assms(5,6)] by (auto simp: tasksOK_def)
  ultimately show ?thesis using assms(1,2,6) by (simp add: engineInv_def)
qed

lemma engineInv_step:
  assumes "engine_step allowed y z" and "engineInv y"
  shows "engineInv z"
  using assms
proof (cases rule: engine_step.cases)
  case (step_trigger request now k dsp e)
  with assms(2) show ?thesis by (simp add: engineInv_trigger)
next
  case (step_trigger_nothing now request e)
  with assms(2) Trigger_frame [OF step_trigger_nothing(2)] show ?thesis by (auto intro: engineInv_same)
next
  case (step_lookup now request)
  with assms(2) show ?thesis by (auto intro: engineInv_same)
next
  case (step_acquire k t i rest)
  with assms(2) engineInvD(3) [OF assms(2)] show ?thesis
    by (auto intro!: engineInv_setTask balanced_tryAcquire taskOK_tryAcquire simp: refresh_ops_same tasksOK_def)
next
  case (step_allow k t i now)
  then have ok: "taskOK (esEngine y) t" using engineInvD(3) [OF assms(2)] by (auto simp: tasksOK_def)
  then have "taskHeld i t \<le> semAt (esEngine y) i"
    using step_allow engineInvD(2,4) [OF assms(2)] by (intro taskHeld_le_sem) (auto simp: taskOK_def)
  with ok step_allow assms(2) show ?thesis
    by (auto intro!: engineInv_setTask balanced_askBreaker taskOK_askBreaker simp: refresh_ops_same)
next
  case (step_report k t i now outcome)
  with assms(2) engineInvD(3) [OF assms(2)] show ?thesis
    by (auto intro!: engineInv_setTask balanced_workerReport taskOK_workerReport simp: refresh_ops_same tasksOK_def)
next
  case (step_worker_release k t i)
  then have ok: "taskOK (esEngine y) t" using engineInvD(3) [OF assms(2)] by (auto simp: tasksOK_def)
  then have "taskHeld i t \<le> semAt (esEngine y) i"
    using step_worker_release engineInvD(2,4) [OF assms(2)] by (intro taskHeld_le_sem) (auto simp: taskOK_def)
  with ok step_worker_release assms(2) show ?thesis
    by (auto intro!: engineInv_setTask balanced_workerRelease taskOK_workerRelease simp: refresh_ops_same)
next
  case (step_store k t order now1 now2)
  then show ?thesis
    using slotsOK_step [OF assms(1) engineInvD(1) [OF assms(2)]]
    by (intro engineInv_leave [OF assms(2), where k = k and u = "Some Stored"])
      (simp_all add: taskHeld_def boolNat_def)
next
  case (step_clear k)
  then show ?thesis
    using slotsOK_step [OF assms(1) engineInvD(1) [OF assms(2)]]
    by (intro engineInv_leave [OF assms(2), where k = k and u = None]) simp_all
next
  case step_release
  then have same: "beBidders (esEngine z) = beBidders (esEngine y)"
      "beConfig (esEngine z) = beConfig (esEngine y)" "esTasks z = esTasks y" by simp_all
  then have "semOK z \<longleftrightarrow> semOK y" by (intro semOK_cong) simp_all
  moreover have "tasksOK z \<longleftrightarrow> tasksOK y" by (simp only: tasksOK_def taskOK_def same)
  ultimately show ?thesis
    using slotsOK_step [OF assms(1) engineInvD(1) [OF assms(2)]] assms(2) same(2)
    by (simp only: engineInv_def)
next
  case step_stop
  with assms(2) show ?thesis by (auto intro: engineInv_same)
qed

lemma addBidders_Inr:
  assumes "addBidders seen configs bidders = Inr bs"
  shows "\<exists>new. bs = bidders @ new \<and> distinct (map brID new) \<and> set (map brID new) \<inter> set seen = {}
    \<and> (\<forall>b \<in> set new. brSem b = 0 \<and> validBidderID (brID b) \<and> 1 \<le> semCapacity b \<and> semCapacity b \<le> 1024)"
  using assms
proof (induction configs arbitrary: seen bidders)
  case (Cons config configs)
  then obtain i where i: "bcAdapter config = Some i" "validBidderID i" "i \<notin> set seen"
    and cap: "\<not> 1024 <s bcMaxConcurrent (bidderDefaults config)"
    by (auto simp: Let_def split: option.splits if_splits)
  let ?b = "\<lparr>brID = i, brConfig = bidderDefaults config, brSem = 0, brBreaker = newCircuitBreaker
      (bcFailureThreshold (bidderDefaults config)) (bcCircuitOpenFor (bidderDefaults config))\<rparr>"
  have "addBidders (i # seen) configs (bidders @ [?b]) = Inr bs"
    using Cons.prems i by (simp add: Let_def split: if_splits)
  from Cons.IH [OF this] obtain new where "bs = (bidders @ [?b]) @ new" "distinct (map brID new)"
    "set (map brID new) \<inter> set (i # seen) = {}"
    "\<forall>b \<in> set new. brSem b = 0 \<and> validBidderID (brID b) \<and> 1 \<le> semCapacity b \<and> semCapacity b \<le> 1024"
    by blast
  moreover have "1 \<le> semCapacity ?b \<and> semCapacity ?b \<le> 1024"
    using cap by (auto simp: semCapacity_def bidderDefaults_def i64_simps split: if_splits)
  ultimately show ?case using i by (intro exI [of _ "?b # new"]) auto
qed simp

lemma engineInv_init:
  assumes "NewBidderEngine False config configs = Inr e"
  shows "engineInv (initEngineSystem e)"
  using assms
proof (rule NewBidderEngineE)
  fix bidders
  assume add: "addBidders [] configs [] = Inr bidders"
    and valid: "BidderEngineConfig_Validate (applyDefaults config) = None"
    and e: "e = \<lparr>beCache = NewDynamicBidCache (engMaxKeys (applyDefaults config)), beBidders = bidders,
      beConfig = applyDefaults config, beStopped = False, beSlots = 0, beInflight = {},
      beStats = emptyEngineStats\<rparr>"
  have "brSem (bidders ! i) = 0 \<and> 1 \<le> semCapacity (bidders ! i)" if "i < length bidders" for i
    using addBidders_Inr [OF add] nth_mem [OF that] by auto
  then have "semOK (initEngineSystem e)"
    unfolding e by (simp add: semOK_def initEngineSystem_def totalHeld_def) (meson order_trans zero_le_one)
  with slotsOK_init [OF assms] valid show ?thesis
    unfolding e by (simp add: engineInv_def tasksOK_def initEngineSystem_def)
qed

lemma engineInv_reachable: "engine_reachable allowed config configs y \<Longrightarrow> engineInv y"
  by (induction rule: engine_reachable.induct) (blast intro: engineInv_init engineInv_step)+

end
