(* ===== verification/Config.thy ===== *)
theory Config
  imports Go_Text Bidder_Engine Bid_Cache
begin

text \<open>
  \<open>Config\<close> of \<open>internal/ads/types.go\<close>: reading the environment and validating the result. The
  environment is a function from names to values, empty for an unset variable.
\<close>

section \<open>Definitions\<close>

record DSPBidderEndpoint =
  endpointID :: string
  endpointURL :: string

record Config =
  cfgHTTPAddr :: string
  cfgDebugAddr :: string
  cfgRedisAddr :: string
  cfgRedisPassword :: string
  cfgRedisDB :: int64
  cfgRedisMode :: string
  cfgRedisAddrs :: "string list"
  cfgRedisPrefix :: string
  cfgAdminToken :: string
  cfgCacheRefresh :: duration
  cfgAuctionPolicy :: AuctionPolicy
  cfgDecisionLogging :: bool
  cfgDecisionLogBuffer :: int64
  cfgMaxSnapshotAge :: duration
  cfgStaleSnapshotAction :: StaleSnapshotAction
  cfgDSPBidderEndpoints :: "DSPBidderEndpoint list"
  cfgDSPAuthorization :: string
  cfgBidderEngineConfig :: BidderEngineConfig
  cfgDSPTimeout :: duration
  cfgDSPMaxConcurrent :: int64
  cfgDSPFailureThreshold :: int64
  cfgDSPCircuitOpenFor :: duration

definition getenv :: "(string \<Rightarrow> string) \<Rightarrow> string \<Rightarrow> string" where
  "getenv env name = TrimSpace (env name)"

text \<open>The pattern \<open>if value := strings.TrimSpace(getenv(name)); value != ""\<close>.\<close>

definition withEnv :: "(string \<Rightarrow> string) \<Rightarrow> string \<Rightarrow> (string \<Rightarrow> Config \<Rightarrow> Config) \<Rightarrow> Config \<Rightarrow> Config" where
  "withEnv env name f c = (let v = TrimSpace (getenv env name) in if v \<noteq> [] then f v c else c)"

text \<open>A parsed number or duration is used when parsing succeeds and \<open>ok\<close> holds of it.\<close>

definition whenParsed :: "int64 option \<Rightarrow> (int64 \<Rightarrow> bool) \<Rightarrow> (int64 \<Rightarrow> Config \<Rightarrow> Config) \<Rightarrow> Config \<Rightarrow> Config" where
  "whenParsed parsed ok f c = (case parsed of None \<Rightarrow> c | Some n \<Rightarrow> if ok n then f n c else c)"

abbreviation positive :: "int64 \<Rightarrow> bool" where "positive n \<equiv> 0 <s n"
abbreviation nonNegative :: "int64 \<Rightarrow> bool" where "nonNegative n \<equiv> 0 \<le>s n"

definition splitAddrs :: "string \<Rightarrow> string list" where
  "splitAddrs v = filter (\<lambda>a. a \<noteq> []) (map TrimSpace (Split (CHR '','') v))"

definition parseEndpoint :: "string \<Rightarrow> DSPBidderEndpoint" where
  "parseEndpoint raw =
    (let parts = SplitN2 (CHR ''='') (TrimSpace raw) in
     if length parts \<noteq> 2 \<or> parts ! 0 = [] \<or> parts ! 1 = []
     then \<lparr>endpointID = [], endpointURL = []\<rparr>
     else \<lparr>endpointID = parts ! 0, endpointURL = parts ! 1\<rparr>)"

definition defaultConfig :: Config where
  "defaultConfig =
    \<lparr>cfgHTTPAddr = '':8080'', cfgDebugAddr = [], cfgRedisAddr = ''127.0.0.1:6379'', cfgRedisPassword = [],
     cfgRedisDB = 0, cfgRedisMode = ''single'', cfgRedisAddrs = [], cfgRedisPrefix = ''adserver'',
     cfgAdminToken = [], cfgCacheRefresh = 30 * second, cfgAuctionPolicy = DefaultAuctionPolicy,
     cfgDecisionLogging = False, cfgDecisionLogBuffer = 4096, cfgMaxSnapshotAge = minute,
     cfgStaleSnapshotAction = ServeStale, cfgDSPBidderEndpoints = [], cfgDSPAuthorization = [],
     cfgBidderEngineConfig = DefaultBidderEngineConfig, cfgDSPTimeout = 60 * millisecond,
     cfgDSPMaxConcurrent = 32, cfgDSPFailureThreshold = 3, cfgDSPCircuitOpenFor = 5 * second\<rparr>"

text \<open>The blocks of \<open>ConfigFromEnv\<close> in the order of the source.\<close>

definition envSteps :: "(string \<Rightarrow> string) \<Rightarrow> (Config \<Rightarrow> Config) list" where
  "envSteps env =
    [withEnv env ''HTTP_ADDR'' (\<lambda>v c. c\<lparr>cfgHTTPAddr := v\<rparr>),
     withEnv env ''DEBUG_ADDR'' (\<lambda>v c. c\<lparr>cfgDebugAddr := v\<rparr>),
     withEnv env ''REDIS_ADDR'' (\<lambda>v c. c\<lparr>cfgRedisAddr := v\<rparr>),
     withEnv env ''REDIS_MODE'' (\<lambda>v c. c\<lparr>cfgRedisMode := v\<rparr>),
     withEnv env ''REDIS_ADDRS'' (\<lambda>v c. c\<lparr>cfgRedisAddrs := cfgRedisAddrs c @ splitAddrs v\<rparr>),
     (\<lambda>c. let v = getenv env ''REDIS_PASSWORD'' in if v \<noteq> [] then c\<lparr>cfgRedisPassword := v\<rparr> else c),
     withEnv env ''REDIS_DB''
         (\<lambda>v. whenParsed (Atoi v) nonNegative (\<lambda>n c. c\<lparr>cfgRedisDB := n\<rparr>)),
     withEnv env ''REDIS_PREFIX'' (\<lambda>v c. c\<lparr>cfgRedisPrefix := v\<rparr>),
     (\<lambda>c. let v = getenv env ''AD_ADMIN_TOKEN'' in if v \<noteq> [] then c\<lparr>cfgAdminToken := v\<rparr> else c),
     withEnv env ''CACHE_REFRESH_INTERVAL''
         (\<lambda>v. whenParsed (ParseDuration v) positive (\<lambda>n c. c\<lparr>cfgCacheRefresh := n\<rparr>)),
     withEnv env ''MAX_SNAPSHOT_AGE''
         (\<lambda>v. whenParsed (ParseDuration v) positive (\<lambda>n c. c\<lparr>cfgMaxSnapshotAge := n\<rparr>)),
     withEnv env ''STALE_SNAPSHOT_ACTION'' (\<lambda>v c. c\<lparr>cfgStaleSnapshotAction := v\<rparr>),
     withEnv env ''AUCTION_PRICING_MODEL''
         (\<lambda>v c. c\<lparr>cfgAuctionPolicy := (cfgAuctionPolicy c)\<lparr>policyPricingModel := v\<rparr>\<rparr>),
     withEnv env ''SECOND_PRICE_INCREMENT_MICROS''
         (\<lambda>v. whenParsed (ParseInt v) nonNegative (\<lambda>n c. c\<lparr>cfgAuctionPolicy := (cfgAuctionPolicy c)\<lparr>policyIncrement := n\<rparr>\<rparr>)),
     (\<lambda>c. if TrimSpace (getenv env ''DECISION_LOGGING'') = ''true'' then c\<lparr>cfgDecisionLogging := True\<rparr> else c),
     withEnv env ''DECISION_LOG_BUFFER''
         (\<lambda>v. whenParsed (Atoi v) positive (\<lambda>n c. c\<lparr>cfgDecisionLogBuffer := n\<rparr>)),
     withEnv env ''DSP_ENDPOINTS''
         (\<lambda>v c. c\<lparr>cfgDSPBidderEndpoints := cfgDSPBidderEndpoints c @ map parseEndpoint (Split (CHR '','') v)\<rparr>),
     (\<lambda>c. c\<lparr>cfgDSPAuthorization := getenv env ''DSP_AUTHORIZATION''\<rparr>),
     withEnv env ''DSP_TIMEOUT''
         (\<lambda>v. whenParsed (ParseDuration v) positive (\<lambda>n c. c\<lparr>cfgDSPTimeout := n\<rparr>)),
     withEnv env ''DSP_CACHE_TTL''
         (\<lambda>v. whenParsed (ParseDuration v) positive (\<lambda>n c. c\<lparr>cfgBidderEngineConfig := (cfgBidderEngineConfig c)\<lparr>engCacheTTL := n\<rparr>\<rparr>)),
     withEnv env ''DSP_FAILURE_TTL''
         (\<lambda>v. whenParsed (ParseDuration v) positive (\<lambda>n c. c\<lparr>cfgBidderEngineConfig := (cfgBidderEngineConfig c)\<lparr>engFailureTTL := n\<rparr>\<rparr>)),
     withEnv env ''DSP_MAX_FANOUT''
         (\<lambda>v. whenParsed (Atoi v) positive (\<lambda>n c. c\<lparr>cfgBidderEngineConfig := (cfgBidderEngineConfig c)\<lparr>engMaxFanout := n\<rparr>\<rparr>)),
     withEnv env ''DSP_MAX_REFRESHES''
         (\<lambda>v. whenParsed (Atoi v) positive (\<lambda>n c. c\<lparr>cfgBidderEngineConfig := (cfgBidderEngineConfig c)\<lparr>engMaxConcurrentRefreshes := n\<rparr>\<rparr>)),
     withEnv env ''DSP_MAX_KEYS''
         (\<lambda>v. whenParsed (ParseInt v) positive (\<lambda>n c. c\<lparr>cfgBidderEngineConfig := (cfgBidderEngineConfig c)\<lparr>engMaxKeys := n\<rparr>\<rparr>)),
     withEnv env ''DSP_MAX_CONCURRENT''
         (\<lambda>v. whenParsed (Atoi v) positive (\<lambda>n c. c\<lparr>cfgDSPMaxConcurrent := n\<rparr>)),
     withEnv env ''DSP_FAILURE_THRESHOLD''
         (\<lambda>v. whenParsed (Atoi v) positive (\<lambda>n c. c\<lparr>cfgDSPFailureThreshold := n\<rparr>)),
     withEnv env ''DSP_CIRCUIT_OPEN''
         (\<lambda>v. whenParsed (ParseDuration v) positive (\<lambda>n c. c\<lparr>cfgDSPCircuitOpenFor := n\<rparr>))]"

definition ConfigFromEnv :: "(string \<Rightarrow> string) \<Rightarrow> Config" where
  "ConfigFromEnv env = fold (\<lambda>step c. step c) (envSteps env) defaultConfig"

datatype config_error =
    ErrPolicy policy_error
  | ErrRedisMode
  | ErrClusterDB
  | ErrMaxSnapshotAge
  | ErrStaleAction
  | ErrTooManyEndpoints
  | ErrEndpoint
  | ErrDSPLimits
  | ErrBidderEngineConfig engine_config_error

definition Config_Validate :: "Config \<Rightarrow> config_error option" where
  "Config_Validate c =
    (case AuctionPolicy_Validate (cfgAuctionPolicy c) of
       Some e \<Rightarrow> Some (ErrPolicy e)
     | None \<Rightarrow>
         if cfgRedisMode c \<noteq> ''single'' \<and> cfgRedisMode c \<noteq> ''cluster'' then Some ErrRedisMode
         else if cfgRedisMode c = ''cluster'' \<and> cfgRedisDB c \<noteq> 0 then Some ErrClusterDB
         else if cfgMaxSnapshotAge c \<le>s 0 then Some ErrMaxSnapshotAge
         else if cfgStaleSnapshotAction c \<noteq> ServeStale \<and> cfgStaleSnapshotAction c \<noteq> NoBidOnStale
         then Some ErrStaleAction
         else if 64 < length (cfgDSPBidderEndpoints c) then Some ErrTooManyEndpoints
         else if list_ex (\<lambda>endpoint. \<not> validBidderID (endpointID endpoint) \<or> endpointURL endpoint = []
             \<or> 4096 < length (endpointURL endpoint)) (cfgDSPBidderEndpoints c)
         then Some ErrEndpoint
         else if 8192 < length (cfgDSPAuthorization c) \<or> cfgDSPTimeout c \<le>s 0
             \<or> 10 * second <s cfgDSPTimeout c \<or> cfgDSPMaxConcurrent c <s 1 \<or> 1024 <s cfgDSPMaxConcurrent c
             \<or> cfgDSPFailureThreshold c <s 1 \<or> 100 <s cfgDSPFailureThreshold c
             \<or> cfgDSPCircuitOpenFor c \<le>s 0 \<or> hour <s cfgDSPCircuitOpenFor c
         then Some ErrDSPLimits
         else map_option ErrBidderEngineConfig (BidderEngineConfig_Validate (cfgBidderEngineConfig c)))"

section \<open>What reading the environment guarantees\<close>

text \<open>The fields that are only ever set to positive values.\<close>

definition positiveFields :: "Config \<Rightarrow> bool" where
  "positiveFields c \<longleftrightarrow>
     0 <s cfgCacheRefresh c \<and> 0 <s cfgMaxSnapshotAge c \<and> 0 <s cfgDecisionLogBuffer c \<and> 0 <s cfgDSPTimeout c
     \<and> 0 <s cfgDSPMaxConcurrent c \<and> 0 <s cfgDSPFailureThreshold c \<and> 0 <s cfgDSPCircuitOpenFor c
     \<and> 0 <s engCacheTTL (cfgBidderEngineConfig c) \<and> 0 <s engFailureTTL (cfgBidderEngineConfig c)
     \<and> 0 <s engMaxFanout (cfgBidderEngineConfig c) \<and> 0 <s engMaxConcurrentRefreshes (cfgBidderEngineConfig c)
     \<and> 0 <s engMaxKeys (cfgBidderEngineConfig c) \<and> 0 \<le>s cfgRedisDB c
     \<and> 0 \<le>s policyIncrement (cfgAuctionPolicy c)"

lemma positiveFields_default: "positiveFields defaultConfig"
  by (simp add: positiveFields_def defaultConfig_def DefaultBidderEngineConfig_def DefaultAuctionPolicy_def
      i64_simps second_def minute_def millisecond_def)

definition keepsPositive :: "(Config \<Rightarrow> Config) \<Rightarrow> bool" where
  "keepsPositive step \<longleftrightarrow> (\<forall>c. positiveFields c \<longrightarrow> positiveFields (step c))"

lemma keeps_withEnv: "(\<And>v. keepsPositive (f v)) \<Longrightarrow> keepsPositive (withEnv env name f)"
  by (simp add: keepsPositive_def withEnv_def Let_def)

lemma keeps_whenParsed: "(\<And>n. ok n \<Longrightarrow> keepsPositive (f n)) \<Longrightarrow> keepsPositive (whenParsed parsed ok f)"
  by (simp add: keepsPositive_def whenParsed_def split: option.split)

lemma envSteps_positive: "list_all keepsPositive (envSteps env)"
  unfolding envSteps_def list.pred_inject
  by (intro conjI TrueI keeps_withEnv keeps_whenParsed; simp add: keepsPositive_def positiveFields_def Let_def)

lemma fold_invariant': "(\<And>x c. x \<in> set xs \<Longrightarrow> P c \<Longrightarrow> P (f x c)) \<Longrightarrow> P c \<Longrightarrow> P (fold f xs c)"
  by (induction xs arbitrary: c) auto

lemma ConfigFromEnv_positive: "positiveFields (ConfigFromEnv env)"
  unfolding ConfigFromEnv_def
  by (rule fold_invariant' [where P = positiveFields]) (use envSteps_positive [of env] in
      \<open>auto simp: list_all_iff keepsPositive_def positiveFields_default\<close>)

end
