(* ===== verification/Metrics.thy ===== *)
theory Metrics
  imports Bid_Cache Bidder_Engine
begin

text \<open>
  \<open>Metrics\<close> of \<open>internal/ads/metrics.go\<close>: the counters, the two latency histograms with fixed
  buckets, and the text exposition as the string the handlers write.
\<close>

section \<open>Definitions\<close>

record Metrics =
  mAuctions :: uint64
  mFilled :: uint64
  mNoBid :: uint64
  mBadRequests :: uint64
  mBidMutations :: uint64
  mBidMutationErrors :: uint64
  mReadinessChecks :: uint64
  mReadinessFailures :: uint64
  mDecisionLogDropped :: uint64
  mServedStale :: uint64
  mStaleNoBid :: uint64
  mDynamicWins :: uint64
  mSelectionLatency :: "uint64 list"
  mHandlerLatency :: "uint64 list"

definition emptyHistogram :: "uint64 list" where
  "emptyHistogram = replicate 12 0"

definition emptyMetrics :: Metrics where
  "emptyMetrics =
    \<lparr>mAuctions = 0, mFilled = 0, mNoBid = 0, mBadRequests = 0, mBidMutations = 0, mBidMutationErrors = 0,
     mReadinessChecks = 0, mReadinessFailures = 0, mDecisionLogDropped = 0, mServedStale = 0,
     mStaleNoBid = 0, mDynamicWins = 0, mSelectionLatency = emptyHistogram,
     mHandlerLatency = emptyHistogram\<rparr>"

definition latencyUpperUS :: "int64 list" where
  "latencyUpperUS = [1, 2, 5, 10, 25, 50, 100, 250, 500, 1000, 5000, 10000]"

text \<open>The loop over the bounds: it increments the first bucket that fits and returns.\<close>

fun observeFrom :: "int64 list \<Rightarrow> int64 \<Rightarrow> uint64 list \<Rightarrow> uint64 list" where
  "observeFrom (upper # uppers) latencyUS (bucket # buckets) =
    (if latencyUS \<le>s upper then (bucket + 1) # buckets
     else bucket # observeFrom uppers latencyUS buckets)"
| "observeFrom _ _ buckets = buckets"

definition observeHistogram :: "int64 \<Rightarrow> uint64 list \<Rightarrow> uint64 list" where
  "observeHistogram latencyUS histogram = observeFrom latencyUpperUS latencyUS histogram"

definition Metrics_RecordAuction :: "bool \<Rightarrow> int64 \<Rightarrow> int64 \<Rightarrow> Metrics \<Rightarrow> Metrics" where
  "Metrics_RecordAuction filled selectionUS handlerUS m =
    (let m1 = m\<lparr>mAuctions := mAuctions m + 1\<rparr>;
         m2 = (if filled then m1\<lparr>mFilled := mFilled m1 + 1\<rparr> else m1\<lparr>mNoBid := mNoBid m1 + 1\<rparr>)
     in m2\<lparr>mSelectionLatency := observeHistogram selectionUS (mSelectionLatency m2),
           mHandlerLatency := observeHistogram handlerUS (mHandlerLatency m2)\<rparr>)"

text \<open>\<open>fmt.Fprintf(w, name + " %d\n", value)\<close>.\<close>

definition metricLine :: "string \<Rightarrow> uint64 \<Rightarrow> string" where
  "metricLine name v = name @ '' '' @ FormatUint v 10 @ [CHR 0x0A]"

fun cumulate :: "uint64 \<Rightarrow> uint64 list \<Rightarrow> uint64 list" where
  "cumulate cumulative [] = []"
| "cumulate cumulative (bucket # buckets) = (cumulative + bucket) # cumulate (cumulative + bucket) buckets"

definition bucketLine :: "string \<Rightarrow> string \<Rightarrow> uint64 \<Rightarrow> string" where
  "bucketLine name upper v = metricLine (name @ ''_bucket{le='' @ [CHR 0x22] @ upper @ [CHR 0x22] @ ''}'') v"

definition writeHistogram :: "string \<Rightarrow> uint64 list \<Rightarrow> uint64 \<Rightarrow> string" where
  "writeHistogram name histogram totalCount =
     concat (map2 (\<lambda>upper v. bucketLine name (FormatInt upper) v) latencyUpperUS (cumulate 0 histogram))
     @ bucketLine name ''+Inf'' totalCount @ metricLine (name @ ''_count'') totalCount"

definition Metrics_Handler :: "Metrics \<Rightarrow> string" where
  "Metrics_Handler m =
     metricLine ''adserver_auctions_total'' (mAuctions m)
     @ metricLine ''adserver_fills_total'' (mFilled m)
     @ metricLine ''adserver_no_bid_total'' (mNoBid m)
     @ metricLine ''adserver_bad_requests_total'' (mBadRequests m)
     @ metricLine ''adserver_bid_mutations_total'' (mBidMutations m)
     @ metricLine ''adserver_bid_mutation_errors_total'' (mBidMutationErrors m)
     @ metricLine ''adserver_readiness_checks_total'' (mReadinessChecks m)
     @ metricLine ''adserver_readiness_failures_total'' (mReadinessFailures m)
     @ metricLine ''adserver_decision_log_dropped_total'' (mDecisionLogDropped m)
     @ metricLine ''adserver_served_stale_total'' (mServedStale m)
     @ metricLine ''adserver_stale_snapshot_no_bid_total'' (mStaleNoBid m)
     @ metricLine ''adserver_dynamic_bid_wins_total'' (mDynamicWins m)
     @ writeHistogram ''adserver_auction_selection_latency_microseconds'' (mSelectionLatency m) (mAuctions m)
     @ writeHistogram ''adserver_auction_handler_latency_microseconds'' (mHandlerLatency m) (mAuctions m)"

definition writeCacheMetrics :: "CacheStats \<Rightarrow> string" where
  "writeCacheMetrics stats =
     metricLine ''adserver_cache_refresh_total'' (statRefreshes stats)
     @ metricLine ''adserver_cache_refresh_failures_total'' (statRefreshFailures stats)
     @ metricLine ''adserver_cache_reconciliations_total'' (statReconciliations stats)
     @ metricLine ''adserver_cache_reconcile_failures_total'' (statReconcileFailures stats)
     @ metricLine ''adserver_cache_subscription_failures_total'' (statSubscriptionFailures stats)
     @ metricLine ''adserver_cache_placements'' (statPlacements stats)
     @ metricLine ''adserver_cache_refresh_inflight'' (statInflightRefreshes stats)"

definition writeBidderMetrics :: "BidderEngineStats \<Rightarrow> string" where
  "writeBidderMetrics stats =
     metricLine ''adserver_dynamic_bid_cache_hits_total'' (besCacheHits stats)
     @ metricLine ''adserver_dynamic_bid_cache_full_total'' (besCacheFull stats)
     @ metricLine ''adserver_dynamic_bid_refreshes_total'' (besRefreshes stats)
     @ metricLine ''adserver_dynamic_bid_refresh_skipped_total'' (besRefreshSkipped stats)
     @ metricLine ''adserver_dynamic_bid_fanout_skipped_total'' (besFanoutSkipped stats)
     @ metricLine ''adserver_dynamic_bid_circuit_open_total'' (besCircuitOpen stats)
     @ metricLine ''adserver_dynamic_bid_timeouts_total'' (besTimeouts stats)
     @ metricLine ''adserver_dynamic_bid_failures_total'' (besFailures stats)"

section \<open>Histograms bucket what they claim\<close>

definition countAtMost :: "int64 \<Rightarrow> int64 list \<Rightarrow> nat" where
  "countAtMost upper samples = length (filter (\<lambda>x. x \<le>s upper) samples)"

lemma length_observeFrom [simp]: "length (observeFrom uppers x buckets) = length buckets"
  by (induction uppers x buckets rule: observeFrom.induct) simp_all

lemma length_cumulate [simp]: "length (cumulate c buckets) = length buckets"
  by (induction c buckets rule: cumulate.induct) simp_all

lemma cumulate_add: "cumulate (c + d) buckets = map (\<lambda>v. v + d) (cumulate c buckets)"
  by (induction buckets arbitrary: c) (simp_all add: algebra_simps, metis add.assoc add.commute)

text \<open>One observation adds one to the cumulative bucket of every bound it does not exceed.\<close>

lemma cumulate_observeFrom:
  assumes "sorted_wrt (\<lambda>a b. sint a \<le> sint b) uppers" and "length buckets = length uppers"
    and "i < length uppers"
  shows "cumulate c (observeFrom uppers x buckets) ! i =
    cumulate c buckets ! i + (if x \<le>s uppers ! i then 1 else 0)"
  using assms
proof (induction uppers x buckets arbitrary: c i rule: observeFrom.induct)
  case (1 upper uppers x bucket buckets)
  show ?case
  proof (cases "x \<le>s upper")
    case True
    have "sint upper \<le> sint ((upper # uppers) ! i)"
      using 1(2,4) by (cases i) simp_all
    with True have "x \<le>s (upper # uppers) ! i" by (simp add: i64_simps)
    with True show ?thesis
      using 1(3,4) cumulate_add [of "c + bucket" 1 buckets] by (cases i) (simp_all add: algebra_simps)
  next
    case False
    with 1 show ?thesis by (cases i) simp_all
  qed
qed simp_all

lemma observe_all_length: "length (fold observeHistogram samples histogram) = length histogram"
  by (induction samples arbitrary: histogram) (simp_all add: observeHistogram_def)

lemma latencyUpperUS_sorted: "sorted_wrt (\<lambda>a b. sint a \<le> sint b) latencyUpperUS"
  by (simp add: latencyUpperUS_def)

lemma cumulate_observe_all:
  assumes "length histogram = 12" and "i < 12"
  shows "cumulate 0 (fold observeHistogram samples histogram) ! i =
    cumulate 0 histogram ! i + of_nat (countAtMost (latencyUpperUS ! i) samples)"
  using assms(1)
proof (induction samples arbitrary: histogram)
  case (Cons x samples)
  have "cumulate 0 (observeHistogram x histogram) ! i =
      cumulate 0 histogram ! i + (if x \<le>s latencyUpperUS ! i then 1 else 0)"
    unfolding observeHistogram_def using Cons.prems assms(2)
    by (intro cumulate_observeFrom latencyUpperUS_sorted) (simp_all add: latencyUpperUS_def)
  moreover have "length (observeHistogram x histogram) = 12"
    using Cons.prems by (simp add: observeHistogram_def)
  ultimately show ?case using Cons.IH by (simp add: countAtMost_def)
qed (simp add: countAtMost_def)

lemma cumulate_zero: "cumulate 0 (replicate n 0) = replicate n 0"
  by (induction n) simp_all

section \<open>Properties\<close>

text \<open>The auctions a server has recorded, oldest first.\<close>

definition recordAll :: "(bool \<times> int64 \<times> int64) list \<Rightarrow> Metrics" where
  "recordAll auctions =
    fold (\<lambda>(filled, selectionUS, handlerUS). Metrics_RecordAuction filled selectionUS handlerUS) auctions
      emptyMetrics"

lemma recordAll_snoc:
  "recordAll (auctions @ [(filled, selectionUS, handlerUS)]) =
    Metrics_RecordAuction filled selectionUS handlerUS (recordAll auctions)"
  by (simp add: recordAll_def)

lemma RecordAuction_sel [simp]:
  "mAuctions (Metrics_RecordAuction f s h m) = mAuctions m + 1"
  "mFilled (Metrics_RecordAuction f s h m) = mFilled m + (if f then 1 else 0)"
  "mNoBid (Metrics_RecordAuction f s h m) = mNoBid m + (if f then 0 else 1)"
  "mSelectionLatency (Metrics_RecordAuction f s h m) = observeHistogram s (mSelectionLatency m)"
  "mHandlerLatency (Metrics_RecordAuction f s h m) = observeHistogram h (mHandlerLatency m)"
  by (simp_all add: Metrics_RecordAuction_def Let_def)

lemma recordAll_sel:
  "mAuctions (recordAll auctions) = of_nat (length auctions)"
  "mFilled (recordAll auctions) = of_nat (length (filter fst auctions))"
  "mNoBid (recordAll auctions) = of_nat (length (filter (\<lambda>a. \<not> fst a) auctions))"
  "mSelectionLatency (recordAll auctions) = fold observeHistogram (map (fst \<circ> snd) auctions) emptyHistogram"
  "mHandlerLatency (recordAll auctions) = fold observeHistogram (map (snd \<circ> snd) auctions) emptyHistogram"
  by (induction auctions rule: rev_induct)
    (auto simp: recordAll_snoc algebra_simps, simp_all add: recordAll_def emptyMetrics_def)

text \<open>
  C35: the auction metrics bucket what happened. After every sequence of recorded auctions (modulo the
  64-bit counters) \<open>auctions\<close> is the number of auctions, \<open>filled\<close> and \<open>no_bid\<close> split it, and every
  cumulative bucket of both exported histograms is the number of auctions whose latency does not
  exceed its bound.
\<close>

theorem metrics_count_auctions:
  "mAuctions (recordAll auctions) = of_nat (length auctions)
    \<and> mFilled (recordAll auctions) = of_nat (length (filter fst auctions))
    \<and> mFilled (recordAll auctions) + mNoBid (recordAll auctions) = mAuctions (recordAll auctions)
    \<and> (\<forall>i < 12. cumulate 0 (mSelectionLatency (recordAll auctions)) ! i =
          of_nat (countAtMost (latencyUpperUS ! i) (map (fst \<circ> snd) auctions))
        \<and> cumulate 0 (mHandlerLatency (recordAll auctions)) ! i =
          of_nat (countAtMost (latencyUpperUS ! i) (map (snd \<circ> snd) auctions)))"
proof -
  have "mFilled (recordAll auctions) + mNoBid (recordAll auctions) = mAuctions (recordAll auctions)"
    by (simp only: recordAll_sel sum_length_filter_compl flip: of_nat_add)
  moreover have "cumulate 0 (fold observeHistogram samples emptyHistogram) ! i =
      of_nat (countAtMost (latencyUpperUS ! i) samples)" if "i < 12" for i samples
    using cumulate_observe_all [of emptyHistogram i samples] that
    by (simp add: emptyHistogram_def cumulate_zero)
  ultimately show ?thesis by (simp add: recordAll_sel)
qed

theorem metrics_count_auctions_witness:
  "cumulate 0 (mSelectionLatency (recordAll [(True, 3, 40), (False, 7, 60)])) ! 2 = 1"
  using metrics_count_auctions [of "[(True, 3, 40), (False, 7, 60)]"]
  by (simp add: countAtMost_def latencyUpperUS_def i64_simps)

end
