(* ===== verification/Decision_Log.thy ===== *)
theory Decision_Log
  imports Bid_Types
begin

text \<open>
  \<open>DecisionLogger\<close> of \<open>internal/ads/decision_log.go\<close>: a bounded queue between the auction handlers and
  one writer goroutine. The entries channel is the list of its buffered values, \<open>dlWritten\<close> is what
  the goroutine has passed to the logger so far, and \<open>None\<close> is the nil logger of a disabled log. A
  send on a closed channel panics, also inside \<open>select\<close>.
\<close>

section \<open>Definitions\<close>

record DecisionLog =
  logRequestID :: string
  logPlacementID :: string
  logPricingModel :: PricingModel
  logEligibleCandidates :: int64
  logWinnerBidID :: string
  logWinnerDealID :: string
  logWinnerPriority :: int64
  logEffectivePriceMicros :: int64
  logClearingPriceMicros :: int64
  logNoBidReason :: string
  logServedStale :: bool
  logSnapshotAgeMS :: int64
  logDynamicBidderID :: string

record DecisionLogger =
  dlEntries :: "DecisionLog list"
  dlBuffer :: nat
  dlClosed :: bool
  dlDropped :: uint64
  dlWritten :: "DecisionLog list"

datatype 'a panicking = Returns 'a | Panics

definition NewDecisionLogger :: "bool \<Rightarrow> int64 \<Rightarrow> DecisionLogger option" where
  "NewDecisionLogger enabled buffer =
    (if \<not> enabled then None
     else
       let size = (if buffer <s 1 then 4096 else buffer) in
       Some \<lparr>dlEntries = [], dlBuffer = nat (sint size), dlClosed = False, dlDropped = 0, dlWritten = []\<rparr>)"

definition DecisionLogger_Record ::
    "DecisionLog \<Rightarrow> DecisionLogger option \<Rightarrow> (bool \<times> DecisionLogger option) panicking" where
  "DecisionLogger_Record entry d =
    (case d of
       None \<Rightarrow> Returns (True, None)
     | Some l \<Rightarrow>
         if dlClosed l then Panics
         else if length (dlEntries l) < dlBuffer l
         then Returns (True, Some (l\<lparr>dlEntries := dlEntries l @ [entry]\<rparr>))
         else Returns (False, Some (l\<lparr>dlDropped := dlDropped l + 1\<rparr>)))"

definition DecisionLogger_Dropped :: "DecisionLogger option \<Rightarrow> uint64" where
  "DecisionLogger_Dropped d = (case d of None \<Rightarrow> 0 | Some l \<Rightarrow> dlDropped l)"

text \<open>One turn of the writer's loop; with an empty queue it waits.\<close>

definition DecisionLogger_run :: "DecisionLogger \<Rightarrow> DecisionLogger" where
  "DecisionLogger_run l =
    (case dlEntries l of
       [] \<Rightarrow> l
     | entry # rest \<Rightarrow> l\<lparr>dlEntries := rest, dlWritten := dlWritten l @ [entry]\<rparr>)"

text \<open>\<open>Close\<close> closes the channel once and waits until the writer has drained it.\<close>

function drain :: "DecisionLogger \<Rightarrow> DecisionLogger" where
  "drain l = (if dlEntries l = [] then l else drain (DecisionLogger_run l))"
  by pat_completeness auto
termination
  by (relation "measure (\<lambda>l. length (dlEntries l))")
    (auto simp: DecisionLogger_run_def split: list.split)

declare drain.simps [simp del]

definition DecisionLogger_Close :: "DecisionLogger option \<Rightarrow> DecisionLogger option" where
  "DecisionLogger_Close d =
    (case d of
       None \<Rightarrow> None
     | Some l \<Rightarrow> if dlClosed l then Some l else Some (drain (l\<lparr>dlClosed := True\<rparr>)))"

section \<open>Executions\<close>

text \<open>Calls to \<open>Record\<close> from the handlers interleaved with turns of the writer.\<close>

datatype logEvent = LRecord DecisionLog | LWrite

fun logStep :: "logEvent \<Rightarrow> DecisionLogger \<Rightarrow> DecisionLogger" where
  "logStep (LRecord entry) l =
    (case DecisionLogger_Record entry (Some l) of Returns (_, Some l') \<Rightarrow> l' | _ \<Rightarrow> l)"
| "logStep LWrite l = DecisionLogger_run l"

text \<open>The entries that \<open>Record\<close> accepted, in order.\<close>

fun accepted :: "logEvent list \<Rightarrow> DecisionLogger \<Rightarrow> DecisionLog list" where
  "accepted [] l = []"
| "accepted (LRecord entry # es) l =
    (if length (dlEntries l) < dlBuffer l then [entry] else []) @ accepted es (logStep (LRecord entry) l)"
| "accepted (LWrite # es) l = accepted es (logStep LWrite l)"

fun recorded :: "logEvent list \<Rightarrow> nat" where
  "recorded [] = 0"
| "recorded (LRecord entry # es) = Suc (recorded es)"
| "recorded (LWrite # es) = recorded es"

lemma Record_open:
  "\<not> dlClosed l \<Longrightarrow> logStep (LRecord entry) l =
    (if length (dlEntries l) < dlBuffer l then l\<lparr>dlEntries := dlEntries l @ [entry]\<rparr>
     else l\<lparr>dlDropped := dlDropped l + 1\<rparr>)"
  by (simp add: DecisionLogger_Record_def)

lemma run_sel [simp]:
  "dlBuffer (DecisionLogger_run l) = dlBuffer l" "dlClosed (DecisionLogger_run l) = dlClosed l"
  "dlDropped (DecisionLogger_run l) = dlDropped l"
  "dlWritten (DecisionLogger_run l) @ dlEntries (DecisionLogger_run l) = dlWritten l @ dlEntries l"
  "length (dlEntries (DecisionLogger_run l)) \<le> length (dlEntries l)"
  by (simp_all add: DecisionLogger_run_def split: list.split)

text \<open>Nothing accepted is lost, reordered or written twice, and every refusal is counted.\<close>

lemma log_run:
  assumes "\<not> dlClosed l" and "length (dlEntries l) \<le> dlBuffer l"
  shows "dlWritten (fold logStep es l) @ dlEntries (fold logStep es l) =
      dlWritten l @ dlEntries l @ accepted es l
    \<and> dlDropped (fold logStep es l) + of_nat (length (accepted es l)) = dlDropped l + of_nat (recorded es)
    \<and> length (dlEntries (fold logStep es l)) \<le> dlBuffer l \<and> \<not> dlClosed (fold logStep es l)"
  using assms
proof (induction es arbitrary: l)
  case (Cons x es)
  show ?case
  proof (cases x)
    case LWrite
    have "length (dlEntries (DecisionLogger_run l)) \<le> dlBuffer l"
      using Cons.prems(2) run_sel(5) [of l] by linarith
    with Cons.IH [of "DecisionLogger_run l"] Cons.prems LWrite run_sel(4) [of l] show ?thesis
      by (simp flip: append_assoc)
  next
    case (LRecord entry)
    show ?thesis
    proof (cases "length (dlEntries l) < dlBuffer l")
      case True
      with Cons.IH [of "l\<lparr>dlEntries := dlEntries l @ [entry]\<rparr>"] Cons.prems LRecord show ?thesis
        by (simp add: Record_open add.left_commute del: logStep.simps(1))
    next
      case False
      with Cons.IH [of "l\<lparr>dlDropped := dlDropped l + 1\<rparr>"] Cons.prems LRecord show ?thesis
        by (simp add: Record_open add.assoc del: logStep.simps(1))
    qed
  qed
qed simp

lemma drain_sel:
  "dlEntries (drain l) = [] \<and> dlWritten (drain l) = dlWritten l @ dlEntries l
   \<and> dlClosed (drain l) = dlClosed l \<and> dlDropped (drain l) = dlDropped l"
proof (induction l rule: drain.induct)
  case (1 l)
  show ?case
  proof (cases "dlEntries l = []")
    case False
    with 1 run_sel(4) [of l] show ?thesis by (subst (1 2 3 4) drain.simps) simp
  qed (simp add: drain.simps)
qed

lemma NewDecisionLogger_Some:
  assumes "NewDecisionLogger enabled buffer = Some l"
  shows "\<not> dlClosed l" "dlEntries l = []" "dlWritten l = []" "dlDropped l = 0" "0 < dlBuffer l"
    "int (dlBuffer l) = (if 1 \<le> sint buffer then sint buffer else 4096)"
  using assms by (auto simp: NewDecisionLogger_def Let_def i64_simps split: if_splits)

section \<open>Properties\<close>

text \<open>
  C34: the decision log is a bounded first-in first-out queue. For every interleaving of \<open>Record\<close> calls
  with the writer, followed by \<open>Close\<close>, exactly the accepted entries have been written, in order; the
  queue never exceeded its buffer; and the drop counter plus the accepted entries is the number of
  calls (modulo the 64-bit counter).
\<close>

theorem decision_log_fifo:
  assumes "NewDecisionLogger enabled buffer = Some l"
  shows "\<exists>l'. DecisionLogger_Close (Some (fold logStep es l)) = Some l'
    \<and> dlWritten l' = accepted es l \<and> dlEntries l' = []
    \<and> dlDropped l' + of_nat (length (accepted es l)) = of_nat (recorded es)
    \<and> int (length (dlEntries (fold logStep es l))) \<le> (if 1 \<le> sint buffer then sint buffer else 4096)"
proof -
  note new = NewDecisionLogger_Some [OF assms]
  let ?l = "fold logStep es l"
  from log_run [of l es] new have run: "dlWritten ?l @ dlEntries ?l = accepted es l" "\<not> dlClosed ?l"
    "dlDropped ?l + of_nat (length (accepted es l)) = of_nat (recorded es)"
    "length (dlEntries ?l) \<le> dlBuffer l" by simp_all
  have "int (length (dlEntries ?l)) \<le> (if 1 \<le> sint buffer then sint buffer else 4096)"
    using run(4) new(6) by linarith
  then show ?thesis
    using run(1-3) drain_sel [of "?l\<lparr>dlClosed := True\<rparr>"] by (simp add: DecisionLogger_Close_def)
qed

definition exampleEntry :: DecisionLog where
  "exampleEntry =
    \<lparr>logRequestID = ''a-1'', logPlacementID = ''p'', logPricingModel = FirstPrice,
     logEligibleCandidates = 0, logWinnerBidID = [], logWinnerDealID = [], logWinnerPriority = 0,
     logEffectivePriceMicros = 0, logClearingPriceMicros = 0, logNoBidReason = ''cold_cache'',
     logServedStale = False, logSnapshotAgeMS = 0, logDynamicBidderID = []\<rparr>"

definition exampleLogger :: DecisionLogger where
  "exampleLogger = \<lparr>dlEntries = [], dlBuffer = 1, dlClosed = False, dlDropped = 0, dlWritten = []\<rparr>"

lemma exampleLogger_new: "NewDecisionLogger True 1 = Some exampleLogger"
  by (simp add: NewDecisionLogger_def exampleLogger_def i64_simps Let_def)

theorem decision_log_fifo_witness:
  "\<exists>l'. DecisionLogger_Close (Some (fold logStep [LRecord exampleEntry, LRecord exampleEntry] exampleLogger))
      = Some l' \<and> dlWritten l' = [exampleEntry] \<and> dlDropped l' + 1 = 2"
  using decision_log_fifo [OF exampleLogger_new, of "[LRecord exampleEntry, LRecord exampleEntry]"]
  by (auto simp: exampleLogger_def DecisionLogger_Record_def)

text \<open>
  Recording after \<open>Close\<close> panics, because the closed channel is still the target of the send.
\<close>

theorem record_after_close_panics:
  assumes "NewDecisionLogger enabled buffer = Some l"
  shows "DecisionLogger_Record entry (DecisionLogger_Close (Some (fold logStep es l))) = Panics"
proof -
  have "dlClosed (drain (fold logStep es l\<lparr>dlClosed := True\<rparr>))" by (simp add: drain_sel)
  then show ?thesis by (simp add: DecisionLogger_Close_def DecisionLogger_Record_def)
qed

theorem record_after_close_panics_witness:
  "DecisionLogger_Record exampleEntry (DecisionLogger_Close (Some exampleLogger)) = Panics"
  using record_after_close_panics [OF exampleLogger_new, of exampleEntry "[]"] by simp

end
