(* ===== verification/Server.thy ===== *)
theory Server
  imports Auctioneer Config Metrics Decision_Log
begin

text \<open>
  \<open>Server\<close> of \<open>internal/ads/server.go\<close>: the HTTP handlers over the store, the snapshot cache, the
  auctioneer, the DSP engine, the metrics and the decision log. A handler maps a request and the
  server's state to a response and the new state; the clock readings are arguments.

  A \<open>Request\<close> holds what the handlers read from it; the theory \<open>Routing\<close> says how it comes from the
  method, the path and the query.
  \<open>decodeRequest\<close> and \<open>decodeBid\<close> stand for \<open>encoding/json\<close> with unknown fields disallowed, applied to
  a body that holds one value and nothing else.
\<close>

section \<open>Requests, responses and state\<close>

record Request =
  rqBody :: string
  rqAuthorization :: string
  rqXRequestID :: string
  rqPathID :: string
  rqPlacement :: string
  rqRevision :: string

datatype responseBody =
    ErrorBody string
  | StatusBody string
  | StoreErrorBody store_error
  | AuctionBody AuctionResponse
  | BidBody Bid
  | TextBody string
  | EmptyBody

record Response =
  rsStatus :: nat
  rsHeaders :: "(string \<times> string) list"
  rsBody :: responseBody

record 's Server =
  srvConfig :: Config
  srvStore :: 's
  srvCache :: BidCache
  srvPolicy :: AuctionPolicy
  srvMetrics :: Metrics
  srvDecisionLogger :: "DecisionLogger option"
  srvBidderEngine :: "engineSystem option"
  srvRequestNumber :: uint64

definition NewServer :: "Config \<Rightarrow> 's \<Rightarrow> BidCache \<Rightarrow> 's Server" where
  "NewServer config store cache =
    \<lparr>srvConfig = config, srvStore = store, srvCache = cache,
     srvPolicy = NewAuctioneerWithPolicy (cfgAuctionPolicy config), srvMetrics = emptyMetrics,
     srvDecisionLogger = NewDecisionLogger (cfgDecisionLogging config) (cfgDecisionLogBuffer config),
     srvBidderEngine = None, srvRequestNumber = 0\<rparr>"

definition Server_Close :: "'s Server \<Rightarrow> 's Server" where
  "Server_Close s = s\<lparr>srvDecisionLogger := DecisionLogger_Close (srvDecisionLogger s)\<rparr>"

definition Server_SetBidderEngine :: "BidderEngine \<Rightarrow> 's Server \<Rightarrow> 's Server" where
  "Server_SetBidderEngine engine s = s\<lparr>srvBidderEngine := Some (initEngineSystem engine)\<rparr>"

section \<open>Helpers\<close>

definition writeJSON :: "nat \<Rightarrow> responseBody \<Rightarrow> Response" where
  "writeJSON status b =
    \<lparr>rsStatus = status, rsHeaders = [(''Content-Type'', ''application/json'')], rsBody = b\<rparr>"

text \<open>
  \<open>decodeJSON\<close> reads through \<open>http.MaxBytesReader\<close>; the second \<open>Decode\<close> has to reach the end of the
  body, so a body over the limit is refused whatever it starts with.
\<close>

definition decodeJSON :: "(string \<Rightarrow> 'a option) \<Rightarrow> Request \<Rightarrow> 'a option" where
  "decodeJSON decode r = (if 65536 < length (rqBody r) then None else decode (rqBody r))"

definition Server_authorized :: "Request \<Rightarrow> 's Server \<Rightarrow> bool" where
  "Server_authorized r s =
    (if cfgAdminToken (srvConfig s) = [] then True
     else
       let provided = TrimPrefix (rqAuthorization r) ''Bearer '' in
       length provided = length (cfgAdminToken (srvConfig s)) \<and> provided = cfgAdminToken (srvConfig s))"

definition Server_requestID :: "Request \<Rightarrow> 's Server \<Rightarrow> string \<times> 's Server" where
  "Server_requestID r s =
    (if rqXRequestID r \<noteq> [] then (rqXRequestID r, s)
     else
       let n = srvRequestNumber s + 1 in
       (''a-'' @ FormatUint n 36, s\<lparr>srvRequestNumber := n\<rparr>))"

text \<open>\<open>Duration.Milliseconds\<close> and \<open>Duration.Microseconds\<close> truncate.\<close>

definition Milliseconds :: "duration \<Rightarrow> int64" where
  "Milliseconds d = i64_div d 1000000"

definition Microseconds :: "duration \<Rightarrow> int64" where
  "Microseconds d = i64_div d 1000"

definition onMetrics :: "(Metrics \<Rightarrow> Metrics) \<Rightarrow> 's Server \<Rightarrow> 's Server" where
  "onMetrics f s = s\<lparr>srvMetrics := f (srvMetrics s)\<rparr>"

section \<open>Handlers\<close>

definition decisionEntry :: "string \<Rightarrow> string \<Rightarrow> AuctionDecision \<Rightarrow> PricingModel \<Rightarrow> DecisionLog" where
  "decisionEntry requestId placementId decision model =
    \<lparr>logRequestID = requestId, logPlacementID = placementId, logPricingModel = model,
     logEligibleCandidates = decEligibleCandidates decision,
     logWinnerBidID = (case decBid decision of None \<Rightarrow> [] | Some b \<Rightarrow> bidID b),
     logWinnerDealID = (case decBid decision of None \<Rightarrow> [] | Some b \<Rightarrow> bidDealID b),
     logWinnerPriority = (case decBid decision of None \<Rightarrow> 0 | Some b \<Rightarrow> bidPriority b),
     logEffectivePriceMicros = decEffectivePriceMicros decision,
     logClearingPriceMicros = decClearingPriceMicros decision, logNoBidReason = decNoBidReason decision,
     logServedStale = decServedStale decision, logSnapshotAgeMS = Milliseconds (decSnapshotAge decision),
     logDynamicBidderID = decDynamicBidderID decision\<rparr>"

definition Server_recordDecision ::
    "string \<Rightarrow> string \<Rightarrow> AuctionDecision \<Rightarrow> 's Server \<Rightarrow> 's Server panicking" where
  "Server_recordDecision requestId placementId decision s =
    (if srvDecisionLogger s = None then Returns s
     else
       case DecisionLogger_Record
           (decisionEntry requestId placementId decision (policyPricingModel (srvPolicy s)))
           (srvDecisionLogger s) of
         Panics \<Rightarrow> Panics
       | Returns (ok, logger) \<Rightarrow>
           let s1 = s\<lparr>srvDecisionLogger := logger\<rparr> in
           Returns (if \<not> ok then onMetrics (\<lambda>m. m\<lparr>mDecisionLogDropped := mDecisionLogDropped m + 1\<rparr>) s1
                    else s1))"

text \<open>The clock readings of one auction request, in the order the code takes them.\<close>

record auctionClock =
  ckStarted :: time
  ckSelectionStarted :: time
  ckLookup :: time
  ckTrigger :: time
  ckRead :: time
  ckNow :: time
  ckSelected :: time
  ckDone :: time

text \<open>\<open>Lookup\<close> and \<open>Trigger\<close> of the DSP engine, when there is one.\<close>

definition consultEngine ::
    "auctionClock \<Rightarrow> AuctionRequest \<Rightarrow> 's Server \<Rightarrow> DynamicBid list \<times> 's Server" where
  "consultEngine ck request s =
    (case srvBidderEngine s of
       None \<Rightarrow> ([], s)
     | Some y \<Rightarrow>
         let (found, e1) = BidderEngine_Lookup (ckLookup ck) request (esEngine y);
             (goroutine, e2) = BidderEngine_Trigger (ckTrigger ck) request e1;
             y1 = (case goroutine of
                     None \<Rightarrow> y\<lparr>esEngine := e2\<rparr>
                   | Some (k, dsp) \<Rightarrow> setTask k (startRefresh dsp e2) y)
         in (case found of None \<Rightarrow> [] | Some bids \<Rightarrow> bids, s\<lparr>srvBidderEngine := Some y1\<rparr>))"

definition auctionResponse ::
    "string \<Rightarrow> PricingModel \<Rightarrow> int64 \<Rightarrow> AuctionDecision \<Rightarrow> AuctionResponse" where
  "auctionResponse requestId model latencyUS decision =
    (let filled = AuctionDecision_Filled decision in
     \<lparr>respRequestID = requestId, respStatus = (if filled then ''filled'' else ''no_bid''),
      respPricingModel = model, respBid = (if filled then decBid decision else None),
      respEffectivePriceMicros = (if filled then decEffectivePriceMicros decision else 0),
      respClearingPriceMicros = (if filled then decClearingPriceMicros decision else 0),
      respNoBidReason = decNoBidReason decision, respServedStale = decServedStale decision,
      respSnapshotAgeMS = Milliseconds (decSnapshotAge decision),
      respDynamicBidderID = (if filled then decDynamicBidderID decision else []),
      respSelectionLatencyUS = latencyUS\<rparr>)"

definition auctionCounters :: "AuctionDecision \<Rightarrow> Metrics \<Rightarrow> Metrics" where
  "auctionCounters decision m =
    (let m1 = (if decServedStale decision then m\<lparr>mServedStale := mServedStale m + 1\<rparr> else m);
         m2 = (if decNoBidReason decision = ''stale_snapshot''
               then m1\<lparr>mStaleNoBid := mStaleNoBid m1 + 1\<rparr> else m1)
     in if decDynamicBidderID decision \<noteq> [] then m2\<lparr>mDynamicWins := mDynamicWins m2 + 1\<rparr> else m2)"

text \<open>
  The deferred call records the auction also when the handler panics; the panic itself ends the
  request without a response.
\<close>

definition Server_auction ::
    "(string \<Rightarrow> AuctionRequest option) \<Rightarrow> auctionClock \<Rightarrow> Request \<Rightarrow> 's Server
       \<Rightarrow> Response panicking \<times> 's Server" where
  "Server_auction decodeRequest ck r s =
    (let bad = (Returns (writeJSON 400 (ErrorBody ''invalid auction request'')),
                onMetrics (\<lambda>m. m\<lparr>mBadRequests := mBadRequests m + 1\<rparr>) s) in
     case decodeJSON decodeRequest r of
       None \<Rightarrow> bad
     | Some request \<Rightarrow>
         if \<not> AuctionRequest_Validate request then bad
         else
           let (dynamic, s1) = consultEngine ck request s;
               (decision, cache) =
                 Auctioneer_RunWithDynamic (srvPolicy s1) (ckRead ck) (ckNow ck) request dynamic (srvCache s1);
               filled = AuctionDecision_Filled decision;
               latencyUS = Microseconds (time_Sub (ckSelected ck) (ckSelectionStarted ck));
               (requestId, s2) = Server_requestID r (s1\<lparr>srvCache := cache\<rparr>);
               response = auctionResponse requestId (policyPricingModel (srvPolicy s2)) latencyUS decision;
               s3 = onMetrics (auctionCounters decision) s2;
               finish = onMetrics (Metrics_RecordAuction filled latencyUS
                          (Microseconds (time_Sub (ckDone ck) (ckStarted ck))))
           in case Server_recordDecision requestId (reqPlacementID request) decision s3 of
                Panics \<Rightarrow> (Panics, finish s3)
              | Returns s4 \<Rightarrow> (Returns (writeJSON 200 (AuctionBody response)), finish s4))"

definition Server_upsertBid ::
    "'s BidStore \<Rightarrow> (string \<Rightarrow> Bid option) \<Rightarrow> Request \<Rightarrow> 's Server \<Rightarrow> Response \<times> 's Server" where
  "Server_upsertBid S decodeBid r s =
    (let bad = (writeJSON 400 (ErrorBody ''invalid bid or bid id''),
                onMetrics (\<lambda>m. m\<lparr>mBadRequests := mBadRequests m + 1\<rparr>) s) in
     if \<not> Server_authorized r s then (writeJSON 401 (ErrorBody ''unauthorized''), s)
     else
       case decodeJSON decodeBid r of
         None \<Rightarrow> bad
       | Some bid0 \<Rightarrow>
           let bid = Bid_Normalize bid0 in
           if bidID bid \<noteq> rqPathID r \<or> Bid_Validate bid \<noteq> None then bad
           else
             let s1 = onMetrics (\<lambda>m. m\<lparr>mBidMutations := mBidMutations m + 1\<rparr>) s;
                 failed = onMetrics (\<lambda>m. m\<lparr>mBidMutationErrors := mBidMutationErrors m + 1\<rparr>)
             in case storeUpsert S bid (srvStore s1) of
                  (Some e, st) \<Rightarrow>
                    (if e = ErrStaleBidRevision
                     then (writeJSON 409 (ErrorBody ''stale bid revision''), failed (s1\<lparr>srvStore := st\<rparr>))
                     else (writeJSON 503 (ErrorBody ''bid registry unavailable''), failed (s1\<lparr>srvStore := st\<rparr>)))
                | (None, st) \<Rightarrow>
                    (writeJSON 200 (BidBody bid),
                     s1\<lparr>srvStore := st, srvCache := BidCache_RefreshAsync (bidPlacementID bid) (srvCache s1)\<rparr>))"

definition Server_deleteBid ::
    "'s BidStore \<Rightarrow> Request \<Rightarrow> 's Server \<Rightarrow> Response \<times> 's Server" where
  "Server_deleteBid S r s =
    (if \<not> Server_authorized r s then (writeJSON 401 (ErrorBody ''unauthorized''), s)
     else
       case ParseUint (rqRevision r) of
         None \<Rightarrow> (writeJSON 400 (ErrorBody ''revision query parameter is required''), s)
       | Some revision \<Rightarrow>
           let s1 = onMetrics (\<lambda>m. m\<lparr>mBidMutations := mBidMutations m + 1\<rparr>) s;
               failed = onMetrics (\<lambda>m. m\<lparr>mBidMutationErrors := mBidMutationErrors m + 1\<rparr>)
           in case storeDelete S (rqPlacement r) (rqPathID r) revision (srvStore s1) of
                (Some e, st) \<Rightarrow>
                  (if e = ErrStaleBidRevision
                   then (writeJSON 409 (ErrorBody ''stale bid revision''), failed (s1\<lparr>srvStore := st\<rparr>))
                   else (writeJSON 400 (StoreErrorBody e), failed (s1\<lparr>srvStore := st\<rparr>)))
              | (None, st) \<Rightarrow>
                  (\<lparr>rsStatus = 204, rsHeaders = [], rsBody = EmptyBody\<rparr>,
                   s1\<lparr>srvStore := st, srvCache := BidCache_RefreshAsync (rqPlacement r) (srvCache s1)\<rparr>))"

definition Server_health :: "'s Server \<Rightarrow> Response \<times> 's Server" where
  "Server_health s = (writeJSON 200 (StatusBody ''ok''), s)"

definition Server_ready :: "'s BidStore \<Rightarrow> 's Server \<Rightarrow> Response \<times> 's Server" where
  "Server_ready S s =
    (let s1 = onMetrics (\<lambda>m. m\<lparr>mReadinessChecks := mReadinessChecks m + 1\<rparr>) s in
     case storePing S (srvStore s1) of
       (Some e, st) \<Rightarrow>
         (writeJSON 503 (StatusBody ''redis unavailable''),
          onMetrics (\<lambda>m. m\<lparr>mReadinessFailures := mReadinessFailures m + 1\<rparr>) (s1\<lparr>srvStore := st\<rparr>))
     | (None, st) \<Rightarrow> (writeJSON 200 (StatusBody ''ready''), s1\<lparr>srvStore := st\<rparr>))"

definition Server_metricsEndpoint :: "'s Server \<Rightarrow> Response \<times> 's Server" where
  "Server_metricsEndpoint s =
    (\<lparr>rsStatus = 200,
      rsHeaders = [(''Content-Type'', ''text/plain; version=0.0.4; charset=utf-8'')],
      rsBody = TextBody (Metrics_Handler (srvMetrics s) @ writeCacheMetrics (BidCache_Stats (srvCache s))
        @ (case srvBidderEngine s of None \<Rightarrow> [] | Some y \<Rightarrow> writeBidderMetrics (beStats (esEngine y))))\<rparr>, s)"

text \<open>The mux, after it has matched a route.\<close>

datatype route = PostAuction | PutBid | DeleteBid | GetHealthz | GetReadyz | GetMetrics

definition securityHeaders :: "Response \<Rightarrow> Response" where
  "securityHeaders response =
     response\<lparr>rsHeaders := (''X-Content-Type-Options'', ''nosniff'') # rsHeaders response\<rparr>"

definition Server_Handler ::
    "'s BidStore \<Rightarrow> (string \<Rightarrow> AuctionRequest option) \<Rightarrow> (string \<Rightarrow> Bid option) \<Rightarrow> auctionClock \<Rightarrow> route
       \<Rightarrow> Request \<Rightarrow> 's Server \<Rightarrow> Response panicking \<times> 's Server" where
  "Server_Handler S decodeRequest decodeBid ck rt r s =
    (let wrap = (\<lambda>(response, s1). (Returns response, s1));
         (result, s1) =
           (case rt of
              PostAuction \<Rightarrow> Server_auction decodeRequest ck r s
            | PutBid \<Rightarrow> wrap (Server_upsertBid S decodeBid r s)
            | DeleteBid \<Rightarrow> wrap (Server_deleteBid S r s)
            | GetHealthz \<Rightarrow> wrap (Server_health s)
            | GetReadyz \<Rightarrow> wrap (Server_ready S s)
            | GetMetrics \<Rightarrow> wrap (Server_metricsEndpoint s))
     in (case result of Panics \<Rightarrow> Panics | Returns response \<Rightarrow> Returns (securityHeaders response), s1))"

section \<open>Authorization\<close>

lemma TrimPrefix_cases: "TrimPrefix t pre = u \<Longrightarrow> t = u \<or> t = pre @ u"
  by (metis TrimPrefix_def append_take_drop_id)

lemma authorized_header:
  "Server_authorized r s \<Longrightarrow>
    cfgAdminToken (srvConfig s) = [] \<or> rqAuthorization r = cfgAdminToken (srvConfig s)
    \<or> rqAuthorization r = ''Bearer '' @ cfgAdminToken (srvConfig s)"
  using TrimPrefix_cases [of "rqAuthorization r" "''Bearer ''" "cfgAdminToken (srvConfig s)"]
  by (auto simp: Server_authorized_def Let_def split: if_splits)

section \<open>Frames\<close>

lemma onMetrics_sel [simp]:
  "srvStore (onMetrics f s) = srvStore s" "srvCache (onMetrics f s) = srvCache s"
  "srvConfig (onMetrics f s) = srvConfig s" "srvPolicy (onMetrics f s) = srvPolicy s"
  "srvDecisionLogger (onMetrics f s) = srvDecisionLogger s"
  "srvBidderEngine (onMetrics f s) = srvBidderEngine s"
  "srvRequestNumber (onMetrics f s) = srvRequestNumber s"
  "srvMetrics (onMetrics f s) = f (srvMetrics s)"
  by (simp_all add: onMetrics_def)

lemma consultEngine_sel [simp]:
  "srvStore (snd (consultEngine ck request s)) = srvStore s"
  "srvCache (snd (consultEngine ck request s)) = srvCache s"
  "srvConfig (snd (consultEngine ck request s)) = srvConfig s"
  "srvPolicy (snd (consultEngine ck request s)) = srvPolicy s"
  "srvMetrics (snd (consultEngine ck request s)) = srvMetrics s"
  "srvDecisionLogger (snd (consultEngine ck request s)) = srvDecisionLogger s"
  "srvRequestNumber (snd (consultEngine ck request s)) = srvRequestNumber s"
  by (simp_all add: consultEngine_def Let_def split: option.split prod.split)

lemma requestID_sel [simp]:
  "srvStore (snd (Server_requestID r s)) = srvStore s"
  "srvCache (snd (Server_requestID r s)) = srvCache s"
  "srvConfig (snd (Server_requestID r s)) = srvConfig s"
  "srvPolicy (snd (Server_requestID r s)) = srvPolicy s"
  "srvMetrics (snd (Server_requestID r s)) = srvMetrics s"
  "srvDecisionLogger (snd (Server_requestID r s)) = srvDecisionLogger s"
  "srvBidderEngine (snd (Server_requestID r s)) = srvBidderEngine s"
  by (simp_all add: Server_requestID_def Let_def)

lemma auctionCounters_sel [simp]:
  "mAuctions (auctionCounters d m) = mAuctions m" "mFilled (auctionCounters d m) = mFilled m"
  "mNoBid (auctionCounters d m) = mNoBid m" "mBadRequests (auctionCounters d m) = mBadRequests m"
  by (simp_all add: auctionCounters_def Let_def)

text \<open>The logger of a running server is not closed.\<close>

definition loggerOpen :: "'s Server \<Rightarrow> bool" where
  "loggerOpen s \<longleftrightarrow> (case srvDecisionLogger s of None \<Rightarrow> True | Some l \<Rightarrow> \<not> dlClosed l)"

lemma recordDecision_open:
  assumes "loggerOpen s"
  shows "\<exists>s'. Server_recordDecision i p d s = Returns s' \<and> srvStore s' = srvStore s
    \<and> srvCache s' = srvCache s \<and> srvConfig s' = srvConfig s \<and> srvPolicy s' = srvPolicy s
    \<and> srvBidderEngine s' = srvBidderEngine s \<and> srvRequestNumber s' = srvRequestNumber s \<and> loggerOpen s'
    \<and> mAuctions (srvMetrics s') = mAuctions (srvMetrics s) \<and> mFilled (srvMetrics s') = mFilled (srvMetrics s)
    \<and> mNoBid (srvMetrics s') = mNoBid (srvMetrics s)"
  using assms
  by (auto simp: Server_recordDecision_def DecisionLogger_Record_def loggerOpen_def Let_def
      split: option.splits)

section \<open>The auction handler\<close>

text \<open>The decision an auction request leads to.\<close>

definition handlerDecision :: "auctionClock \<Rightarrow> AuctionRequest \<Rightarrow> 's Server \<Rightarrow> AuctionDecision" where
  "handlerDecision ck request s =
     fst (Auctioneer_RunWithDynamic (srvPolicy s) (ckRead ck) (ckNow ck) request
       (fst (consultEngine ck request s)) (srvCache s))"

lemma auction_valid_request:
  assumes "decodeJSON decodeRequest r = Some request" and "AuctionRequest_Validate request" and "loggerOpen s"
  shows "\<exists>s'. Server_auction decodeRequest ck r s =
      (Returns (writeJSON 200 (AuctionBody (auctionResponse (fst (Server_requestID r s))
         (policyPricingModel (srvPolicy s))
         (Microseconds (time_Sub (ckSelected ck) (ckSelectionStarted ck))) (handlerDecision ck request s)))), s')
    \<and> srvStore s' = srvStore s \<and> cacheEntries (srvCache s') = cacheEntries (srvCache s)
    \<and> loggerOpen s'
    \<and> mAuctions (srvMetrics s') = mAuctions (srvMetrics s) + 1
    \<and> mFilled (srvMetrics s') = mFilled (srvMetrics s)
        + (if AuctionDecision_Filled (handlerDecision ck request s) then 1 else 0)
    \<and> mNoBid (srvMetrics s') = mNoBid (srvMetrics s)
        + (if AuctionDecision_Filled (handlerDecision ck request s) then 0 else 1)"
proof -
  obtain dynamic s1 where s1: "consultEngine ck request s = (dynamic, s1)" by fastforce
  obtain decision cache where run: "Auctioneer_RunWithDynamic (srvPolicy s1) (ckRead ck) (ckNow ck) request
      dynamic (srvCache s1) = (decision, cache)" by fastforce
  obtain i s2 where s2: "Server_requestID r (s1\<lparr>srvCache := cache\<rparr>) = (i, s2)" by fastforce
  have s1_sel: "srvStore s1 = srvStore s" "srvCache s1 = srvCache s" "srvPolicy s1 = srvPolicy s"
    "srvMetrics s1 = srvMetrics s" "srvDecisionLogger s1 = srvDecisionLogger s"
    "srvRequestNumber s1 = srvRequestNumber s"
    using consultEngine_sel [of ck request s] s1 by simp_all
  have s2_sel: "srvStore s2 = srvStore s" "srvCache s2 = cache" "srvPolicy s2 = srvPolicy s"
    "srvMetrics s2 = srvMetrics s" "srvDecisionLogger s2 = srvDecisionLogger s"
    using requestID_sel [of r "s1\<lparr>srvCache := cache\<rparr>"] s2 s1_sel by simp_all
  have i: "i = fst (Server_requestID r s)"
    using s2 s1_sel by (auto simp: Server_requestID_def Let_def split: if_splits)
  have decision: "decision = handlerDecision ck request s"
    using run s1 s1_sel by (simp add: handlerDecision_def)
  have entries: "cacheEntries cache = cacheEntries (srvCache s)"
    using run run_cache(1) s1_sel by (metis Auctioneer_RunWithDynamic_def snd_conv)
  have "loggerOpen (onMetrics (auctionCounters decision) s2)"
    using assms(3) s2_sel by (simp add: loggerOpen_def)
  from recordDecision_open [OF this, of i "reqPlacementID request" decision] obtain s4
    where "Server_recordDecision i (reqPlacementID request) decision (onMetrics (auctionCounters decision) s2) = Returns s4"
      "srvStore s4 = srvStore s" "srvCache s4 = cache" "loggerOpen s4"
      "mAuctions (srvMetrics s4) = mAuctions (srvMetrics s)" "mFilled (srvMetrics s4) = mFilled (srvMetrics s)"
      "mNoBid (srvMetrics s4) = mNoBid (srvMetrics s)" using s2_sel by auto
  with assms(1,2) s1 run s2 s2_sel i decision entries show ?thesis
    by (simp add: Server_auction_def Let_def loggerOpen_def)
qed

section \<open>Properties\<close>


definition exampleServer :: "unit Server" where
  "exampleServer = NewServer (defaultConfig\<lparr>cfgAdminToken := ''secret''\<rparr>) () (NewBidCache second)"

definition exampleHTTP :: Request where
  "exampleHTTP = \<lparr>rqBody = ''{}'', rqAuthorization = ''Bearer secret'', rqXRequestID = [], rqPathID = ''a'',
     rqPlacement = ''p'', rqRevision = ''3''\<rparr>"

definition exampleClock :: auctionClock where
  "exampleClock = \<lparr>ckStarted = 0, ckSelectionStarted = 1, ckLookup = 2, ckTrigger = 3, ckRead = 4, ckNow = 5,
     ckSelected = 6000, ckDone = 9000\<rparr>"


text \<open>
  Without the admin token nothing changes. When a token is configured, a mutation request whose
  \<open>Authorization\<close> header is neither the token nor \<open>Bearer\<close> and the token is answered 401 and leaves
  the whole server, its store and its metrics as they were.
\<close>

theorem unauthorized_mutation_has_no_effect:
  assumes "cfgAdminToken (srvConfig s) \<noteq> []" and "rqAuthorization r \<noteq> cfgAdminToken (srvConfig s)"
    and "rqAuthorization r \<noteq> ''Bearer '' @ cfgAdminToken (srvConfig s)"
  shows "Server_upsertBid S decodeBid r s = (writeJSON 401 (ErrorBody ''unauthorized''), s)
    \<and> Server_deleteBid S r s = (writeJSON 401 (ErrorBody ''unauthorized''), s)"
proof -
  have "\<not> Server_authorized r s" using authorized_header [of r s] assms by auto
  then show ?thesis by (simp add: Server_upsertBid_def Server_deleteBid_def Let_def)
qed

theorem unauthorized_mutation_has_no_effect_witness:
  "\<forall>S :: unit BidStore. Server_deleteBid S (exampleHTTP\<lparr>rqAuthorization := ''Bearer wrong''\<rparr>) exampleServer
    = (writeJSON 401 (ErrorBody ''unauthorized''), exampleServer)"
  using unauthorized_mutation_has_no_effect [of exampleServer "exampleHTTP\<lparr>rqAuthorization := ''Bearer wrong''\<rparr>"]
  by (simp add: exampleServer_def NewServer_def)

text \<open>
  The status of an upsert tells what happened. An authorized request is answered 400, without
  contacting the store, when the body does not decode, names another ID than the path or fails
  validation; otherwise 200 exactly when the store accepted the bid, 409 when it rejected the
  revision and 503 on any other error. A background refresh of the placement is started exactly on
  success.
\<close>

theorem upsert_handler_status:
  assumes "Server_authorized r s" and "Server_upsertBid S decodeBid r s = (response, s')"
  shows "case decodeJSON decodeBid r of
      None \<Rightarrow> rsStatus response = 400 \<and> srvStore s' = srvStore s \<and> srvCache s' = srvCache s
    | Some bid \<Rightarrow>
        if bidID bid \<noteq> rqPathID r \<or> Bid_Validate (Bid_Normalize bid) \<noteq> None
        then rsStatus response = 400 \<and> srvStore s' = srvStore s \<and> srvCache s' = srvCache s
        else srvStore s' = snd (storeUpsert S (Bid_Normalize bid) (srvStore s))
          \<and> (case fst (storeUpsert S (Bid_Normalize bid) (srvStore s)) of
               None \<Rightarrow> rsStatus response = 200 \<and> rsBody response = BidBody (Bid_Normalize bid)
                 \<and> srvCache s' = BidCache_RefreshAsync (bidPlacementID bid) (srvCache s)
             | Some e \<Rightarrow> rsStatus response = (if e = ErrStaleBidRevision then 409 else 503)
                 \<and> srvCache s' = srvCache s)"
  using assms
  by (auto simp: Server_upsertBid_def writeJSON_def Let_def split: option.splits prod.splits if_splits)

text \<open>
  Generated request IDs are unique. Two requests without an \<open>X-Request-ID\<close> header that take
  different values of the counter get different IDs.
\<close>

theorem request_ids_unique:
  assumes "rqXRequestID r = []" and "rqXRequestID q = []" and "srvRequestNumber s \<noteq> srvRequestNumber u"
  shows "fst (Server_requestID r s) \<noteq> fst (Server_requestID q u)"
  using assms by (simp add: Server_requestID_def Let_def FormatUint_inj)

theorem request_ids_unique_witness:
  "fst (Server_requestID exampleHTTP exampleServer) \<noteq>
    fst (Server_requestID exampleHTTP (snd (Server_requestID exampleHTTP exampleServer)))"
  by (rule request_ids_unique)
    (simp_all add: exampleHTTP_def exampleServer_def NewServer_def Server_requestID_def)

end
