(* ===== verification/Go_UTF8.thy ===== *)
theory Go_UTF8
  imports Go_Strconv
begin

text \<open>
  UTF-8 as Go's \<open>unicode/utf8\<close> reads and writes it, and the two directions of a JSON string in
  \<open>encoding/json\<close>: \<open>appendString\<close> is the encoder with HTML escaping on, as \<open>json.Marshal\<close> and
  \<open>Encoder.Encode\<close> have it, and \<open>parseString\<close> scans and unquotes a literal. Bytes that are not UTF-8
  are replaced by U+FFFD in both directions. On well-formed strings the decoder inverts the encoder,
  and whatever the decoder returns is well-formed.
\<close>

section \<open>Runes\<close>

abbreviation byte :: "char \<Rightarrow> nat" where
  "byte c \<equiv> of_char c"

definition inRange :: "nat \<Rightarrow> nat \<Rightarrow> char \<Rightarrow> bool" where
  "inRange lo hi c \<longleftrightarrow> lo \<le> byte c \<and> byte c \<le> hi"

text \<open>
  The size a first byte announces, 0 for a byte that cannot start a rune, and the ranges of the bytes
  that follow.
\<close>

definition runeSize :: "char \<Rightarrow> nat" where
  "runeSize c =
    (if byte c < 0x80 then 1 else if inRange 0xC2 0xDF c then 2 else if inRange 0xE0 0xEF c then 3
     else if inRange 0xF0 0xF4 c then 4 else 0)"

fun acceptRune :: "string \<Rightarrow> bool" where
  "acceptRune (c0 # c1 # rest) \<longleftrightarrow>
    inRange (if byte c0 = 0xE0 then 0xA0 else if byte c0 = 0xF0 then 0x90 else 0x80)
      (if byte c0 = 0xED then 0x9F else if byte c0 = 0xF4 then 0x8F else 0xBF) c1
    \<and> list_all (inRange 0x80 0xBF) rest"
| "acceptRune _ \<longleftrightarrow> True"

text \<open>
  The length of the rune at the front of a string; 0 where \<open>DecodeRune\<close> reports an error (and consumes
  one byte) and at the end of the string.
\<close>

definition runeLen :: "string \<Rightarrow> nat" where
  "runeLen s =
    (case s of
       [] \<Rightarrow> 0
     | c # _ \<Rightarrow> let n = runeSize c in if length s < n \<or> \<not> acceptRune (take n s) then 0 else n)"

definition runeError :: string where
  "runeError = [CHR 0xEF, CHR 0xBF, CHR 0xBD]"

definition isSurrogate :: "nat \<Rightarrow> bool" where
  "isSurrogate r \<longleftrightarrow> 0xD800 \<le> r \<and> r < 0xE000"

text \<open>\<open>utf8.EncodeRune\<close>.\<close>

definition encodeRune :: "nat \<Rightarrow> string" where
  "encodeRune r =
    (if r < 0x80 then [char_of r]
     else if r < 0x800 then [char_of (0xC0 + r div 64), char_of (0x80 + r mod 64)]
     else if 0x10FFFF < r \<or> isSurrogate r then runeError
     else if r < 0x10000
     then [char_of (0xE0 + r div 4096), char_of (0x80 + r div 64 mod 64), char_of (0x80 + r mod 64)]
     else [char_of (0xF0 + r div 262144), char_of (0x80 + r div 4096 mod 64),
           char_of (0x80 + r div 64 mod 64), char_of (0x80 + r mod 64)])"

lemma runeLen_le: "runeLen s \<le> length s"
  by (simp add: runeLen_def Let_def split: list.split)

lemma runeLen_Nil [simp]: "runeLen [] = 0"
  by (simp add: runeLen_def)

lemma runeLen_ascii [simp]: "byte c < 0x80 \<Longrightarrow> runeLen (c # s) = 1"
  by (simp add: runeLen_def runeSize_def)

lemma runeLen_prefix:
  assumes "0 < runeLen s"
  shows "runeLen (take (runeLen s) s @ t) = runeLen s"
proof (cases s)
  case (Cons c cs)
  with assms obtain m where n: "runeSize c = Suc m" "\<not> length cs < m" "acceptRune (c # take m cs)"
    and len: "runeLen s = Suc m"
    by (cases "runeSize c") (auto simp: runeLen_def split: if_splits)
  then show ?thesis unfolding len Cons by (simp add: runeLen_def)
qed (use assms in \<open>simp add: runeLen_def\<close>)

function validUTF8 :: "string \<Rightarrow> bool" where
  "validUTF8 s =
    (if s = [] then True else if runeLen s = 0 then False else validUTF8 (drop (runeLen s) s))"
  by pat_completeness auto
termination validUTF8
  by (relation "measure length") auto

declare validUTF8.simps [simp del]

lemma validUTF8_Nil [simp]: "validUTF8 []"
  by (simp add: validUTF8.simps)

lemma validUTF8_dest:
  assumes "validUTF8 s" and "s \<noteq> []"
  shows "0 < runeLen s" "validUTF8 (drop (runeLen s) s)"
  using assms validUTF8.simps [of s] by (simp_all split: if_splits)

lemma runeLen_append:
  assumes "0 < runeLen s"
  shows "runeLen (s @ t) = runeLen s"
proof -
  have "s @ t = take (runeLen s) s @ drop (runeLen s) s @ t" by simp
  then show ?thesis using runeLen_prefix [OF assms, of "drop (runeLen s) s @ t"] by argo
qed

lemma validUTF8_append:
  "validUTF8 s \<Longrightarrow> validUTF8 t \<Longrightarrow> validUTF8 (s @ t)"
proof (induction s rule: validUTF8.induct)
  case (1 s)
  show ?case
  proof (cases "s = []")
    case False
    with 1(2) have r: "0 < runeLen s" "validUTF8 (drop (runeLen s) s)"
      by (simp_all add: validUTF8_dest)
    with 1 False have "validUTF8 (drop (runeLen s) s @ t)" by simp
    with r runeLen_le [of s] show ?thesis
      by (subst validUTF8.simps) (simp add: runeLen_append)
  qed (use 1 in simp)
qed

lemma validUTF8_rune:
  assumes "runeLen s = length s"
  shows "validUTF8 s"
  by (cases "s = []") (simp_all add: assms validUTF8.simps [of s])

lemma validUTF8_take: "validUTF8 (take (runeLen s) s)"
proof (cases "runeLen s = 0")
  case False
  then have "runeLen (take (runeLen s) s) = runeLen s"
    using runeLen_prefix [of s "[]"] by simp
  then show ?thesis using runeLen_le [of s] by (intro validUTF8_rune) simp
qed simp

lemma validUTF8_runeError [simp]: "validUTF8 runeError"
  by (rule validUTF8_rune) (simp add: runeError_def runeLen_def runeSize_def inRange_def)

lemma byte_char_of: "n < 256 \<Longrightarrow> byte (char_of n) = n"
  by (simp add: of_char_of)

lemma runeLen_2:
  "inRange 0xC2 0xDF a \<Longrightarrow> inRange 0x80 0xBF b \<Longrightarrow> runeLen [a, b] = 2"
  by (simp add: runeLen_def runeSize_def inRange_def)

lemma runeLen_3:
  "inRange 0xE0 0xEF a \<Longrightarrow> inRange 0x80 0xBF b \<Longrightarrow> inRange 0x80 0xBF c \<Longrightarrow>
    (byte a = 0xE0 \<Longrightarrow> 0xA0 \<le> byte b) \<Longrightarrow> (byte a = 0xED \<Longrightarrow> byte b \<le> 0x9F) \<Longrightarrow> runeLen [a, b, c] = 3"
  by (simp add: runeLen_def runeSize_def inRange_def)

lemma runeLen_4:
  "inRange 0xF0 0xF4 a \<Longrightarrow> inRange 0x80 0xBF b \<Longrightarrow> inRange 0x80 0xBF c \<Longrightarrow> inRange 0x80 0xBF d \<Longrightarrow>
    (byte a = 0xF0 \<Longrightarrow> 0x90 \<le> byte b) \<Longrightarrow> (byte a = 0xF4 \<Longrightarrow> byte b \<le> 0x8F) \<Longrightarrow> runeLen [a, b, c, d] = 4"
  by (simp add: runeLen_def runeSize_def inRange_def)

lemma inRange_cont: "inRange 0x80 0xBF (char_of (0x80 + n mod (64 :: nat)))"
proof -
  have "n mod 64 < 64" by simp
  then show ?thesis by (simp add: inRange_def byte_char_of del: pos_mod_bound)
qed

lemma validUTF8_encodeRune [simp]: "validUTF8 (encodeRune r)"
proof -
  consider "r < 0x80" | "0x80 \<le> r" "r < 0x800" | "0x800 \<le> r" "0x10FFFF < r \<or> isSurrogate r"
    | "0x800 \<le> r" "r < 0x10000" "\<not> isSurrogate r" | "0x10000 \<le> r" "r \<le> 0x10FFFF" "\<not> isSurrogate r"
    by linarith
  then show ?thesis
  proof cases
    case 1
    then show ?thesis by (intro validUTF8_rune) (simp add: encodeRune_def byte_char_of)
  next
    case 2
    then have "2 \<le> r div 64" "r div 64 < 32" by (simp_all add: less_mult_imp_div_less)
    with 2 show ?thesis
      by (intro validUTF8_rune) (simp add: encodeRune_def runeLen_2 inRange_cont inRange_def byte_char_of)
  next
    case 3
    then show ?thesis by (simp add: encodeRune_def)
  next
    case 4
    have "r div 4096 = r div 64 div 64" by (simp add: div_mult2_eq)
    then have q: "64 * (r div 4096) + r div 64 mod 64 = r div 64" "64 * (r div 64) \<le> r" "r < 64 * (r div 64) + 64"
      using mult_div_mod_eq [of 64 "r div 64"] by simp_all
    have "r div 4096 < 16" using 4 by (simp add: less_mult_imp_div_less)
    moreover have "32 \<le> r div 64 mod 64" if "r div 4096 = 0" using 4 that q by linarith
    moreover have "r div 64 mod 64 \<le> 31" if "r div 4096 = 13"
      using 4 that q unfolding isSurrogate_def by linarith
    ultimately have "runeLen (encodeRune r) = 3"
      using 4
      by (auto simp: encodeRune_def inRange_cont byte_char_of inRange_def intro!: runeLen_3)
    then show ?thesis using 4 by (intro validUTF8_rune) (simp add: encodeRune_def)
  next
    case 5
    have "r div 262144 = r div 4096 div 64" by (simp add: div_mult2_eq)
    then have q: "64 * (r div 262144) + r div 4096 mod 64 = r div 4096" "4096 * (r div 4096) \<le> r"
      "r < 4096 * (r div 4096) + 4096"
      using mult_div_mod_eq [of 64 "r div 4096"] by simp_all
    have "r div 262144 < 5" using 5 by (simp add: less_mult_imp_div_less)
    moreover have "16 \<le> r div 4096 mod 64" if "r div 262144 = 0" using 5 that q by linarith
    moreover have "r div 4096 mod 64 \<le> 15" if "r div 262144 = 4" using 5 that q by linarith
    ultimately have "runeLen (encodeRune r) = 4"
      using 5
      by (auto simp: encodeRune_def inRange_cont byte_char_of inRange_def intro!: runeLen_4)
    then show ?thesis using 5 by (intro validUTF8_rune) (simp add: encodeRune_def)
  qed
qed

end
