(* ===== verification/JSON_Strings.thy ===== *)
theory JSON_Strings
  imports Go_UTF8
begin

text \<open>
  The two directions of a JSON string in \<open>encoding/json\<close>. \<open>appendString\<close> is the encoder with HTML
  escaping on, as \<open>json.Marshal\<close> and \<open>Encoder.Encode\<close> have it; \<open>parseString\<close> scans and unquotes a
  literal up to its closing quote. Bytes that are not UTF-8 become U+FFFD in both directions. On
  well-formed strings the decoder inverts the encoder, and what the decoder returns is well-formed.
\<close>

section \<open>Encoding\<close>

definition htmlSafe :: "char \<Rightarrow> bool" where
  "htmlSafe c \<longleftrightarrow> inRange 0x20 0x7F c \<and> c \<notin> {CHR 0x22, CHR 0x5C, CHR 0x3C, CHR 0x3E, CHR 0x26}"

definition escapeByte :: "char \<Rightarrow> string" where
  "escapeByte c =
    (if c = CHR 0x5C \<or> c = CHR 0x22 then [CHR 0x5C, c]
     else if c = CHR 0x08 then CHR 0x5C # ''b''
     else if c = CHR 0x0C then CHR 0x5C # ''f''
     else if c = CHR 0x0A then CHR 0x5C # ''n''
     else if c = CHR 0x0D then CHR 0x5C # ''r''
     else if c = CHR 0x09 then CHR 0x5C # ''t''
     else CHR 0x5C # ''u00'' @ [digitChar (byte c div 16), digitChar (byte c mod 16)])"

text \<open>The encoding of one rune: U+2028 and U+2029 are escaped.\<close>

definition escapeRune :: "string \<Rightarrow> string" where
  "escapeRune p =
    (if p = [CHR 0xE2, CHR 0x80, CHR 0xA8] then CHR 0x5C # ''u2028''
     else if p = [CHR 0xE2, CHR 0x80, CHR 0xA9] then CHR 0x5C # ''u2029'' else p)"

function appendString :: "string \<Rightarrow> string" where
  "appendString s =
    (case s of
       [] \<Rightarrow> []
     | c # cs \<Rightarrow>
         if byte c < 0x80 then (if htmlSafe c then [c] else escapeByte c) @ appendString cs
         else if runeLen s = 0 then CHR 0x5C # ''ufffd'' @ appendString cs
         else escapeRune (take (runeLen s) s) @ appendString (drop (runeLen s) s))"
  by pat_completeness auto
termination appendString
  by (relation "measure length") auto

declare appendString.simps [simp del]

definition quoteString :: "string \<Rightarrow> string" where
  "quoteString s = CHR 0x22 # appendString s @ [CHR 0x22]"

section \<open>Decoding\<close>

definition hexVal :: "char \<Rightarrow> nat option" where
  "hexVal c =
    (if inRange 48 57 c then Some (byte c - 48)
     else if inRange 97 102 c then Some (byte c - 87)
     else if inRange 65 70 c then Some (byte c - 55) else None)"

fun getu4 :: "string \<Rightarrow> (nat \<times> string) option" where
  "getu4 (a # b # c # d # rest) =
    (case (hexVal a, hexVal b, hexVal c, hexVal d) of
       (Some v, Some x, Some y, Some z) \<Rightarrow> Some (((v * 16 + x) * 16 + y) * 16 + z, rest)
     | _ \<Rightarrow> None)"
| "getu4 _ = None"

text \<open>
  A rune given by an escape; a leading surrogate is combined with the trailing one when the next
  escape has it, and any other surrogate is U+FFFD.
\<close>

definition unquoteRune :: "nat \<Rightarrow> string \<Rightarrow> string \<times> string" where
  "unquoteRune r rest =
    (if \<not> isSurrogate r then (encodeRune r, rest)
     else if take 2 rest = CHR 0x5C # ''u'' \<and> r < 0xDC00 then
       (case getu4 (drop 2 rest) of
          Some (r1, rest1) \<Rightarrow>
            if 0xDC00 \<le> r1 \<and> r1 < 0xE000
            then (encodeRune ((r - 0xD800) * 1024 + (r1 - 0xDC00) + 0x10000), rest1)
            else (runeError, rest)
        | None \<Rightarrow> (runeError, rest))
     else (runeError, rest))"

definition simpleEscapes :: "(char \<times> char) list" where
  "simpleEscapes = [(CHR 0x22, CHR 0x22), (CHR 0x5C, CHR 0x5C), (CHR ''/'', CHR ''/''), (CHR ''b'', CHR 0x08),
     (CHR ''f'', CHR 0x0C), (CHR ''n'', CHR 0x0A), (CHR ''r'', CHR 0x0D), (CHR ''t'', CHR 0x09)]"

definition unquoteEscape :: "string \<Rightarrow> (string \<times> string) option" where
  "unquoteEscape s =
    (case s of
       [] \<Rightarrow> None
     | e # es \<Rightarrow>
         if e = CHR ''u'' then
           (case getu4 es of None \<Rightarrow> None | Some (r, rest) \<Rightarrow> Some (unquoteRune r rest))
         else map_option (\<lambda>c. ([c], es)) (map_of simpleEscapes e))"

definition prefixed :: "string \<Rightarrow> (string \<times> string) option \<Rightarrow> (string \<times> string) option" where
  "prefixed t result = map_option (\<lambda>(u, rest). (t @ u, rest)) result"

lemma getu4_shorter: "getu4 s = Some (r, rest) \<Longrightarrow> length rest < length s"
  by (cases s rule: getu4.cases) (auto split: option.splits)

lemma unquoteRune_shorter: "length (snd (unquoteRune r s)) \<le> length s"
  using getu4_shorter [of "drop 2 s"] by (fastforce simp: unquoteRune_def split: option.splits)

lemma unquoteEscape_shorter: "unquoteEscape s = Some (t, rest) \<Longrightarrow> length rest < length s"
proof (cases s)
  case (Cons e es)
  assume s: "unquoteEscape s = Some (t, rest)"
  show ?thesis
  proof (cases "e = CHR ''u''")
    case True
    with s Cons obtain r s1 where "getu4 es = Some (r, s1)" "unquoteRune r s1 = (t, rest)"
      by (auto simp: unquoteEscape_def split: option.splits)
    then show ?thesis using getu4_shorter [of es] unquoteRune_shorter [of r s1] Cons by fastforce
  qed (use s Cons in \<open>auto simp: unquoteEscape_def\<close>)
qed (simp add: unquoteEscape_def)

function parseString :: "string \<Rightarrow> (string \<times> string) option" where
  "parseString s =
    (case s of
       [] \<Rightarrow> None
     | c # cs \<Rightarrow>
         if c = CHR 0x22 then Some ([], cs)
         else if c = CHR 0x5C then
           (case unquoteEscape cs of None \<Rightarrow> None | Some (t, rest) \<Rightarrow> prefixed t (parseString rest))
         else if byte c < 0x20 then None
         else if runeLen s = 0 then prefixed runeError (parseString cs)
         else prefixed (take (runeLen s) s) (parseString (drop (runeLen s) s)))"
  by pat_completeness auto
termination parseString
  by (relation "measure length") (auto dest: unquoteEscape_shorter)

declare parseString.simps [simp del]

section \<open>The decoder inverts the encoder\<close>

lemma parse_closing [simp]: "parseString (CHR 0x22 # rest) = Some ([], rest)"
  by (simp add: parseString.simps)

lemma prefixed_Some [simp]: "prefixed t (Some (u, rest)) = Some (t @ u, rest)"
  by (simp add: prefixed_def)

lemma parse_escape:
  "unquoteEscape s = Some (t, rest) \<Longrightarrow> parseString (CHR 0x5C # s) = prefixed t (parseString rest)"
  by (simp add: parseString.simps [of "CHR 0x5C # s"])

lemma hexVal_digitChar: "d < 16 \<Longrightarrow> hexVal (digitChar d) = Some d"
  by (auto simp: hexVal_def digitChar_def inRange_def byte_char_of)

lemma getu4_byte:
  assumes "n < 0x80"
  shows "getu4 (''00'' @ [digitChar (n div 16), digitChar (n mod 16)] @ rest) = Some (n, rest)"
proof -
  have "n div 16 < 16" using assms by (simp add: less_mult_imp_div_less)
  moreover have "hexVal (CHR ''0'') = Some 0" by (simp add: hexVal_def inRange_def)
  ultimately show ?thesis by (simp add: hexVal_digitChar)
qed

lemma unquoteRune_ascii: "n < 0x80 \<Longrightarrow> unquoteRune n rest = ([char_of n], rest)"
  by (simp add: unquoteRune_def isSurrogate_def encodeRune_def)

lemma unquote_escapeByte:
  assumes "byte c < 0x80"
  shows "\<exists>s. escapeByte c = CHR 0x5C # s \<and> unquoteEscape (s @ rest) = Some ([c], rest)"
proof -
  have "unquoteEscape (''u00'' @ [digitChar (byte c div 16), digitChar (byte c mod 16)] @ rest) = Some ([c], rest)"
    using getu4_byte [OF assms, of rest] unquoteRune_ascii [OF assms, of rest]
    by (simp add: unquoteEscape_def)
  then show ?thesis by (auto simp: escapeByte_def unquoteEscape_def simpleEscapes_def)
qed

lemma parse_ascii:
  assumes "byte c < 0x80"
  shows "parseString ((if htmlSafe c then [c] else escapeByte c) @ rest) = prefixed [c] (parseString rest)"
proof (cases "htmlSafe c")
  case True
  then have "c \<noteq> CHR 0x22" "c \<noteq> CHR 0x5C" "0x20 \<le> byte c" by (auto simp: htmlSafe_def inRange_def)
  with True assms show ?thesis by (simp add: parseString.simps [of "c # rest"])
next
  case False
  obtain s where "escapeByte c = CHR 0x5C # s" "unquoteEscape (s @ rest) = Some ([c], rest)"
    using unquote_escapeByte [OF assms] by blast
  with False show ?thesis by (simp add: parse_escape)
qed

lemma parse_rune:
  assumes "0 < runeLen s" and "0x80 \<le> byte (hd s)"
  shows "parseString (escapeRune (take (runeLen s) s) @ rest) = prefixed (take (runeLen s) s) (parseString rest)"
proof -
  let ?p = "take (runeLen s) s"
  have len: "runeLen (?p @ rest) = runeLen s" "length ?p = runeLen s"
    using runeLen_prefix [OF assms(1)] runeLen_le [of s] by simp_all
  obtain c p where p: "?p = c # p" "0x80 \<le> byte c"
    using assms by (cases s; cases "runeLen s") auto
  have "parseString (?p @ rest) = prefixed ?p (parseString rest)"
  proof -
    have "runeLen (c # p @ rest) = Suc (length p)" using len p(1) by simp
    then show ?thesis unfolding p(1) using p(2) by (auto simp: parseString.simps [of "c # p @ rest"])
  qed
  moreover have "unquoteEscape (''u2028'' @ rest) = Some ([CHR 0xE2, CHR 0x80, CHR 0xA8], rest)"
    "unquoteEscape (''u2029'' @ rest) = Some ([CHR 0xE2, CHR 0x80, CHR 0xA9], rest)"
    by (simp_all add: unquoteEscape_def hexVal_def inRange_def unquoteRune_def isSurrogate_def encodeRune_def
        char_of_def bit_0)
  ultimately show ?thesis by (auto simp: escapeRune_def parse_escape)
qed

text \<open>Whatever the bytes, what is read back is the string with every stray byte replaced by U+FFFD.\<close>

function coerceUTF8 :: "string \<Rightarrow> string" where
  "coerceUTF8 s =
    (case s of
       [] \<Rightarrow> []
     | c # cs \<Rightarrow>
         if runeLen s = 0 then runeError @ coerceUTF8 cs
         else take (runeLen s) s @ coerceUTF8 (drop (runeLen s) s))"
  by pat_completeness auto
termination coerceUTF8
  by (relation "measure length") auto

declare coerceUTF8.simps [simp del]

lemma coerceUTF8_valid: "validUTF8 s \<Longrightarrow> coerceUTF8 s = s"
proof (induction s rule: coerceUTF8.induct)
  case (1 s)
  show ?case
  proof (cases s)
    case (Cons c cs)
    with 1(3) have r: "0 < runeLen s" "validUTF8 (drop (runeLen s) s)"
      using validUTF8_dest [of s] by simp_all
    with 1(2) [OF Cons] have "coerceUTF8 (drop (runeLen s) s) = drop (runeLen s) s" by simp
    with r Cons show ?thesis by (simp add: coerceUTF8.simps [of "c # cs"])
  qed (simp add: coerceUTF8.simps)
qed

lemma parse_replaced: "parseString (CHR 0x5C # ''ufffd'' @ rest) = prefixed runeError (parseString rest)"
  by (subst parse_escape [of _ runeError rest])
    (simp_all add: unquoteEscape_def hexVal_def inRange_def unquoteRune_def isSurrogate_def encodeRune_def
      runeError_def char_of_def bit_0)

lemma parse_coerced:
  "parseString (appendString s @ CHR 0x22 # rest) = Some (coerceUTF8 s, rest)"
proof (induction s rule: appendString.induct)
  case (1 s)
  show ?case
  proof (cases s)
    case Nil
    then show ?thesis by (simp add: appendString.simps coerceUTF8.simps)
  next
    case (Cons c cs)
    consider "byte c < 0x80" | "0x80 \<le> byte c" "runeLen s = 0" | "0x80 \<le> byte c" "runeLen s \<noteq> 0" by linarith
    then show ?thesis
    proof cases
      case 1
      with "1.IH"(1) [OF Cons 1] Cons show ?thesis
        by (simp add: appendString.simps [of "c # cs"] coerceUTF8.simps [of "c # cs"] parse_ascii)
    next
      case 2
      with "1.IH"(2) [OF Cons] Cons show ?thesis
        by (simp add: appendString.simps [of "c # cs"] coerceUTF8.simps [of "c # cs"] parse_replaced [simplified])
    next
      case 3
      with "1.IH"(3) [OF Cons] have IH: "parseString (appendString (drop (runeLen s) s) @ CHR 0x22 # rest)
          = Some (coerceUTF8 (drop (runeLen s) s), rest)" by simp
      have "appendString s = escapeRune (take (runeLen s) s) @ appendString (drop (runeLen s) s)"
        "coerceUTF8 s = take (runeLen s) s @ coerceUTF8 (drop (runeLen s) s)"
        using 3 unfolding Cons by (simp_all add: appendString.simps [of "c # cs"] coerceUTF8.simps [of "c # cs"])
      with IH parse_rune [of s "appendString (drop (runeLen s) s) @ CHR 0x22 # rest"] 3 Cons show ?thesis by simp
    qed
  qed
qed

lemma parse_appendString:
  "validUTF8 s \<Longrightarrow> parseString (appendString s @ CHR 0x22 # rest) = Some (s, rest)"
  by (simp add: parse_coerced coerceUTF8_valid)

section \<open>The decoder returns well-formed strings\<close>

lemma unquoteEscape_valid:
  assumes "unquoteEscape s = Some (t, rest)"
  shows "validUTF8 t"
proof -
  have "validUTF8 (fst (unquoteRune r s1))" for r s1
    by (auto simp: unquoteRune_def split: option.split)
  moreover have "validUTF8 [c]" if "map_of simpleEscapes e = Some c" for e c
    using that by (intro validUTF8_rune) (auto simp: simpleEscapes_def split: if_splits)
  ultimately show ?thesis
    using assms by (auto simp: unquoteEscape_def prod_eq_iff split: list.splits if_splits option.splits)
qed

lemma prefixed_SomeE:
  assumes "prefixed t result = Some (u, rest)"
  obtains v where "result = Some (v, rest)" "u = t @ v"
  using assms by (auto simp: prefixed_def)

lemma parseString_rule [consumes 1, case_names close escape bad rune]:
  assumes "parseString s = Some (t, rest)"
    and close: "\<And>cs. P (CHR 0x22 # cs) [] cs"
    and escape: "\<And>cs u s1 v rest. unquoteEscape cs = Some (u, s1) \<Longrightarrow> P s1 v rest \<Longrightarrow> P (CHR 0x5C # cs) (u @ v) rest"
    and bad: "\<And>c cs v rest. P cs v rest \<Longrightarrow> P (c # cs) (runeError @ v) rest"
    and rune: "\<And>s v rest. runeLen s \<noteq> 0 \<Longrightarrow> P (drop (runeLen s) s) v rest \<Longrightarrow> P s (take (runeLen s) s @ v) rest"
  shows "P s t rest"
  using assms(1)
proof (induction s arbitrary: t rest rule: parseString.induct)
  case (1 s)
  show ?case
  proof (cases s)
    case (Cons c cs)
    note run = 1(4) [unfolded parseString.simps [of s]]
    consider "c = CHR 0x22" | u s1 where "c = CHR 0x5C" "unquoteEscape cs = Some (u, s1)"
        "prefixed u (parseString s1) = Some (t, rest)"
      | "c \<noteq> CHR 0x22" "c \<noteq> CHR 0x5C" "\<not> byte c < 0x20" "runeLen s = 0"
        "prefixed runeError (parseString cs) = Some (t, rest)"
      | "c \<noteq> CHR 0x22" "c \<noteq> CHR 0x5C" "\<not> byte c < 0x20" "runeLen s \<noteq> 0"
        "prefixed (take (runeLen s) s) (parseString (drop (runeLen s) s)) = Some (t, rest)"
      using run Cons by (auto split: if_splits option.splits)
    then show ?thesis
    proof cases
      case 1
      with run Cons close show ?thesis by simp
    next
      case (2 u s1)
      from 2(3) 1(1) [OF Cons _ 2(1) 2(2) refl] show ?thesis
        unfolding Cons 2(1) by (auto elim!: prefixed_SomeE intro!: escape [OF 2(2)])
    next
      case 3
      from 3(5) 1(2) [OF Cons 3(1-4)] show ?thesis unfolding Cons by (auto elim!: prefixed_SomeE intro!: bad)
    next
      case 4
      from 4(5) 1(3) [OF Cons 4(1-4)] show ?thesis by (auto elim!: prefixed_SomeE intro!: rune [OF 4(4)])
    qed
  qed (use 1 in \<open>simp add: parseString.simps\<close>)
qed

lemma parseString_valid: "parseString s = Some (t, rest) \<Longrightarrow> validUTF8 t"
  by (induction rule: parseString_rule)
    (auto intro!: validUTF8_append validUTF8_take dest: unquoteEscape_valid)

lemma parseString_shorter: "parseString s = Some (t, rest) \<Longrightarrow> length rest < length s"
  by (induction rule: parseString_rule) (auto dest: unquoteEscape_shorter)

section \<open>Replaced bytes leave a trace\<close>

text \<open>
  The encoder writes the escape of U+FFFD for a byte that is not UTF-8 and only then, so a text shows
  whether the encoded string was well-formed. \<open>entire t\<close> says that \<open>t\<close> does not end inside an escape.
\<close>

fun replaced :: "string \<Rightarrow> bool" where
  "replaced [] = False"
| "replaced (c # cs) =
    (if c = CHR 0x5C then take 5 cs = ''ufffd'' \<or> (case cs of [] \<Rightarrow> False | _ # ds \<Rightarrow> replaced ds) else replaced cs)"

definition entire :: "string \<Rightarrow> bool" where
  "entire t \<longleftrightarrow> (\<forall>rest. replaced (t @ rest) \<longleftrightarrow> replaced t \<or> replaced rest)"

lemma entire_append: "entire t \<Longrightarrow> entire u \<Longrightarrow> entire (t @ u) \<and> (replaced (t @ u) \<longleftrightarrow> replaced t \<or> replaced u)"
  by (simp add: entire_def)

lemma entire_plain:
  assumes "CHR 0x5C \<notin> set t"
  shows "entire t" "\<not> replaced t"
proof -
  have "replaced (t @ rest) \<longleftrightarrow> replaced rest" for rest using assms by (induction t) auto
  from this [of "[]"] this show "\<not> replaced t" "entire t" by (simp_all add: entire_def)
qed

lemma entire_escape:
  assumes "c \<noteq> CHR ''u'' \<or> take 4 (t @ ''xxxx'') \<noteq> ''fffd'' \<and> 4 \<le> length t" and "CHR 0x5C \<notin> set t"
  shows "entire (CHR 0x5C # c # t)" "\<not> replaced (CHR 0x5C # c # t)"
proof -
  have plain: "replaced (t @ rest) \<longleftrightarrow> replaced rest" for rest
    using entire_plain [OF assms(2)] by (simp add: entire_def)
  have "take 5 (c # t @ rest) \<noteq> ''ufffd''" for rest using assms(1) by auto
  with plain have all: "replaced ((CHR 0x5C # c # t) @ rest) \<longleftrightarrow> replaced rest" for rest by auto
  from all [of "[]"] show none: "\<not> replaced (CHR 0x5C # c # t)" by (simp only: append_Nil2 replaced.simps) simp
  from all none show "entire (CHR 0x5C # c # t)" unfolding entire_def by blast
qed

lemma digitChar_plain: "d < 16 \<Longrightarrow> digitChar d \<noteq> CHR 0x5C"
proof
  assume "d < 16" "digitChar d = CHR 0x5C"
  then have "byte (digitChar d) = byte (CHR 0x5C)" by simp
  with \<open>d < 16\<close> show False by (auto simp: digitChar_def byte_char_of split: if_splits)
qed

lemma entire_escapeByte:
  assumes "byte c < 0x80"
  shows "entire (escapeByte c)" "\<not> replaced (escapeByte c)"
proof -
  have "byte c div 16 < 16" using assms by (simp add: less_mult_imp_div_less)
  then have "CHR 0x5C \<notin> set (''00'' @ [digitChar (byte c div 16), digitChar (byte c mod 16)])"
    using digitChar_plain [of "byte c div 16"] digitChar_plain [of "byte c mod 16"] by auto
  from entire_escape [OF _ this, of "CHR ''u''"]
  have u: "entire (CHR 0x5C # ''u00'' @ [digitChar (byte c div 16), digitChar (byte c mod 16)])"
    "\<not> replaced (CHR 0x5C # ''u00'' @ [digitChar (byte c div 16), digitChar (byte c mod 16)])" by simp_all
  have "entire [CHR 0x5C, d] \<and> \<not> replaced [CHR 0x5C, d]" if "d \<noteq> CHR ''u''" for d
    using entire_escape [of d "[]"] that by simp
  with u show "entire (escapeByte c)" "\<not> replaced (escapeByte c)"
    by (simp_all add: escapeByte_def)
qed

lemma rune_no_backslash:
  assumes "0 < runeLen s" and "0x80 \<le> byte (hd s)"
  shows "CHR 0x5C \<notin> set (take (runeLen s) s)"
proof -
  obtain c cs where s: "s = c # cs" using assms by (cases s) auto
  with assms have "acceptRune (take (runeSize c) s)" "runeLen s = runeSize c"
    by (auto simp: runeLen_def Let_def split: if_splits)
  with s assms(2) show ?thesis
    by (cases "take (runeSize c) s" rule: acceptRune.cases) (auto simp: inRange_def list_all_iff take_Cons' split: if_splits)
qed

lemma entire_escapeRune:
  assumes "0 < runeLen s" and "0x80 \<le> byte (hd s)"
  shows "entire (escapeRune (take (runeLen s) s))" "\<not> replaced (escapeRune (take (runeLen s) s))"
  using entire_plain [OF rune_no_backslash [OF assms]] entire_escape [of "CHR ''u''" "''2028''"]
    entire_escape [of "CHR ''u''" "''2029''"]
  by (simp_all add: escapeRune_def)

lemma appendString_trace: "entire (appendString s) \<and> (replaced (appendString s) \<longleftrightarrow> \<not> validUTF8 s)"
proof (induction s rule: appendString.induct)
  case (1 s)
  show ?case
  proof (cases s)
    case Nil
    then show ?thesis by (simp add: appendString.simps entire_def)
  next
    case (Cons c cs)
    consider "byte c < 0x80" | "0x80 \<le> byte c" "runeLen s = 0" | "0x80 \<le> byte c" "0 < runeLen s" by fastforce
    then show ?thesis
    proof cases
      case 1
      have "entire (if htmlSafe c then [c] else escapeByte c) \<and> \<not> replaced (if htmlSafe c then [c] else escapeByte c)"
        using entire_escapeByte [OF 1] entire_plain [of "[c]"] by (auto simp: htmlSafe_def)
      moreover have "validUTF8 s \<longleftrightarrow> validUTF8 cs" using 1 Cons by (simp add: validUTF8.simps [of "c # cs"])
      moreover have "appendString s = (if htmlSafe c then [c] else escapeByte c) @ appendString cs"
        using 1 unfolding Cons by (simp add: appendString.simps [of "c # cs"])
      ultimately show ?thesis using "1.IH"(1) [OF Cons 1] entire_append by metis
    next
      case 2
      have "appendString s = CHR 0x5C # ''ufffd'' @ appendString cs"
        using 2 unfolding Cons by (simp add: appendString.simps [of "c # cs"])
      moreover have "\<not> validUTF8 s" using 2 unfolding Cons by (simp add: validUTF8.simps [of "c # cs"])
      ultimately show ?thesis by (simp add: entire_def)
    next
      case 3
      have "appendString s = escapeRune (take (runeLen s) s) @ appendString (drop (runeLen s) s)"
        using 3 unfolding Cons by (simp add: appendString.simps [of "c # cs"])
      moreover have "validUTF8 s \<longleftrightarrow> validUTF8 (drop (runeLen s) s)"
        using 3 unfolding Cons by (simp add: validUTF8.simps [of "c # cs"])
      moreover have "entire (appendString (drop (runeLen s) s))
          \<and> (replaced (appendString (drop (runeLen s) s)) \<longleftrightarrow> \<not> validUTF8 (drop (runeLen s) s))"
        using 3 by (intro "1.IH"(3) [OF Cons]) auto
      ultimately show ?thesis
        using entire_append [OF entire_escapeRune(1), of s] entire_escapeRune(2) [of s] 3 Cons by simp
    qed
  qed
qed

lemma quoteString_trace: "entire (quoteString s)" "replaced (quoteString s) \<longleftrightarrow> \<not> validUTF8 s"
  using appendString_trace [of s] by (simp_all add: quoteString_def entire_def)

end
