(* ===== verification/Go_JSON.thy ===== *)
theory Go_JSON
  imports JSON_Strings
begin

text \<open>
  JSON documents as \<open>encoding/json\<close> scans them: the grammar of values with the nesting limit of the
  scanner, and the way a value is decoded into a Go variable. A number is kept as its literal, since
  its meaning depends on the variable it is stored in.
\<close>

section \<open>Documents\<close>

datatype json =
    JNull
  | JBool bool
  | JNumber string
  | JString string
  | JArray "json list"
  | JObject "(string \<times> json) list"

definition isSpace :: "char \<Rightarrow> bool" where
  "isSpace c \<longleftrightarrow> c \<in> {CHR 0x20, CHR 0x09, CHR 0x0D, CHR 0x0A}"

definition skipSpace :: "string \<Rightarrow> string" where
  "skipSpace s = dropWhile isSpace s"

text \<open>The optional fraction and exponent of a number; a missing digit is a syntax error.\<close>

definition parseFraction :: "string \<Rightarrow> (string \<times> string) option" where
  "parseFraction s =
    (case s of
       [] \<Rightarrow> Some ([], [])
     | c # cs \<Rightarrow>
         if c \<noteq> CHR ''.'' then Some ([], s)
         else if takeWhile isDigit cs = [] then None
         else Some (c # takeWhile isDigit cs, dropWhile isDigit cs))"

definition parseExponent :: "string \<Rightarrow> (string \<times> string) option" where
  "parseExponent s =
    (case s of
       [] \<Rightarrow> Some ([], [])
     | c # cs \<Rightarrow>
         if c \<noteq> CHR ''e'' \<and> c \<noteq> CHR ''E'' then Some ([], s)
         else
           let sign = (case cs of [] \<Rightarrow> [] | d # _ \<Rightarrow> if d = CHR ''+'' \<or> d = CHR ''-'' then [d] else []);
               digits = drop (length sign) cs
           in if takeWhile isDigit digits = [] then None
              else Some (c # sign @ takeWhile isDigit digits, dropWhile isDigit digits))"

definition parseWhole :: "string \<Rightarrow> (string \<times> string) option" where
  "parseWhole s =
    (case s of
       [] \<Rightarrow> None
     | c # cs \<Rightarrow>
         if \<not> isDigit c then None
         else if c = CHR ''0'' then Some ([c], cs)
         else Some (takeWhile isDigit s, dropWhile isDigit s))"

definition parseNumber :: "string \<Rightarrow> (string \<times> string) option" where
  "parseNumber s =
    (let sign = (case s of [] \<Rightarrow> [] | c # _ \<Rightarrow> if c = CHR ''-'' then [c] else []) in
     case parseWhole (drop (length sign) s) of
       None \<Rightarrow> None
     | Some (whole, s2) \<Rightarrow>
         (case parseFraction s2 of
            None \<Rightarrow> None
          | Some (frac, s3) \<Rightarrow>
              (case parseExponent s3 of
                 None \<Rightarrow> None
               | Some (ex, s4) \<Rightarrow> Some (sign @ whole @ frac @ ex, s4))))"

definition parseLiteral :: "string \<Rightarrow> (json \<times> string) option" where
  "parseLiteral s =
    (if take 4 s = ''null'' then Some (JNull, drop 4 s)
     else if take 4 s = ''true'' then Some (JBool True, drop 4 s)
     else if take 5 s = ''false'' then Some (JBool False, drop 5 s)
     else map_option (\<lambda>(n, rest). (JNumber n, rest)) (parseNumber s))"

text \<open>
  The first argument is the number of arrays and objects that may still be opened. \<open>parseElements\<close>
  and \<open>parseMembers\<close> start after the opening bracket of a non-empty array or object.
\<close>

function parseValue :: "nat \<Rightarrow> string \<Rightarrow> (json \<times> string) option"
  and parseElements :: "nat \<Rightarrow> string \<Rightarrow> (json list \<times> string) option"
  and parseMembers :: "nat \<Rightarrow> string \<Rightarrow> ((string \<times> json) list \<times> string) option" where
  "parseValue depth s =
    (case skipSpace s of
       [] \<Rightarrow> None
     | c # cs \<Rightarrow>
         if c = CHR 0x22 then map_option (\<lambda>(t, rest). (JString t, rest)) (parseString cs)
         else if c = CHR ''['' then
           (if depth = 0 then None
            else case skipSpace cs of
              [] \<Rightarrow> None
            | e # es \<Rightarrow>
                if e = CHR '']'' then Some (JArray [], es)
                else map_option (\<lambda>(vs, rest). (JArray vs, rest)) (parseElements (depth - 1) cs))
         else if c = CHR ''{'' then
           (if depth = 0 then None
            else case skipSpace cs of
              [] \<Rightarrow> None
            | e # es \<Rightarrow>
                if e = CHR ''}'' then Some (JObject [], es)
                else map_option (\<lambda>(ms, rest). (JObject ms, rest)) (parseMembers (depth - 1) cs))
         else parseLiteral (c # cs))"
| "parseElements depth s =
    (case parseValue depth s of
       None \<Rightarrow> None
     | Some (v, s1) \<Rightarrow>
         (case skipSpace s1 of
            [] \<Rightarrow> None
          | e # es \<Rightarrow>
              if e = CHR '']'' then Some ([v], es)
              else if e = CHR '','' then
                map_option (\<lambda>(vs, rest). (v # vs, rest)) (parseElements depth es)
              else None))"
| "parseMembers depth s =
    (case skipSpace s of
       [] \<Rightarrow> None
     | q # s0 \<Rightarrow>
         if q \<noteq> CHR 0x22 then None
         else case parseString s0 of
           None \<Rightarrow> None
         | Some (k, s1) \<Rightarrow>
             (case skipSpace s1 of
                [] \<Rightarrow> None
              | e # s2 \<Rightarrow>
                  if e \<noteq> CHR '':'' then None
                  else case parseValue depth s2 of
                    None \<Rightarrow> None
                  | Some (v, s3) \<Rightarrow>
                      (case skipSpace s3 of
                         [] \<Rightarrow> None
                       | f # fs \<Rightarrow>
                           if f = CHR ''}'' then Some ([(k, v)], fs)
                           else if f = CHR '','' then
                             map_option (\<lambda>(ms, rest). ((k, v) # ms, rest)) (parseMembers depth fs)
                           else None)))"
  by pat_completeness auto

lemma skipSpace_le: "length (skipSpace s) \<le> length s"
  by (simp add: skipSpace_def length_dropWhile_le)

lemma skipSpace_Cons: "skipSpace s = c # cs \<Longrightarrow> length cs < length s"
  using skipSpace_le [of s] by simp

lemma parseFraction_le: "parseFraction s = Some (t, rest) \<Longrightarrow> length rest \<le> length s"
  by (auto simp: parseFraction_def le_SucI length_dropWhile_le split: list.splits if_splits)

lemma parseExponent_le: "parseExponent s = Some (t, rest) \<Longrightarrow> length rest \<le> length s"
  using length_dropWhile_le [of isDigit]
  by (fastforce simp: parseExponent_def Let_def split: list.splits if_splits intro: le_trans)

lemma parseWhole_shorter: "parseWhole s = Some (t, rest) \<Longrightarrow> length rest < length s"
  by (auto simp: parseWhole_def less_Suc_eq_le length_dropWhile_le split: list.splits if_splits)

lemma parseNumber_shorter:
  assumes "parseNumber s = Some (n, rest)"
  shows "length rest < length s"
proof -
  obtain m whole s2 frac s3 ex where "parseWhole (drop m s) = Some (whole, s2)"
    "parseFraction s2 = Some (frac, s3)" "parseExponent s3 = Some (ex, rest)"
    using assms by (auto simp: parseNumber_def Let_def split: option.splits)
  from parseWhole_shorter [OF this(1)] parseFraction_le [OF this(2)] parseExponent_le [OF this(3)]
  show ?thesis by simp
qed

lemma parseLiteral_shorter: "s \<noteq> [] \<Longrightarrow> parseLiteral s = Some (v, rest) \<Longrightarrow> length rest < length s"
  by (auto simp: parseLiteral_def dest: parseNumber_shorter split: if_splits)

lemma parse_shorter:
  "parseValue_parseElements_parseMembers_dom (Inl (depth, s)) \<Longrightarrow>
    \<forall>v rest. parseValue depth s = Some (v, rest) \<longrightarrow> length rest < length s"
  "parseValue_parseElements_parseMembers_dom (Inr (Inl (depth, s))) \<Longrightarrow>
    \<forall>vs rest. parseElements depth s = Some (vs, rest) \<longrightarrow> length rest < length s"
  "parseValue_parseElements_parseMembers_dom (Inr (Inr (depth, s))) \<Longrightarrow>
    \<forall>ms rest. parseMembers depth s = Some (ms, rest) \<longrightarrow> length rest < length s"
proof (induction rule: parseValue_parseElements_parseMembers.pinduct)
  case (1 depth s)
  show ?case
  proof (cases "skipSpace s")
    case (Cons c cs)
    have s: "length (c # cs) \<le> length s" using skipSpace_le [of s] Cons by simp
    show ?thesis
      using 1 Cons s
      by (fastforce simp: parseValue.psimps dest!: skipSpace_Cons parseString_shorter
        parseLiteral_shorter [rotated] split: list.splits if_splits)
  qed (use 1 in \<open>simp add: parseValue.psimps\<close>)
next
  case (2 depth s)
  then show ?case by (fastforce simp: parseElements.psimps dest!: skipSpace_Cons split: list.splits if_splits option.splits)
next
  case (3 depth s)
  then show ?case
    by (fastforce simp: parseMembers.psimps dest!: skipSpace_Cons parseString_shorter
        split: list.splits if_splits option.splits)
qed

termination parseValue
proof (relation "measure (\<lambda>x. case x of Inl (d, s) \<Rightarrow> 2 * length s
    | Inr (Inl (d, s)) \<Rightarrow> 2 * length s + 1 | Inr (Inr (d, s)) \<Rightarrow> 2 * length s)")
qed (auto dest!: skipSpace_Cons parseString_shorter parse_shorter)

declare parseValue.simps [simp del] parseElements.simps [simp del] parseMembers.simps [simp del]

text \<open>
  A whole document: one value and nothing else but white space, which is what \<open>Unmarshal\<close> demands
  and what a \<open>Decode\<close> followed by a \<open>Decode\<close> that reports the end of the input accepts.
\<close>

definition parseDocument :: "string \<Rightarrow> json option" where
  "parseDocument s =
    (case parseValue 10000 s of
       None \<Rightarrow> None
     | Some (v, rest) \<Rightarrow> if skipSpace rest = [] then Some v else None)"

section \<open>Decoding into variables\<close>

text \<open>
  Each decoder gets the value the variable has; \<open>null\<close> leaves it as it is. A value of another kind or
  out of range is an error.
\<close>

definition decodeString :: "json \<Rightarrow> string \<Rightarrow> string option" where
  "decodeString v old = (case v of JNull \<Rightarrow> Some old | JString t \<Rightarrow> Some t | _ \<Rightarrow> None)"

definition decodeInt64 :: "json \<Rightarrow> int64 \<Rightarrow> int64 option" where
  "decodeInt64 v old = (case v of JNull \<Rightarrow> Some old | JNumber n \<Rightarrow> ParseInt n | _ \<Rightarrow> None)"

definition decodeUint64 :: "json \<Rightarrow> uint64 \<Rightarrow> uint64 option" where
  "decodeUint64 v old = (case v of JNull \<Rightarrow> Some old | JNumber n \<Rightarrow> ParseUint n | _ \<Rightarrow> None)"

text \<open>
  A slice variable is its elements and the content of its backing array, of which they are a prefix.
  Decoding an array reuses the backing array, so an element \<open>null\<close>, or a field an element does not
  mention, shows what was there before.
\<close>

fun decodeElements :: "(json \<Rightarrow> 'e \<Rightarrow> 'e option) \<Rightarrow> 'e \<Rightarrow> 'e list \<Rightarrow> json list \<Rightarrow> 'e list option" where
  "decodeElements dec zero memory [] = Some []"
| "decodeElements dec zero memory (v # vs) =
    (case dec v (case memory of [] \<Rightarrow> zero | old # _ \<Rightarrow> old) of
       None \<Rightarrow> None
     | Some x \<Rightarrow> map_option (\<lambda>xs. x # xs) (decodeElements dec zero (tl memory) vs))"

definition decodeSlice ::
    "(json \<Rightarrow> 'e \<Rightarrow> 'e option) \<Rightarrow> 'e \<Rightarrow> json \<Rightarrow> 'e list \<times> 'e list \<Rightarrow> ('e list \<times> 'e list) option" where
  "decodeSlice dec zero v old =
    (case v of
       JNull \<Rightarrow> Some ([], [])
     | JArray vs \<Rightarrow>
         map_option (\<lambda>xs. if xs = [] then ([], []) else (xs, xs @ drop (length xs) (snd old)))
           (decodeElements dec zero (snd old) vs)
     | _ \<Rightarrow> None)"

section \<open>Structs\<close>

text \<open>
  The description of a struct that the package derives from its type: for each field the name in
  its tag, whether its value is left out (\<open>omitempty\<close>) and the text of its value; and, where the
  program decodes the struct, how a value is stored in it.
\<close>

record 'a encodedField =
  fieldName :: string
  fieldOmitted :: "'a \<Rightarrow> bool"
  fieldEncode :: "'a \<Rightarrow> string"

record 'a structField = "'a encodedField" +
  fieldDecode :: "json \<Rightarrow> 'a \<Rightarrow> 'a option"

text \<open>
  \<open>foldName\<close> for comparison with a name in ASCII: letters are compared without case, and the two runes
  outside ASCII that fold to ASCII letters are U+017F and U+212A.
\<close>

definition toUpper :: "char \<Rightarrow> char" where
  "toUpper c = (if inRange 97 122 c then char_of (byte c - 32) else c)"

function foldName :: "string \<Rightarrow> string" where
  "foldName s =
    (case s of
       [] \<Rightarrow> []
     | c # cs \<Rightarrow>
         if byte c < 0x80 then toUpper c # foldName cs
         else if runeLen s = 0 then runeError @ foldName cs
         else
           (if take (runeLen s) s = [CHR 0xC5, CHR 0xBF] then ''S''
            else if take (runeLen s) s = [CHR 0xE2, CHR 0x84, CHR 0xAA] then ''K''
            else take (runeLen s) s) @ foldName (drop (runeLen s) s))"
  by pat_completeness auto
termination foldName
  by (relation "measure length") auto

declare foldName.simps [simp del]

definition lookupField :: "'a structField list \<Rightarrow> string \<Rightarrow> 'a structField option" where
  "lookupField fs k =
    (case find (\<lambda>f. fieldName f = k) fs of
       Some f \<Rightarrow> Some f
     | None \<Rightarrow> find (\<lambda>f. foldName (fieldName f) = foldName k) fs)"

text \<open>\<open>strict\<close> is \<open>DisallowUnknownFields\<close>.\<close>

fun decodeMembers :: "bool \<Rightarrow> 'a structField list \<Rightarrow> (string \<times> json) list \<Rightarrow> 'a \<Rightarrow> 'a option" where
  "decodeMembers strict fs [] x = Some x"
| "decodeMembers strict fs ((k, v) # ms) x =
    (case lookupField fs k of
       None \<Rightarrow> if strict then None else decodeMembers strict fs ms x
     | Some f \<Rightarrow>
         (case fieldDecode f v x of
            None \<Rightarrow> None
          | Some y \<Rightarrow> decodeMembers strict fs ms y))"

definition decodeStruct :: "bool \<Rightarrow> 'a structField list \<Rightarrow> json \<Rightarrow> 'a \<Rightarrow> 'a option" where
  "decodeStruct strict fs v x =
    (case v of JNull \<Rightarrow> Some x | JObject ms \<Rightarrow> decodeMembers strict fs ms x | _ \<Rightarrow> None)"

definition unmarshalStruct :: "bool \<Rightarrow> 'a structField list \<Rightarrow> 'a \<Rightarrow> string \<Rightarrow> 'a option" where
  "unmarshalStruct strict fs zero s =
    (case parseDocument s of None \<Rightarrow> None | Some v \<Rightarrow> decodeStruct strict fs v zero)"

definition encodeMember :: "'a \<Rightarrow> ('a, 'm) encodedField_scheme \<Rightarrow> string" where
  "encodeMember x f = quoteString (fieldName f) @ '':'' @ fieldEncode f x"

definition marshalStruct :: "('a, 'm) encodedField_scheme list \<Rightarrow> 'a \<Rightarrow> string" where
  "marshalStruct fs x =
    ''{'' @ joinStrings '','' (map (encodeMember x) (filter (\<lambda>f. \<not> fieldOmitted f x) fs)) @ ''}''"

text \<open>The kinds of fields the program's structs have; \<open>omit\<close> says whether the tag has \<open>omitempty\<close>.\<close>

definition stringField :: "string \<Rightarrow> bool \<Rightarrow> ('a \<Rightarrow> string) \<Rightarrow> (string \<Rightarrow> 'a \<Rightarrow> 'a) \<Rightarrow> 'a structField" where
  "stringField name omit get put =
    \<lparr>fieldName = name, fieldOmitted = (\<lambda>x. omit \<and> get x = []), fieldEncode = (\<lambda>x. quoteString (get x)),
     fieldDecode = (\<lambda>v x. map_option (\<lambda>t. put t x) (decodeString v (get x)))\<rparr>"

definition int64Field :: "string \<Rightarrow> bool \<Rightarrow> ('a \<Rightarrow> int64) \<Rightarrow> (int64 \<Rightarrow> 'a \<Rightarrow> 'a) \<Rightarrow> 'a structField" where
  "int64Field name omit get put =
    \<lparr>fieldName = name, fieldOmitted = (\<lambda>x. omit \<and> get x = 0), fieldEncode = (\<lambda>x. FormatInt (get x)),
     fieldDecode = (\<lambda>v x. map_option (\<lambda>t. put t x) (decodeInt64 v (get x)))\<rparr>"

definition uint64Field :: "string \<Rightarrow> bool \<Rightarrow> ('a \<Rightarrow> uint64) \<Rightarrow> (uint64 \<Rightarrow> 'a \<Rightarrow> 'a) \<Rightarrow> 'a structField" where
  "uint64Field name omit get put =
    \<lparr>fieldName = name, fieldOmitted = (\<lambda>x. omit \<and> get x = 0), fieldEncode = (\<lambda>x. FormatUint (get x) 10),
     fieldDecode = (\<lambda>v x. map_option (\<lambda>t. put t x) (decodeUint64 v (get x)))\<rparr>"

definition encodeStrings :: "string list \<Rightarrow> string" where
  "encodeStrings xs = ''['' @ joinStrings '','' (map quoteString xs) @ '']''"

definition stringsField ::
    "string \<Rightarrow> ('a \<Rightarrow> string list \<times> string list) \<Rightarrow> (string list \<times> string list \<Rightarrow> 'a \<Rightarrow> 'a) \<Rightarrow> 'a structField" where
  "stringsField name get put =
    \<lparr>fieldName = name, fieldOmitted = (\<lambda>x. fst (get x) = []), fieldEncode = (\<lambda>x. encodeStrings (fst (get x))),
     fieldDecode = (\<lambda>v x. map_option (\<lambda>t. put t x) (decodeSlice decodeString [] v (get x)))\<rparr>"

end
