(* ===== verification/JSON_Codec.thy ===== *)
theory JSON_Codec
  imports Go_JSON
begin

text \<open>
  Decoding inverts encoding. First the scanner on what the encoder prints for strings, integers and
  arrays of strings; then, in the locale \<open>struct_codec\<close>, the round trip of a whole struct from the
  laws of its fields, for every struct at once.
\<close>

section \<open>Scanning what was printed\<close>

text \<open>What follows a value inside an object or array.\<close>

definition delimited :: "string \<Rightarrow> bool" where
  "delimited rest \<longleftrightarrow> rest \<noteq> [] \<and> hd rest \<in> {CHR '','', CHR ''}'', CHR '']''}"

lemma delimited_Cons [simp]:
  "delimited (CHR '','' # rest)" "delimited (CHR ''}'' # rest)" "delimited (CHR '']'' # rest)"
  by (simp_all add: delimited_def)

lemma skipSpace_stop: "\<not> isSpace c \<Longrightarrow> skipSpace (c # cs) = c # cs"
  by (simp add: skipSpace_def)

lemma skipSpace_simps [simp]:
  "skipSpace (CHR 0x22 # cs) = CHR 0x22 # cs" "skipSpace (CHR '':'' # cs) = CHR '':'' # cs"
  "skipSpace (CHR '','' # cs) = CHR '','' # cs" "skipSpace (CHR ''}'' # cs) = CHR ''}'' # cs"
  "skipSpace (CHR '']'' # cs) = CHR '']'' # cs" "skipSpace (CHR ''{'' # cs) = CHR ''{'' # cs"
  "skipSpace (CHR ''['' # cs) = CHR ''['' # cs" "skipSpace [] = []"
  by (simp_all add: skipSpace_def isSpace_def)

lemma parse_quoteString:
  "parseValue depth (quoteString s @ rest) = Some (JString (coerceUTF8 s), rest)"
  by (subst parseValue.simps) (simp add: quoteString_def parse_coerced)

lemma formatBits_head:
  "0 < n \<Longrightarrow> hd (formatBits 10 n) \<noteq> CHR ''0''"
proof (induction n rule: less_induct)
  case (less n)
  show ?case
  proof (cases "n < 10")
    case True
    then have "byte (digitChar n) = 48 + n" by (simp add: digitChar_def byte_char_of)
    with less.prems have "byte (digitChar n) \<noteq> byte (CHR ''0'')" by simp
    with True show ?thesis by (auto simp: formatBits.simps [of 10 n])
  next
    case False
    with less.IH [of "n div 10"] show ?thesis by (simp add: formatBits.simps [of 10 n])
  qed
qed

lemma parse_tail:
  assumes "delimited rest"
  shows "parseFraction rest = Some ([], rest)" "parseExponent rest = Some ([], rest)"
  using assms by (auto simp: delimited_def parseFraction_def parseExponent_def split: list.split)

lemma scan_digits:
  assumes "delimited rest"
  shows "takeWhile isDigit (formatBits 10 n @ rest) = formatBits 10 n"
    and "dropWhile isDigit (formatBits 10 n @ rest) = rest"
proof -
  obtain c cs where "rest = c # cs" "\<not> isDigit c"
    using assms by (cases rest) (auto simp: delimited_def isDigit_def)
  then show "takeWhile isDigit (formatBits 10 n @ rest) = formatBits 10 n"
      "dropWhile isDigit (formatBits 10 n @ rest) = rest"
    using formatBits_digits [of n] by (simp_all add: takeWhile_append dropWhile_append list_all_iff)
qed

lemma parseWhole_formatBits:
  assumes "delimited rest"
  shows "parseWhole (formatBits 10 n @ rest) = Some (formatBits 10 n, rest)"
proof (cases "n = 0")
  case True
  then show ?thesis by (simp add: formatBits.simps [of 10 0] digitChar_def parseWhole_def isDigit_def char_of_def bit_0)
next
  case False
  obtain c cs where c: "formatBits 10 n = c # cs" "isDigit c" by (rule formatBits_Cons)
  with formatBits_head [of n] False have "c \<noteq> CHR ''0''" by simp
  with c scan_digits [OF assms, of n] show ?thesis by (simp add: parseWhole_def)
qed

lemma parseNumber_formatBits:
  assumes "delimited rest" and "sign = [] \<or> sign = ''-''"
  shows "parseNumber (sign @ formatBits 10 n @ rest) = Some (sign @ formatBits 10 n, rest)"
proof -
  obtain c cs where c: "formatBits 10 n = c # cs" "isDigit c" by (rule formatBits_Cons)
  have "(case sign @ formatBits 10 n @ rest of [] \<Rightarrow> [] | c # _ \<Rightarrow> if c = CHR ''-'' then [c] else []) = sign"
    using assms(2) c digit_not_sign [OF c(2)] by auto
  then show ?thesis
    using parseWhole_formatBits [OF assms(1), of n] parse_tail [OF assms(1)]
    unfolding parseNumber_def by simp
qed

lemma parseLiteral_number:
  assumes "s = c # cs" and "isDigit c \<or> c = CHR ''-''" and "parseNumber s = Some (n, rest)"
  shows "parseValue depth s = Some (JNumber n, rest)"
proof -
  have "c \<notin> {CHR 0x20, CHR 0x09, CHR 0x0D, CHR 0x0A, CHR 0x22, CHR ''['', CHR ''{'', CHR ''n'', CHR ''t'', CHR ''f''}"
    using assms(2) by (auto simp: isDigit_def)
  with assms show ?thesis
    by (subst parseValue.simps) (simp add: skipSpace_stop isSpace_def parseLiteral_def)
qed

lemma parse_FormatUint:
  assumes "delimited rest"
  shows "parseValue depth (FormatUint n 10 @ rest) = Some (JNumber (FormatUint n 10), rest)"
proof -
  obtain c cs where c: "formatBits 10 (unat n) = c # cs" "isDigit c" by (rule formatBits_Cons)
  with parseNumber_formatBits [OF assms, of "[]" "unat n"] show ?thesis
    by (intro parseLiteral_number) (auto simp: FormatUint_def)
qed

lemma parse_FormatInt:
  assumes "delimited rest"
  shows "parseValue depth (FormatInt n @ rest) = Some (JNumber (FormatInt n), rest)"
proof (cases "n <s 0")
  case True
  with parseNumber_formatBits [OF assms, of "''-''" "nat (- sint n)"] show ?thesis
    by (intro parseLiteral_number) (auto simp: FormatInt_def)
next
  case False
  obtain c cs where c: "formatBits 10 (nat (sint n)) = c # cs" "isDigit c" by (rule formatBits_Cons)
  with False parseNumber_formatBits [OF assms, of "[]" "nat (sint n)"] show ?thesis
    by (intro parseLiteral_number) (auto simp: FormatInt_def)
qed

lemma parse_strings:
  assumes "xs \<noteq> []"
  shows "parseElements depth (joinStrings '','' (map quoteString xs) @ CHR '']'' # rest)
    = Some (map (JString \<circ> coerceUTF8) xs, rest)"
  using assms
proof (induction xs rule: list_nonempty_induct)
  case (single x)
  then show ?case by (subst parseElements.simps) (simp add: parse_quoteString)
next
  case (cons x xs)
  then obtain y ys where "xs = y # ys" by (cases xs) auto
  with cons show ?case by (subst parseElements.simps) (simp add: parse_quoteString)
qed

lemma parse_encodeStrings:
  assumes "0 < depth"
  shows "parseValue depth (encodeStrings xs @ rest) = Some (JArray (map (JString \<circ> coerceUTF8) xs), rest)"
proof (cases xs)
  case Nil
  with assms show ?thesis by (subst parseValue.simps) (simp add: encodeStrings_def)
next
  case (Cons x ys)
  then obtain t where "joinStrings '','' (map quoteString xs) @ CHR '']'' # rest = CHR 0x22 # t"
    by (cases ys) (simp_all add: quoteString_def)
  with parse_strings [of xs "depth - 1" rest] assms Cons show ?thesis
    by (subst parseValue.simps) (simp add: encodeStrings_def)
qed

lemma coerce_strings: "list_all validUTF8 xs \<Longrightarrow> map (JString \<circ> coerceUTF8) xs = map JString xs"
  by (induction xs) (simp_all add: coerceUTF8_valid)

section \<open>Structs\<close>

text \<open>
  A text is scanned to a value, whatever follows it, when more than \<open>n\<close> arrays and objects may still be
  opened.
\<close>

definition scansIn :: "nat \<Rightarrow> string \<Rightarrow> json \<Rightarrow> bool" where
  "scansIn n text v \<longleftrightarrow>
    (\<forall>depth rest. n < depth \<longrightarrow> delimited rest \<longrightarrow> parseValue depth (text @ rest) = Some (v, rest))"

abbreviation scans :: "string \<Rightarrow> json \<Rightarrow> bool" where
  "scans \<equiv> scansIn 0"

lemma scansIn_mono: "scansIn m text v \<Longrightarrow> m \<le> n \<Longrightarrow> scansIn n text v"
  by (simp add: scansIn_def)

lemma scan_members:
  assumes "gs \<noteq> []" and "\<forall>f \<in> set gs. validUTF8 (fieldName f) \<and> scansIn n (fieldEncode f x) (val f)" and "n < depth"
  shows "parseMembers depth (joinStrings '','' (map (encodeMember x) gs) @ CHR ''}'' # rest)
    = Some (map (\<lambda>f. (fieldName f, val f)) gs, rest)"
  using assms(1,2)
proof (induction gs rule: list_nonempty_induct)
  case (single f)
  then show ?case
    using assms(3)
    by (subst parseMembers.simps) (simp add: encodeMember_def quoteString_def parse_appendString scansIn_def)
next
  case (cons f gs)
  obtain g gs' where gs: "gs = g # gs'" using cons(1) by (cases gs) auto
  have f: "validUTF8 (fieldName f)" "scansIn n (fieldEncode f x) (val f)" using cons.prems by simp_all
  have "parseMembers depth (joinStrings '','' (map (encodeMember x) gs) @ CHR ''}'' # rest)
      = Some (map (\<lambda>f. (fieldName f, val f)) gs, rest)" using cons by simp
  then show ?case
    using f assms(3) unfolding gs
    by (subst parseMembers.simps) (simp add: encodeMember_def quoteString_def parse_appendString scansIn_def)
qed

theorem scan_struct:
  assumes fields: "\<forall>f \<in> set fs. validUTF8 (fieldName f)
      \<and> (\<not> fieldOmitted f x \<longrightarrow> scansIn n (fieldEncode f x) (val f))" and "Suc n < depth"
  shows "parseValue depth (marshalStruct fs x @ rest)
    = Some (JObject (map (\<lambda>f. (fieldName f, val f)) (filter (\<lambda>f. \<not> fieldOmitted f x) fs)), rest)"
proof (cases "filter (\<lambda>f. \<not> fieldOmitted f x) fs")
  case Nil
  then show ?thesis using assms(2) by (subst parseValue.simps) (simp add: marshalStruct_def)
next
  case (Cons g gs)
  then have "joinStrings '','' (map (encodeMember x) (g # gs))
      = CHR 0x22 # joinStrings '','' (tl (encodeMember x g) # map (encodeMember x) gs)"
    by (simp add: encodeMember_def quoteString_def joinStrings_Cons)
  moreover have "\<forall>f \<in> set (g # gs). validUTF8 (fieldName f) \<and> scansIn n (fieldEncode f x) (val f)"
    using fields unfolding Cons [symmetric] by simp
  then have "parseMembers (depth - 1) (joinStrings '','' (map (encodeMember x) (g # gs)) @ CHR ''}'' # rest)
      = Some (map (\<lambda>f. (fieldName f, val f)) (g # gs), rest)"
    using assms(2) by (intro scan_members [where n = n]) simp_all
  ultimately show ?thesis
    using assms(2) unfolding marshalStruct_def Cons by (subst parseValue.simps) simp
qed

text \<open>
  The laws of a struct's description. Every field comes with its assignment \<open>put x y\<close>, which copies
  the field from \<open>x\<close> into \<open>y\<close>; \<open>good\<close> restricts the values to those that have an encoding.
\<close>

locale struct_codec =
  fixes table :: "('a structField \<times> ('a \<Rightarrow> 'a \<Rightarrow> 'a)) list" and zero :: 'a and good :: "'a \<Rightarrow> bool"
  assumes names: "distinct (map (fieldName \<circ> fst) table)"
    and plain: "(f, put) \<in> set table \<Longrightarrow> validUTF8 (fieldName f)"
    and field: "(f, put) \<in> set table \<Longrightarrow> good x \<Longrightarrow> \<not> fieldOmitted f x \<Longrightarrow>
      \<exists>v. scans (fieldEncode f x) v \<and> (\<forall>y. fieldDecode f v y = Some (put x y))"
    and omitted: "(f, put) \<in> set table \<Longrightarrow> fieldOmitted f x \<Longrightarrow> put x y = put zero y"
    and keeps: "(f, put) \<in> set table \<Longrightarrow> put zero zero = zero"
    and commute: "(f, put) \<in> set table \<Longrightarrow> (g, put') \<in> set table \<Longrightarrow> fieldName f \<noteq> fieldName g \<Longrightarrow>
      put x (put' y z) = put' y (put x z)"
    and complete: "good x \<Longrightarrow> fold (\<lambda>(f, put). put x) table zero = x"
begin

abbreviation fieldsOf :: "'a structField list" where
  "fieldsOf \<equiv> map fst table"

lemma lookup:
  assumes "(f, put) \<in> set table"
  shows "lookupField fieldsOf (fieldName f) = Some f"
proof -
  have "find (\<lambda>g. fieldName g = fieldName f) fieldsOf = Some f"
    using names assms
  proof (induction table)
    case (Cons e es)
    then show ?case by (auto simp: image_iff)
  qed simp
  then show ?thesis by (simp add: lookupField_def)
qed

lemma decode_written:
  assumes "set gs \<subseteq> set table" and "\<forall>(f, put) \<in> set gs. \<forall>y. fieldDecode f (val f) y = Some (put x y)"
  shows "decodeMembers strict fieldsOf (map (\<lambda>f. (fieldName f, val f)) (map fst gs)) y
    = Some (fold (\<lambda>(f, put). put x) gs y)"
  using assms
proof (induction gs arbitrary: y)
  case (Cons e gs)
  obtain f p where e: "e = (f, p)" by (cases e)
  then show ?case using Cons lookup [of f p] by simp
qed simp

lemma put_zero:
  assumes "set pre \<subseteq> set table" and "(f, put) \<in> set table" and "fieldName f \<notin> fieldName ` fst ` set pre"
  shows "put zero (fold (\<lambda>(f, put). put x) pre zero) = fold (\<lambda>(f, put). put x) pre zero"
  using assms
proof (induction pre rule: rev_induct)
  case (snoc e pre)
  obtain g p where e: "e = (g, p)" by (cases e)
  with snoc commute [of f put g p zero x "fold (\<lambda>(f, put). put x) pre zero"] show ?case by auto
qed (use keeps in simp)

lemma fold_written:
  assumes "table = pre @ post"
  shows "fold (\<lambda>(f, put). put x) (filter (\<lambda>(f, put). \<not> fieldOmitted f x) pre) zero
    = fold (\<lambda>(f, put). put x) pre zero"
  using assms
proof (induction pre arbitrary: post rule: rev_induct)
  case (snoc e pre)
  obtain f p where e: "e = (f, p)" by (cases e)
  have IH: "fold (\<lambda>(f, put). put x) (filter (\<lambda>(f, put). \<not> fieldOmitted f x) pre) zero
      = fold (\<lambda>(f, put). put x) pre zero"
    using snoc.IH [of "e # post"] snoc.prems by simp
  show ?case
  proof (cases "fieldOmitted f x")
    case True
    have "fieldName f \<notin> fieldName ` fst ` set pre" using names snoc.prems e by auto
    then have "p zero (fold (\<lambda>(f, put). put x) pre zero) = fold (\<lambda>(f, put). put x) pre zero"
      using snoc.prems e by (intro put_zero [of pre f p]) auto
    with omitted [of f p x] True e snoc.prems IH show ?thesis by auto
  qed (use e IH in simp)
qed simp

theorem scan_decode:
  assumes "good x"
  shows "\<exists>v. (\<forall>depth rest. 1 < depth \<longrightarrow> parseValue depth (marshalStruct fieldsOf x @ rest) = Some (v, rest))
    \<and> decodeStruct strict fieldsOf v zero = Some x"
proof -
  let ?gs = "filter (\<lambda>(f, put). \<not> fieldOmitted f x) table"
  have "\<forall>e \<in> set table. \<exists>v. \<not> fieldOmitted (fst e) x \<longrightarrow>
      scans (fieldEncode (fst e) x) v \<and> (\<forall>y. fieldDecode (fst e) v y = Some (snd e x y))"
    using field [OF _ assms] by fastforce
  then obtain w where w: "\<forall>e \<in> set table. \<not> fieldOmitted (fst e) x \<longrightarrow>
      scans (fieldEncode (fst e) x) (w e) \<and> (\<forall>y. fieldDecode (fst e) (w e) y = Some (snd e x y))"
    by metis
  define val where "val f = w (f, the (map_of table f))" for f
  have "distinct (map fst table)" using names by (metis distinct_map map_map)
  then have val: "val f = w (f, p)" if "(f, p) \<in> set table" for f p
    using that by (simp add: val_def)
  have "\<forall>f \<in> set fieldsOf. validUTF8 (fieldName f)
      \<and> (\<not> fieldOmitted f x \<longrightarrow> scansIn 0 (fieldEncode f x) (val f))"
    using plain w val by fastforce
  note scan = scan_struct [OF this]
  have written: "filter (\<lambda>f. \<not> fieldOmitted f x) fieldsOf = map fst ?gs"
    by (simp add: filter_map o_def case_prod_beta')
  have "decodeMembers strict fieldsOf (map (\<lambda>f. (fieldName f, val f)) (map fst ?gs)) zero
      = Some (fold (\<lambda>(f, put). put x) ?gs zero)"
    using w val by (intro decode_written) fastforce+
  then have "decodeStruct strict fieldsOf
      (JObject (map (\<lambda>f. (fieldName f, val f)) (filter (\<lambda>f. \<not> fieldOmitted f x) fieldsOf))) zero = Some x"
    unfolding written using fold_written [of table "[]" x] complete [OF assms] by (simp add: decodeStruct_def)
  with scan show ?thesis by auto
qed

text \<open>Space after the value, such as the line feed that \<open>Encoder.Encode\<close> writes, is ignored.\<close>

theorem roundtrip_space:
  assumes "good x" and "skipSpace rest = []"
  shows "unmarshalStruct strict fieldsOf zero (marshalStruct fieldsOf x @ rest) = Some x"
  using scan_decode [OF assms(1), of strict] assms(2)
  by (auto simp: unmarshalStruct_def parseDocument_def)

theorem roundtrip:
  assumes "good x"
  shows "unmarshalStruct strict fieldsOf zero (marshalStruct fieldsOf x) = Some x"
  using roundtrip_space [OF assms, of "[]"] by simp

end

text \<open>
  Where a field shows in its text whether bytes were replaced, the encoding of a good value is the
  encoding of no other value. \<open>shaped\<close> is what good values satisfy besides being well-formed.
\<close>

locale traced_codec = struct_codec +
  fixes shaped :: "'a \<Rightarrow> bool"
  assumes traced: "(f, put) \<in> set table \<Longrightarrow> entire (fieldEncode f x)"
    and good_clean: "(f, put) \<in> set table \<Longrightarrow> good x \<Longrightarrow> \<not> fieldOmitted f x \<Longrightarrow> \<not> replaced (fieldEncode f x)"
    and clean_good: "shaped x \<Longrightarrow> (\<And>f put. (f, put) \<in> set table \<Longrightarrow> \<not> fieldOmitted f x \<Longrightarrow> \<not> replaced (fieldEncode f x))
      \<Longrightarrow> good x"
begin

lemma encodeMember_trace:
  assumes "(f, put) \<in> set table"
  shows "entire (encodeMember x f)" "replaced (encodeMember x f) \<longleftrightarrow> replaced (fieldEncode f x)"
  using quoteString_trace [of "fieldName f"] plain [OF assms] traced [OF assms, of x] entire_plain [of "'':''"]
  by (simp_all add: encodeMember_def entire_def)

lemma join_trace:
  "\<forall>t \<in> set ts. entire t \<Longrightarrow>
    entire (joinStrings '','' ts) \<and> (replaced (joinStrings '','' ts) \<longleftrightarrow> (\<exists>t \<in> set ts. replaced t))"
  by (induction ts rule: remdups_adj.induct) (auto simp: entire_def)

lemma marshal_trace:
  "replaced (marshalStruct fieldsOf x) \<longleftrightarrow>
    (\<exists>(f, put) \<in> set table. \<not> fieldOmitted f x \<and> replaced (fieldEncode f x))"
proof -
  let ?ts = "map (encodeMember x) (filter (\<lambda>f. \<not> fieldOmitted f x) fieldsOf)"
  have "entire (joinStrings '','' ?ts) \<and> (replaced (joinStrings '','' ?ts) \<longleftrightarrow> (\<exists>t \<in> set ?ts. replaced t))"
    by (rule join_trace) (auto simp: encodeMember_trace)
  then have "replaced (marshalStruct fieldsOf x) \<longleftrightarrow> (\<exists>t \<in> set ?ts. replaced t)"
    by (simp add: marshalStruct_def entire_def)
  also have "\<dots> \<longleftrightarrow> (\<exists>(f, put) \<in> set table. \<not> fieldOmitted f x \<and> replaced (fieldEncode f x))"
  proof -
    have "replaced (encodeMember x (fst e)) \<longleftrightarrow> replaced (fieldEncode (fst e) x)" if "e \<in> set table" for e
      using encodeMember_trace(2) [of "fst e" "snd e"] that by simp
    then show ?thesis by (auto simp: split_beta)
  qed
  finally show ?thesis .
qed

theorem marshal_inj:
  assumes "good x" and "shaped y" and "marshalStruct fieldsOf y = marshalStruct fieldsOf x"
  shows "y = x"
proof -
  have "\<not> replaced (marshalStruct fieldsOf x)"
    unfolding marshal_trace using good_clean [OF _ assms(1)] by (simp add: split_beta) (metis prod.collapse)
  then have "\<not> replaced (marshalStruct fieldsOf y)" using assms(3) by simp
  then have no: "\<not> (\<exists>(f, put) \<in> set table. \<not> fieldOmitted f y \<and> replaced (fieldEncode f y))"
    by (simp only: marshal_trace) simp
  have "good y"
  proof (rule clean_good [OF assms(2)])
    fix f put assume "(f, put) \<in> set table" "\<not> fieldOmitted f y"
    with no show "\<not> replaced (fieldEncode f y)" by blast
  qed
  from roundtrip [OF this, of False] roundtrip [OF assms(1), of False] show ?thesis
    unfolding assms(3) by simp
qed

end

section \<open>Laws of the kinds of fields\<close>

lemma stringField_scan:
  assumes "validUTF8 (get x)"
  shows "\<exists>v. scans (fieldEncode (stringField n om get put) x) v
    \<and> (\<forall>y. fieldDecode (stringField n om get put) v y = Some (put (get x) y))"
  using assms
  by (intro exI [of _ "JString (get x)"]) (simp add: stringField_def scansIn_def parse_quoteString coerceUTF8_valid decodeString_def)

lemma int64Field_scan:
  "\<exists>v. scans (fieldEncode (int64Field n om get put) x) v
    \<and> (\<forall>y. fieldDecode (int64Field n om get put) v y = Some (put (get x) y))"
  by (intro exI [of _ "JNumber (FormatInt (get x))"])
    (simp add: int64Field_def scansIn_def parse_FormatInt decodeInt64_def ParseInt_FormatInt)

lemma uint64Field_scan:
  "\<exists>v. scans (fieldEncode (uint64Field n om get put) x) v
    \<and> (\<forall>y. fieldDecode (uint64Field n om get put) v y = Some (put (get x) y))"
  by (intro exI [of _ "JNumber (FormatUint (get x) 10)"])
    (simp add: uint64Field_def scansIn_def parse_FormatUint decodeUint64_def)

lemma decodeElements_strings:
  "decodeElements decodeString [] memory (map JString xs) = Some xs"
  by (induction xs arbitrary: memory) (simp_all add: decodeString_def)

text \<open>The assignment of a slice: the elements, in a backing array that keeps what was behind them.\<close>

definition putSlice :: "string list \<times> string list \<Rightarrow> string list \<times> string list \<Rightarrow> string list \<times> string list" where
  "putSlice new old = (fst new, fst new @ drop (length (fst new)) (snd old))"

lemma stringsField_scan:
  assumes "list_all validUTF8 (fst (get x))" and "fst (get x) \<noteq> []"
  shows "\<exists>v. scans (fieldEncode (stringsField n get put) x) v
    \<and> (\<forall>y. fieldDecode (stringsField n get put) v y = Some (put (putSlice (get x) (get y)) y))"
  using assms
  by (intro exI [of _ "JArray (map JString (fst (get x)))"])
    (simp add: stringsField_def scansIn_def parse_encodeStrings coerce_strings decodeSlice_def decodeElements_strings
      putSlice_def)

lemmas field_scans = stringField_scan int64Field_scan uint64Field_scan stringsField_scan

lemma field_names [simp]:
  "fieldName (stringField n om get put) = n" "fieldName (int64Field n om geti puti) = n"
  "fieldName (uint64Field n om getu putu) = n" "fieldName (stringsField n gets puts) = n"
  by (simp_all add: stringField_def int64Field_def uint64Field_def stringsField_def)

lemma field_omitted [simp]:
  "fieldOmitted (stringField n om get put) x \<longleftrightarrow> om \<and> get x = []"
  "fieldOmitted (int64Field n om geti puti) x \<longleftrightarrow> om \<and> geti x = 0"
  "fieldOmitted (uint64Field n om getu putu) x \<longleftrightarrow> om \<and> getu x = 0"
  "fieldOmitted (stringsField n gets puts) x \<longleftrightarrow> fst (gets x) = []"
  by (simp_all add: stringField_def int64Field_def uint64Field_def stringsField_def)

lemma digits_plain: "CHR 0x5C \<notin> set (formatBits 10 n)"
  using formatBits_digits [of n] by (auto simp: list_all_iff isDigit_def)

lemma encodeStrings_trace:
  "entire (encodeStrings xs)" "replaced (encodeStrings xs) \<longleftrightarrow> \<not> list_all validUTF8 xs"
proof -
  have "entire (joinStrings '','' (map quoteString xs))
      \<and> (replaced (joinStrings '','' (map quoteString xs)) \<longleftrightarrow> \<not> list_all validUTF8 xs)"
    by (induction xs rule: remdups_adj.induct) (use quoteString_trace in \<open>auto simp: entire_def\<close>)
  then show "entire (encodeStrings xs)" "replaced (encodeStrings xs) \<longleftrightarrow> \<not> list_all validUTF8 xs"
    by (simp_all add: encodeStrings_def entire_def)
qed

lemma field_traces [simp]:
  "entire (fieldEncode (stringField n om get put) x)"
  "entire (fieldEncode (int64Field n om geti puti) x)"
  "entire (fieldEncode (uint64Field n om getu putu) x)"
  "entire (fieldEncode (stringsField n gets puts) x)"
  "replaced (fieldEncode (stringField n om get put) x) \<longleftrightarrow> \<not> validUTF8 (get x)"
  "\<not> replaced (fieldEncode (int64Field n om geti puti) x)"
  "\<not> replaced (fieldEncode (uint64Field n om getu putu) x)"
  "replaced (fieldEncode (stringsField n gets puts) x) \<longleftrightarrow> \<not> list_all validUTF8 (fst (gets x))"
proof -
  have "CHR 0x5C \<notin> set (FormatInt i)" "CHR 0x5C \<notin> set (FormatUint u 10)" for i u
    using digits_plain by (simp_all add: FormatInt_def FormatUint_def)
  then show "entire (fieldEncode (stringField n om get put) x)"
    "entire (fieldEncode (int64Field n om geti puti) x)"
    "entire (fieldEncode (uint64Field n om getu putu) x)"
    "entire (fieldEncode (stringsField n gets puts) x)"
    "replaced (fieldEncode (stringField n om get put) x) \<longleftrightarrow> \<not> validUTF8 (get x)"
    "\<not> replaced (fieldEncode (int64Field n om geti puti) x)"
    "\<not> replaced (fieldEncode (uint64Field n om getu putu) x)"
    "replaced (fieldEncode (stringsField n gets puts) x) \<longleftrightarrow> \<not> list_all validUTF8 (fst (gets x))"
    by (simp_all add: stringField_def int64Field_def uint64Field_def stringsField_def quoteString_trace
        encodeStrings_trace entire_plain)
qed

end
