(* ===== verification/Wire_Format.thy ===== *)
theory Wire_Format
  imports JSON_Codec Bidder_Engine
begin

text \<open>
  The JSON form of the program's structs, from their field tags: \<open>Bid\<close>, \<open>AuctionRequest\<close> and
  \<open>AuctionResponse\<close> of \<open>types.go\<close>, \<open>DSPRequest\<close> of \<open>dynamic_bidding.go\<close> and the answer of a DSP in
  \<open>http_bidder.go\<close>. A bid under construction carries the backing arrays of its two slices.
\<close>

section \<open>Bids\<close>

type_synonym bidState = "Bid \<times> string list \<times> string list"

definition zeroBid :: Bid where
  "zeroBid =
    \<lparr>bidID = [], bidRevision = 0, bidPlacementID = [], bidCampaignID = [], bidCreativeID = [], bidMarkup = [],
     bidClickURL = [], bidPriceMicros = 0, bidFloorMicros = 0, bidDealID = [], bidPriority = 0,
     bidPacingBPS = 0, bidCountries = [], bidDevices = [], bidActiveFromUnix = 0, bidActiveToUnix = 0\<rparr>"

definition zeroBidState :: bidState where
  "zeroBidState = (zeroBid, [], [])"

definition onBid :: "(Bid \<Rightarrow> Bid) \<Rightarrow> bidState \<Rightarrow> bidState" where
  "onBid f s = (f (fst s), snd s)"

definition putCountries :: "string list \<times> string list \<Rightarrow> bidState \<Rightarrow> bidState" where
  "putCountries t s = ((fst s)\<lparr>bidCountries := fst t\<rparr>, snd t, snd (snd s))"

definition putDevices :: "string list \<times> string list \<Rightarrow> bidState \<Rightarrow> bidState" where
  "putDevices t s = ((fst s)\<lparr>bidDevices := fst t\<rparr>, fst (snd s), snd t)"

definition bidFields :: "bidState structField list" where
  "bidFields =
    [
     stringField ''id'' False (\<lambda>s. bidID (fst s)) (\<lambda>v. onBid (bidID_update (\<lambda>_. v))),
     uint64Field ''revision'' False (\<lambda>s. bidRevision (fst s)) (\<lambda>v. onBid (bidRevision_update (\<lambda>_. v))),
     stringField ''placement_id'' False (\<lambda>s. bidPlacementID (fst s)) (\<lambda>v. onBid (bidPlacementID_update (\<lambda>_. v))),
     stringField ''campaign_id'' False (\<lambda>s. bidCampaignID (fst s)) (\<lambda>v. onBid (bidCampaignID_update (\<lambda>_. v))),
     stringField ''creative_id'' False (\<lambda>s. bidCreativeID (fst s)) (\<lambda>v. onBid (bidCreativeID_update (\<lambda>_. v))),
     stringField ''markup'' False (\<lambda>s. bidMarkup (fst s)) (\<lambda>v. onBid (bidMarkup_update (\<lambda>_. v))),
     stringField ''click_url'' False (\<lambda>s. bidClickURL (fst s)) (\<lambda>v. onBid (bidClickURL_update (\<lambda>_. v))),
     int64Field ''price_micros'' False (\<lambda>s. bidPriceMicros (fst s)) (\<lambda>v. onBid (bidPriceMicros_update (\<lambda>_. v))),
     int64Field ''floor_micros'' True (\<lambda>s. bidFloorMicros (fst s)) (\<lambda>v. onBid (bidFloorMicros_update (\<lambda>_. v))),
     stringField ''deal_id'' True (\<lambda>s. bidDealID (fst s)) (\<lambda>v. onBid (bidDealID_update (\<lambda>_. v))),
     int64Field ''priority'' True (\<lambda>s. bidPriority (fst s)) (\<lambda>v. onBid (bidPriority_update (\<lambda>_. v))),
     int64Field ''pacing_bps'' True (\<lambda>s. bidPacingBPS (fst s)) (\<lambda>v. onBid (bidPacingBPS_update (\<lambda>_. v))),
     stringsField ''countries'' (\<lambda>s. (bidCountries (fst s), fst (snd s))) putCountries,
     stringsField ''devices'' (\<lambda>s. (bidDevices (fst s), snd (snd s))) putDevices,
     int64Field ''active_from_unix'' True (\<lambda>s. bidActiveFromUnix (fst s)) (\<lambda>v. onBid (bidActiveFromUnix_update (\<lambda>_. v))),
     int64Field ''active_to_unix'' True (\<lambda>s. bidActiveToUnix (fst s)) (\<lambda>v. onBid (bidActiveToUnix_update (\<lambda>_. v)))]"

definition marshalBid :: "Bid \<Rightarrow> string" where
  "marshalBid b = marshalStruct bidFields (b, bidCountries b, bidDevices b)"

definition unmarshalBid :: "bool \<Rightarrow> string \<Rightarrow> Bid option" where
  "unmarshalBid strict s = map_option fst (unmarshalStruct strict bidFields zeroBidState s)"

section \<open>Requests\<close>

definition zeroRequest :: AuctionRequest where
  "zeroRequest = \<lparr>reqPlacementID = [], reqUserID = [], reqCountry = [], reqDevice = [], reqFloorMicros = 0\<rparr>"

definition requestFields :: "AuctionRequest structField list" where
  "requestFields =
    [stringField ''placement_id'' False reqPlacementID (\<lambda>v. reqPlacementID_update (\<lambda>_. v)),
     stringField ''user_id'' True reqUserID (\<lambda>v. reqUserID_update (\<lambda>_. v)),
     stringField ''country'' True reqCountry (\<lambda>v. reqCountry_update (\<lambda>_. v)),
     stringField ''device'' True reqDevice (\<lambda>v. reqDevice_update (\<lambda>_. v)),
     int64Field ''floor_micros'' True reqFloorMicros (\<lambda>v. reqFloorMicros_update (\<lambda>_. v))]"

definition unmarshalRequest :: "string \<Rightarrow> AuctionRequest option" where
  "unmarshalRequest s = unmarshalStruct True requestFields zeroRequest s"

definition dspRequestFields :: "DSPRequest structField list" where
  "dspRequestFields =
    [stringField ''placement_id'' False dspPlacementID (\<lambda>v. dspPlacementID_update (\<lambda>_. v)),
     stringField ''country'' True dspCountry (\<lambda>v. dspCountry_update (\<lambda>_. v)),
     stringField ''device'' True dspDevice (\<lambda>v. dspDevice_update (\<lambda>_. v)),
     int64Field ''floor_micros'' True dspFloorMicros (\<lambda>v. dspFloorMicros_update (\<lambda>_. v))]"

definition marshalDSPRequest :: "DSPRequest \<Rightarrow> string" where
  "marshalDSPRequest r = marshalStruct dspRequestFields r"

section \<open>Answers\<close>

text \<open>The anonymous struct with the field \<open>bids\<close> that a DSP's answer is decoded into.\<close>

definition bidsFields :: "(bidState list \<times> bidState list) structField list" where
  "bidsFields =
    [\<lparr>fieldName = ''bids'', fieldOmitted = (\<lambda>s. False),
      fieldEncode = (\<lambda>s. ''['' @ joinStrings '','' (map (\<lambda>b. marshalStruct bidFields b) (fst s)) @ '']''),
      fieldDecode = (\<lambda>v s. decodeSlice (decodeStruct True bidFields) zeroBidState v s)\<rparr>]"

definition unmarshalBids :: "string \<Rightarrow> Bid list option" where
  "unmarshalBids s = map_option (\<lambda>(bids, memory). map fst bids) (unmarshalStruct True bidsFields ([], []) s)"

definition encodedString :: "string \<Rightarrow> bool \<Rightarrow> ('a \<Rightarrow> string) \<Rightarrow> 'a encodedField" where
  "encodedString n om get =
    \<lparr>fieldName = n, fieldOmitted = (\<lambda>x. om \<and> get x = []), fieldEncode = (\<lambda>x. quoteString (get x))\<rparr>"

definition encodedInt64 :: "string \<Rightarrow> bool \<Rightarrow> ('a \<Rightarrow> int64) \<Rightarrow> 'a encodedField" where
  "encodedInt64 n om get =
    \<lparr>fieldName = n, fieldOmitted = (\<lambda>x. om \<and> get x = 0), fieldEncode = (\<lambda>x. FormatInt (get x))\<rparr>"

definition responseFields :: "AuctionResponse encodedField list" where
  "responseFields =
    [encodedString ''request_id'' False respRequestID,
     encodedString ''status'' False respStatus,
     encodedString ''pricing_model'' False respPricingModel,
     \<lparr>fieldName = ''bid'', fieldOmitted = (\<lambda>r. respBid r = None),
      fieldEncode = (\<lambda>r. case respBid r of None \<Rightarrow> ''null'' | Some b \<Rightarrow> marshalBid b)\<rparr>,
     encodedInt64 ''effective_price_micros'' True respEffectivePriceMicros,
     encodedInt64 ''clearing_price_micros'' True respClearingPriceMicros,
     encodedString ''no_bid_reason'' True respNoBidReason,
     \<lparr>fieldName = ''served_stale'', fieldOmitted = (\<lambda>r. \<not> respServedStale r),
      fieldEncode = (\<lambda>r. if respServedStale r then ''true'' else ''false'')\<rparr>,
     encodedInt64 ''snapshot_age_ms'' True respSnapshotAgeMS,
     encodedString ''dynamic_bidder_id'' True respDynamicBidderID,
     encodedInt64 ''selection_latency_us'' False respSelectionLatencyUS]"

definition marshalResponse :: "AuctionResponse \<Rightarrow> string" where
  "marshalResponse r = marshalStruct responseFields r"

section \<open>Round trips\<close>

definition utf8Bid :: "Bid \<Rightarrow> bool" where
  "utf8Bid b \<longleftrightarrow> validUTF8 (bidID b) \<and> validUTF8 (bidPlacementID b) \<and> validUTF8 (bidCampaignID b)
    \<and> validUTF8 (bidCreativeID b) \<and> validUTF8 (bidMarkup b) \<and> validUTF8 (bidClickURL b) \<and> validUTF8 (bidDealID b)
    \<and> list_all validUTF8 (bidCountries b) \<and> list_all validUTF8 (bidDevices b)"

definition bidTable :: "(bidState structField \<times> (bidState \<Rightarrow> bidState \<Rightarrow> bidState)) list" where
  "bidTable = zip bidFields [
     (\<lambda>x. onBid (bidID_update (\<lambda>_. bidID (fst x)))),
     (\<lambda>x. onBid (bidRevision_update (\<lambda>_. bidRevision (fst x)))),
     (\<lambda>x. onBid (bidPlacementID_update (\<lambda>_. bidPlacementID (fst x)))),
     (\<lambda>x. onBid (bidCampaignID_update (\<lambda>_. bidCampaignID (fst x)))),
     (\<lambda>x. onBid (bidCreativeID_update (\<lambda>_. bidCreativeID (fst x)))),
     (\<lambda>x. onBid (bidMarkup_update (\<lambda>_. bidMarkup (fst x)))),
     (\<lambda>x. onBid (bidClickURL_update (\<lambda>_. bidClickURL (fst x)))),
     (\<lambda>x. onBid (bidPriceMicros_update (\<lambda>_. bidPriceMicros (fst x)))),
     (\<lambda>x. onBid (bidFloorMicros_update (\<lambda>_. bidFloorMicros (fst x)))),
     (\<lambda>x. onBid (bidDealID_update (\<lambda>_. bidDealID (fst x)))),
     (\<lambda>x. onBid (bidPriority_update (\<lambda>_. bidPriority (fst x)))),
     (\<lambda>x. onBid (bidPacingBPS_update (\<lambda>_. bidPacingBPS (fst x)))),
     (\<lambda>x s. putCountries (putSlice (bidCountries (fst x), fst (snd x)) (bidCountries (fst s), fst (snd s))) s),
     (\<lambda>x s. putDevices (putSlice (bidDevices (fst x), snd (snd x)) (bidDevices (fst s), snd (snd s))) s),
     (\<lambda>x. onBid (bidActiveFromUnix_update (\<lambda>_. bidActiveFromUnix (fst x)))),
     (\<lambda>x. onBid (bidActiveToUnix_update (\<lambda>_. bidActiveToUnix (fst x))))]"

lemma bidTable_fields: "map fst bidTable = bidFields"
  by (simp add: bidTable_def bidFields_def)

lemma ascii_valid: "list_all (\<lambda>c. byte c < 0x80) s \<Longrightarrow> validUTF8 s"
  by (induction s) (simp_all add: validUTF8.simps)

definition shapedBid :: "bidState \<Rightarrow> bool" where
  "shapedBid s \<longleftrightarrow> snd s = (bidCountries (fst s), bidDevices (fst s))"

lemmas bidTable_simps = bidTable_def bidFields_def zeroBidState_def zeroBid_def putSlice_def onBid_def
  putCountries_def putDevices_def

lemma bidTable_scans:
  assumes "utf8Bid (fst x)"
  shows "\<forall>(f, put) \<in> set bidTable. \<not> fieldOmitted f x \<longrightarrow>
    (\<exists>v. scans (fieldEncode f x) v \<and> (\<forall>y. fieldDecode f v y = Some (put x y)))"
  using assms unfolding bidTable_def bidFields_def utf8Bid_def
  by (simp only: zip_Cons_Cons zip_Nil list.set ball_simps prod.case field_omitted)
    (intro conjI impI TrueI; (rule field_scans; simp)?)

lemma bidTable_commute:
  "sorted_wrt (\<lambda>(f, put) (g, put'). \<forall>x y z. put x (put' y z) = put' y (put x z)) bidTable"
  by (simp add: bidTable_simps)

lemma sorted_wrt_names:
  assumes "sorted_wrt P es" and "e \<in> set es" and "e' \<in> set es" and "e \<noteq> e'"
  shows "P e e' \<or> P e' e"
  using assms by (induction es) auto

interpretation bidCodec: traced_codec bidTable zeroBidState "\<lambda>s. shapedBid s \<and> utf8Bid (fst s)" shapedBid
proof
  show "distinct (map (fieldName \<circ> fst) bidTable)"
    by (simp add: bidTable_def bidFields_def)
next
  fix f put assume "(f, put) \<in> set bidTable"
  then show "validUTF8 (fieldName f)"
    by (auto simp: bidTable_def bidFields_def ascii_valid)
next
  fix f put x assume "(f, put) \<in> set bidTable" "shapedBid x \<and> utf8Bid (fst x)" "\<not> fieldOmitted f x"
  then show "\<exists>v. scans (fieldEncode f x) v \<and> (\<forall>y. fieldDecode f v y = Some (put x y))"
    using bidTable_scans [of x] by blast
next
  fix f put x y assume "(f, put) \<in> set bidTable" "fieldOmitted f x"
  then show "put x y = put zeroBidState y"
    by (auto simp: bidTable_simps)
next
  fix f put assume "(f, put) \<in> set bidTable"
  then show "put zeroBidState zeroBidState = zeroBidState"
    by (auto simp: bidTable_simps)
next
  fix f put g put' x y z
  assume "(f, put) \<in> set bidTable" "(g, put') \<in> set bidTable" "fieldName f \<noteq> fieldName g"
  with sorted_wrt_names [OF bidTable_commute] have
    "(\<forall>x y z. put x (put' y z) = put' y (put x z)) \<or> (\<forall>x y z. put' x (put y z) = put y (put' x z))"
    by fastforce
  then show "put x (put' y z) = put' y (put x z)" by metis
next
  fix x assume "shapedBid x \<and> utf8Bid (fst x)"
  then show "fold (\<lambda>(f, put). put x) bidTable zeroBidState = x"
    by (cases x) (simp add: bidTable_simps shapedBid_def)
next
  fix f put x assume "(f, put) \<in> set bidTable"
  then show "entire (fieldEncode f x)"
    by (auto simp: bidTable_def bidFields_def)
next
  fix f put x assume "(f, put) \<in> set bidTable" "shapedBid x \<and> utf8Bid (fst x)" "\<not> fieldOmitted f x"
  then show "\<not> replaced (fieldEncode f x)"
    by (auto simp: bidTable_def bidFields_def utf8Bid_def)
next
  fix x assume "shapedBid x" and
    clean: "\<And>f put. (f, put) \<in> set bidTable \<Longrightarrow> \<not> fieldOmitted f x \<Longrightarrow> \<not> replaced (fieldEncode f x)"
  have "\<forall>(f, put) \<in> set bidTable. \<not> fieldOmitted f x \<longrightarrow> \<not> replaced (fieldEncode f x)"
    using clean by blast
  then have "utf8Bid (fst x)"
    by (cases "bidDealID (fst x) = []"; cases "bidCountries (fst x) = []"; cases "bidDevices (fst x) = []")
      (simp_all add: bidTable_def bidFields_def utf8Bid_def)
  with \<open>shapedBid x\<close> show "shapedBid x \<and> utf8Bid (fst x)" by simp
qed

lemma bid_json_space:
  "utf8Bid b \<Longrightarrow> skipSpace rest = [] \<Longrightarrow> unmarshalBid strict (marshalBid b @ rest) = Some b"
  using bidCodec.roundtrip_space [of "(b, bidCountries b, bidDevices b)" rest strict]
  by (simp add: unmarshalBid_def marshalBid_def bidTable_fields shapedBid_def)

lemma bid_json_roundtrip: "utf8Bid b \<Longrightarrow> unmarshalBid strict (marshalBid b) = Some b"
  using bid_json_space [of b "[]"] by simp

lemma bid_json_decode:
  assumes "utf8Bid b"
  shows "\<exists>v. (\<forall>depth rest. 1 < depth \<longrightarrow> parseValue depth (marshalBid b @ rest) = Some (v, rest))
    \<and> map_option fst (decodeStruct strict bidFields v zeroBidState) = Some b"
  using assms bidCodec.scan_decode [of "(b, bidCountries b, bidDevices b)" strict]
  by (fastforce simp: marshalBid_def bidTable_fields shapedBid_def)

lemma marshalBid_inj: "utf8Bid b \<Longrightarrow> marshalBid b' = marshalBid b \<longleftrightarrow> b' = b"
  using bidCodec.marshal_inj [of "(b, bidCountries b, bidDevices b)" "(b', bidCountries b', bidDevices b')"]
  by (auto simp: marshalBid_def bidTable_fields shapedBid_def)

section \<open>Decoded strings are well-formed\<close>

fun utf8JSON :: "json \<Rightarrow> bool" where
  "utf8JSON (JString t) \<longleftrightarrow> validUTF8 t"
| "utf8JSON (JArray vs) \<longleftrightarrow> list_all utf8JSON vs"
| "utf8JSON (JObject ms) \<longleftrightarrow> list_all (\<lambda>(k, v). utf8JSON v) ms"
| "utf8JSON _ \<longleftrightarrow> True"

lemma parse_utf8:
  "\<forall>v rest. parseValue depth s = Some (v, rest) \<longrightarrow> utf8JSON v"
  "\<forall>vs rest. parseElements depth s = Some (vs, rest) \<longrightarrow> list_all utf8JSON vs"
  "\<forall>ms rest. parseMembers depth s = Some (ms, rest) \<longrightarrow> list_all (\<lambda>(k, v). utf8JSON v) ms"
proof (induction depth s and depth s and depth s rule: parseValue_parseElements_parseMembers.induct)
  case (1 depth s)
  have lit: "parseLiteral t = Some (v, rest) \<Longrightarrow> utf8JSON v" for t v rest
    by (auto simp: parseLiteral_def split: if_splits)
  show ?case
  proof (cases "skipSpace s")
    case (Cons c cs)
    show ?thesis
      using 1 Cons
      by (fastforce simp: parseValue.simps [of depth s] dest: parseString_valid lit split: list.splits if_splits)
  qed (simp add: parseValue.simps [of depth s])
next
  case (2 depth s)
  then show ?case
    by (fastforce simp: parseElements.simps [of depth s] split: list.splits if_splits option.splits)
next
  case (3 depth s)
  then show ?case
    by (fastforce simp: parseMembers.simps [of depth s] split: list.splits if_splits option.splits)
qed

lemma parseDocument_utf8: "parseDocument s = Some v \<Longrightarrow> utf8JSON v"
  using parse_utf8(1) [rule_format, of 10000 s v] by (auto simp: parseDocument_def split: option.splits if_splits)

text \<open>A property that every field's decoder preserves holds of whatever is decoded.\<close>

lemma decodeMembers_preserves:
  assumes "\<And>f v x y. f \<in> set fs \<Longrightarrow> utf8JSON v \<Longrightarrow> P x \<Longrightarrow> fieldDecode f v x = Some y \<Longrightarrow> P y"
  shows "list_all (\<lambda>(k, v). utf8JSON v) ms \<Longrightarrow> P x \<Longrightarrow> decodeMembers strict fs ms x = Some y \<Longrightarrow> P y"
proof (induction ms arbitrary: x)
  case (Cons m ms)
  obtain k v where m: "m = (k, v)" by (cases m)
  have "f \<in> set fs" if "lookupField fs k = Some f" for f
    using that by (auto simp: lookupField_def find_Some_iff split: option.splits)
  with Cons m show ?case using assms by (fastforce split: option.splits if_splits)
qed simp

lemma unmarshalStruct_preserves:
  assumes "\<And>f v x y. f \<in> set fs \<Longrightarrow> utf8JSON v \<Longrightarrow> P x \<Longrightarrow> fieldDecode f v x = Some y \<Longrightarrow> P y"
    and "P zero" and "unmarshalStruct strict fs zero s = Some y"
  shows "P y"
proof -
  obtain v where doc: "parseDocument s = Some v" and v: "decodeStruct strict fs v zero = Some y"
    using assms(3) by (auto simp: unmarshalStruct_def split: option.splits)
  have "utf8JSON v" using doc by (rule parseDocument_utf8)
  with v assms(1,2) show ?thesis
    by (auto simp: decodeStruct_def intro: decodeMembers_preserves [of fs P] split: json.splits)
qed

definition utf8State :: "bidState \<Rightarrow> bool" where
  "utf8State s \<longleftrightarrow> utf8Bid (fst s) \<and> list_all validUTF8 (fst (snd s)) \<and> list_all validUTF8 (snd (snd s))"

lemma decodeString_utf8: "utf8JSON v \<Longrightarrow> validUTF8 old \<Longrightarrow> decodeString v old = Some t \<Longrightarrow> validUTF8 t"
  by (cases v) (simp_all add: decodeString_def)

lemma decodeElements_utf8:
  "list_all utf8JSON vs \<Longrightarrow> list_all validUTF8 memory \<Longrightarrow> decodeElements decodeString [] memory vs = Some xs \<Longrightarrow>
    list_all validUTF8 xs"
proof (induction vs arbitrary: memory xs)
  case (Cons v vs)
  have "list_all validUTF8 (tl memory)" using Cons.prems(2) by (cases memory) simp_all
  moreover have "validUTF8 (case memory of [] \<Rightarrow> [] | old # _ \<Rightarrow> old)"
    using Cons.prems(2) by (cases memory) simp_all
  ultimately show ?case
    using Cons decodeString_utf8 by (fastforce split: option.splits)
qed simp

lemma decodeSlice_utf8:
  assumes "utf8JSON v" and "list_all validUTF8 (snd old)" and "decodeSlice decodeString [] v old = Some t"
  shows "list_all validUTF8 (fst t) \<and> list_all validUTF8 (snd t)"
  using assms decodeElements_utf8
  by (fastforce simp: decodeSlice_def list_all_iff dest: in_set_dropD split: json.splits if_splits)

lemma stringField_decodes:
  assumes "fieldDecode (stringField n om get put) v s = Some t" and "utf8JSON v" and "validUTF8 (get s)"
  shows "\<exists>u. validUTF8 u \<and> t = put u s"
  using assms decodeString_utf8 [OF assms(2,3)] by (auto simp: stringField_def)

lemma stringsField_decodes:
  assumes "fieldDecode (stringsField n get put) v s = Some t" and "utf8JSON v" and "list_all validUTF8 (snd (get s))"
  shows "\<exists>u. list_all validUTF8 (fst u) \<and> list_all validUTF8 (snd u) \<and> t = put u s"
proof -
  obtain u where "decodeSlice decodeString [] v (get s) = Some u" "t = put u s"
    using assms(1) unfolding stringsField_def structField.select_convs map_option_eq_Some by blast
  with decodeSlice_utf8 [OF assms(2,3)] show ?thesis by blast
qed

lemma numberField_decodes:
  "fieldDecode (int64Field n om geti puti) v s = Some t \<Longrightarrow> \<exists>i. t = puti i s"
  "fieldDecode (uint64Field n om getu putu) v s = Some t \<Longrightarrow> \<exists>i. t = putu i s"
  by (auto simp: int64Field_def uint64Field_def)

lemmas field_decodes = stringField_decodes stringsField_decodes numberField_decodes

lemma bidFields_utf8:
  assumes "f \<in> set bidFields" and v: "utf8JSON v" and s: "utf8State s" and "fieldDecode f v s = Some t"
  shows "utf8State t"
proof -
  note parts = s [unfolded utf8State_def utf8Bid_def]
  have "\<forall>f \<in> set bidFields. fieldDecode f v s = Some t \<longrightarrow> utf8State t"
    unfolding bidFields_def using parts v
    by (auto dest!: field_decodes simp: utf8State_def utf8Bid_def onBid_def putCountries_def putDevices_def)
  with assms(1,4) show ?thesis by blast
qed

lemma unmarshalBid_utf8:
  assumes "unmarshalBid strict s = Some b"
  shows "utf8Bid b"
proof -
  obtain m where "unmarshalStruct strict bidFields zeroBidState s = Some (b, m)"
    using assms by (auto simp: unmarshalBid_def)
  moreover have "utf8State zeroBidState"
    by (simp add: utf8State_def zeroBidState_def zeroBid_def utf8Bid_def)
  ultimately have "utf8State (b, m)"
    using unmarshalStruct_preserves [of bidFields utf8State] bidFields_utf8 by blast
  then show ?thesis by (simp add: utf8State_def)
qed

section \<open>Decoding and encoding agree\<close>

text \<open>
  C17: the JSON form of a bid is faithful. Whatever text a client sends, when it decodes to a bid,
  encoding this bid gives a text that decodes to the same bid, whether unknown fields are refused or
  not, and that is the text of no other bid.
\<close>

theorem decoded_bid_roundtrip:
  assumes "unmarshalBid strict body = Some b"
  shows "unmarshalBid strict' (marshalBid b) = Some b \<and> (\<forall>b'. marshalBid b' = marshalBid b \<longleftrightarrow> b' = b)"
  using unmarshalBid_utf8 [OF assms] bid_json_roundtrip marshalBid_inj by blast

definition exampleBody :: string where
  \<open>exampleBody = ''{ "ID":"a", "countries":["US"], "price_micros":9223372036854775807}''\<close>

lemma exampleBody_document: "parseDocument exampleBody = Some (JObject
    [(''ID'', JString ''a''), (''countries'', JArray [JString ''US'']), (''price_micros'', JNumber ''9223372036854775807'')])"
  unfolding exampleBody_def by code_simp

lemma exampleBody_decodes: "unmarshalBid strict exampleBody =
    Some (zeroBid\<lparr>bidID := ''a'', bidPriceMicros := 9223372036854775807, bidCountries := [''US'']\<rparr>)"
proof -
  have "foldName ''ID'' = foldName ''id''" by code_simp
  moreover have "ParseInt ''9223372036854775807'' = Some 9223372036854775807"
    by (simp add: ParseInt_def ParseUint_def digitsValue_def digitVal_def isDigit_def i64_simps Let_def)
  ultimately show ?thesis
    by (simp add: unmarshalBid_def unmarshalStruct_def exampleBody_document decodeStruct_def bidFields_def
      lookupField_def stringField_def uint64Field_def int64Field_def stringsField_def decodeString_def
      decodeUint64_def decodeInt64_def decodeSlice_def zeroBidState_def zeroBid_def onBid_def putCountries_def)
qed

theorem decoded_bid_roundtrip_witness:
  "\<exists>b. unmarshalBid True exampleBody = Some b \<and> bidID b = ''a'' \<and> bidPriceMicros b = 9223372036854775807
    \<and> unmarshalBid False (marshalBid b) = Some b"
  using decoded_bid_roundtrip [OF exampleBody_decodes [of True]] exampleBody_decodes [of True] by simp

end
