(* ===== verification/HTTP_Bidder.thy ===== *)
theory HTTP_Bidder
  imports Wire_Format
begin

text \<open>
  \<open>HTTPBidderAdapter\<close> of \<open>internal/ads/http_bidder.go\<close>. The network is the parameter \<open>send\<close> (what
  \<open>http.Client.Do\<close> yields for a request) and \<open>net/url\<close> the parameter \<open>parseRequestURI\<close> with the scheme
  and host of the URL. Marshalling a request and building the HTTP
  request from an endpoint that \<open>url.ParseRequestURI\<close> accepted do not fail.
\<close>

section \<open>Definitions\<close>

definition maxDSPResponseBytes :: nat where
  "maxDSPResponseBytes = 64 * 1024"

record HTTPBidderAdapter =
  habBidderID :: string
  habEndpoint :: string
  habAuthorization :: string

datatype http_bidder_error =
    ErrInvalidEndpoint
  | ErrTransport
  | ErrHTTPStatus int64
  | ErrReadBody
  | ErrTooLarge
  | ErrDecodeBody

definition NewHTTPBidderAdapter ::
    "(string \<Rightarrow> (string \<times> string) option) \<Rightarrow> string \<Rightarrow> string \<Rightarrow> string
       \<Rightarrow> http_bidder_error + HTTPBidderAdapter" where
  "NewHTTPBidderAdapter parseRequestURI i endpoint authorization =
    (case parseRequestURI endpoint of
       None \<Rightarrow> Inl ErrInvalidEndpoint
     | Some (scheme, host) \<Rightarrow>
         if (scheme \<noteq> ''http'' \<and> scheme \<noteq> ''https'') \<or> host = [] then Inl ErrInvalidEndpoint
         else Inr \<lparr>habBidderID = i, habEndpoint = endpoint, habAuthorization = authorization\<rparr>)"

definition HTTPBidderAdapter_ID :: "HTTPBidderAdapter \<Rightarrow> string" where
  "HTTPBidderAdapter_ID a = habBidderID a"

record httpRequest =
  hrMethod :: string
  hrURL :: string
  hrHeaders :: "(string \<times> string) list"
  hrBody :: string

text \<open>A response body is the bytes that arrive and whether the stream then ends or breaks.\<close>

record httpResponse =
  hsStatusCode :: int64
  hsBody :: string
  hsBroken :: bool

definition dspHTTPRequest :: "HTTPBidderAdapter \<Rightarrow> DSPRequest \<Rightarrow> httpRequest" where
  "dspHTTPRequest a request =
    \<lparr>hrMethod = ''POST'', hrURL = habEndpoint a,
     hrHeaders = [(''Content-Type'', ''application/json''), (''Accept'', ''application/json'')]
       @ (if habAuthorization a \<noteq> [] then [(''Authorization'', habAuthorization a)] else []),
     hrBody = marshalDSPRequest request\<rparr>"

text \<open>
  \<open>io.ReadAll\<close> over a limited reader of \<open>limit\<close> bytes: a break after the limit is not noticed.
\<close>

definition readLimited :: "nat \<Rightarrow> httpResponse \<Rightarrow> string option" where
  "readLimited limit response =
    (if hsBroken response \<and> length (hsBody response) < limit then None
     else Some (take limit (hsBody response)))"

definition HTTPBidderAdapter_Fetch ::
    "(httpRequest \<Rightarrow> httpResponse option)
       \<Rightarrow> HTTPBidderAdapter \<Rightarrow> DSPRequest \<Rightarrow> http_bidder_error + Bid list" where
  "HTTPBidderAdapter_Fetch send a request =
    (case send (dspHTTPRequest a request) of
       None \<Rightarrow> Inl ErrTransport
     | Some response \<Rightarrow>
         if hsStatusCode response <s 200 \<or> 300 \<le>s hsStatusCode response
         then Inl (ErrHTTPStatus (hsStatusCode response))
         else
           case readLimited (maxDSPResponseBytes + 1) response of
             None \<Rightarrow> Inl ErrReadBody
           | Some payload \<Rightarrow>
               if maxDSPResponseBytes < length payload then Inl ErrTooLarge
               else (case unmarshalBids payload of None \<Rightarrow> Inl ErrDecodeBody | Some bids \<Rightarrow> Inr bids))"

section \<open>Properties\<close>

text \<open>
  An adapter yields bids only for a complete, successful and small answer: \<open>Fetch\<close> succeeds exactly
  when the exchange yields a 2xx status and an unbroken body of at most 64 KiB that decodes, and
  then returns the decoded bids.
\<close>

theorem http_bidder_accepts_iff:
  "HTTPBidderAdapter_Fetch send a request = Inr bids \<longleftrightarrow>
    (\<exists>response. send (dspHTTPRequest a request) = Some response
      \<and> 200 \<le> sint (hsStatusCode response) \<and> sint (hsStatusCode response) < 300
      \<and> \<not> hsBroken response \<and> length (hsBody response) \<le> 65536 \<and> unmarshalBids (hsBody response) = Some bids)"
proof (cases "send (dspHTTPRequest a request)")
  case None
  then show ?thesis by (simp add: HTTPBidderAdapter_Fetch_def)
next
  case (Some response)
  then show ?thesis
    by (auto simp: HTTPBidderAdapter_Fetch_def readLimited_def maxDSPResponseBytes_def i64_simps
        split: option.splits if_splits)
qed

end
