(* ===== verification/Doubles.thy ===== *)
theory Doubles
  imports Prelude
begin

text \<open>
  Natural numbers as IEEE doubles, which the Lua scripts of the store compare and the load test
  computes an index with.
\<close>

text \<open>
  \<open>doubleOfNat\<close> rounds a natural number to the nearest double, ties
  to even: the identity up to \<open>2 ^ 53\<close>, a multiple of a power of two above.
\<close>

fun doubleExponent :: "nat \<Rightarrow> nat" where
  "doubleExponent n = (if n < 9007199254740992 then 0 else Suc (doubleExponent (n div 2)))"

declare doubleExponent.simps [simp del]

definition doubleOfNat :: "nat \<Rightarrow> nat" where
  "doubleOfNat n =
    (let e = doubleExponent n; q = n div 2 ^ e; r = n mod 2 ^ e in
     if 2 ^ e < 2 * r \<or> (2 ^ e = 2 * r \<and> odd q) then (q + 1) * 2 ^ e else q * 2 ^ e)"

lemma doubleExponent_upper: "n < 9007199254740992 * 2 ^ doubleExponent n"
proof (induction n rule: doubleExponent.induct)
  case (1 n)
  show ?case
  proof (cases "n < 9007199254740992")
    case False
    with 1 have "n div 2 < 9007199254740992 * 2 ^ doubleExponent (n div 2)" by simp
    with False show ?thesis by (simp add: doubleExponent.simps [of n])
  qed (simp add: doubleExponent.simps [of n])
qed

lemma doubleExponent_lower:
  "0 < doubleExponent n \<Longrightarrow> 4503599627370496 * 2 ^ doubleExponent n \<le> n"
proof (induction n rule: doubleExponent.induct)
  case (1 n)
  then have big: "\<not> n < 9007199254740992" by (auto simp: doubleExponent.simps [of n])
  show ?case
  proof (cases "doubleExponent (n div 2) = 0")
    case False
    with 1 big have "4503599627370496 * 2 ^ doubleExponent (n div 2) \<le> n div 2" by simp
    with big show ?thesis by (simp add: doubleExponent.simps [of n])
  qed (use big in \<open>simp add: doubleExponent.simps [of n]\<close>)
qed

lemma doubleExponent_mono:
  assumes "m \<le> n"
  shows "doubleExponent m \<le> doubleExponent n"
proof (rule ccontr)
  assume "\<not> ?thesis"
  then have less: "Suc (doubleExponent n) \<le> doubleExponent m" by simp
  have "4503599627370496 * 2 ^ Suc (doubleExponent n) \<le> 4503599627370496 * (2 :: nat) ^ doubleExponent m"
    using less by (intro mult_left_mono power_increasing) simp_all
  also have "\<dots> \<le> m" using less by (intro doubleExponent_lower) simp
  finally show False using assms doubleExponent_upper [of n] by simp
qed

lemma doubleOfNat_bounds:
  "n div 2 ^ doubleExponent n * 2 ^ doubleExponent n \<le> doubleOfNat n"
  "doubleOfNat n \<le> (n div 2 ^ doubleExponent n + 1) * 2 ^ doubleExponent n"
  by (simp_all add: doubleOfNat_def Let_def)

lemma doubleOfNat_exact: "n \<le> 9007199254740992 \<Longrightarrow> doubleOfNat n = n"
  by (cases "n = 9007199254740992") (simp_all add: doubleOfNat_def doubleExponent.simps)

lemma doubleOfNat_mono:
  assumes "m \<le> n"
  shows "doubleOfNat m \<le> doubleOfNat n"
proof (cases "doubleExponent m = doubleExponent n")
  case True
  define e where "e = doubleExponent n"
  have q: "m div 2 ^ e \<le> n div 2 ^ e" using assms by (rule div_le_mono)
  show ?thesis
  proof (cases "m div 2 ^ e = n div 2 ^ e")
    case True
    then have "m mod 2 ^ e \<le> n mod 2 ^ e"
      using assms by (metis add_le_cancel_left mult_div_mod_eq)
    with True show ?thesis
      by (auto simp: doubleOfNat_def Let_def e_def [symmetric] \<open>doubleExponent m = doubleExponent n\<close>)
  next
    case False
    then have "(m div 2 ^ e + 1) * 2 ^ e \<le> n div 2 ^ e * 2 ^ e"
      using q by (intro mult_right_mono) simp_all
    then show ?thesis
      using doubleOfNat_bounds(2) [of m] doubleOfNat_bounds(1) [of n] True
      by (simp add: e_def)
  qed
next
  case False
  let ?em = "doubleExponent m" and ?en = "doubleExponent n"
  have less: "Suc ?em \<le> ?en" using doubleExponent_mono [OF assms] False by simp
  have "m div 2 ^ ?em < 9007199254740992"
    using doubleExponent_upper [of m] by (simp add: less_mult_imp_div_less)
  then have "(m div 2 ^ ?em + 1) * 2 ^ ?em \<le> 9007199254740992 * 2 ^ ?em"
    by (intro mult_right_mono) simp_all
  also have "\<dots> = 4503599627370496 * 2 ^ Suc ?em" by simp
  also have "\<dots> \<le> 4503599627370496 * 2 ^ ?en"
    using less by (intro mult_left_mono power_increasing) simp_all
  also have "\<dots> \<le> n div 2 ^ ?en * 2 ^ ?en"
  proof (rule mult_right_mono)
    have "4503599627370496 * 2 ^ ?en \<le> n" using less by (intro doubleExponent_lower) simp
    then show "4503599627370496 \<le> n div 2 ^ ?en" by (simp add: less_eq_div_iff_mult_less_eq)
  qed simp
  finally show ?thesis
    using doubleOfNat_bounds(2) [of m] doubleOfNat_bounds(1) [of n] by linarith
qed

lemma doubleOfNat_less_imp_less: "doubleOfNat m < doubleOfNat n \<Longrightarrow> m < n"
  using doubleOfNat_mono [of n m] by (auto simp: not_less [symmetric])

text \<open>A number with at most 53 bits times a power of two is a double.\<close>

lemma doubleOfNat_shift:
  assumes "n \<le> 9007199254740992"
  shows "doubleOfNat (n * 2 ^ k) = n * 2 ^ k"
proof -
  define e where "e = doubleExponent (n * 2 ^ k)"
  have "2 ^ e dvd n * 2 ^ k"
  proof (cases "e \<le> k")
    case True
    then show ?thesis by (simp add: le_imp_power_dvd dvd_mult)
  next
    case False
    then have "4503599627370496 * 2 ^ e \<le> n * 2 ^ k"
      unfolding e_def by (intro doubleExponent_lower) simp
    moreover obtain j where j: "e = k + Suc j" using False by (metis less_iff_Suc_add not_le add_Suc_right)
    ultimately have "4503599627370496 * 2 ^ Suc j \<le> n" by (simp add: power_add mult.assoc [symmetric])
    with assms have "(2 :: nat) ^ j \<le> 1" by simp
    then have "j = 0" by (metis less_exp less_one not_less order_less_le_trans)
    with \<open>4503599627370496 * 2 ^ Suc j \<le> n\<close> assms have "n = 2 * 4503599627370496" by simp
    with j \<open>j = 0\<close> show ?thesis by (simp add: dvd_def)
  qed
  then show ?thesis by (simp add: doubleOfNat_def e_def [symmetric] Let_def dvd_div_mult_self)
qed

end
