(* ===== verification/Redis_Store.thy ===== *)
theory Redis_Store
  imports Bid_Store Go_Strconv Doubles "HOL-Library.AList"
begin

text \<open>
  \<open>RedisStore\<close> of \<open>internal/ads/store.go\<close>: the key layout, the two Lua scripts, \<open>Upsert\<close>, \<open>Delete\<close>,
  \<open>Fetch\<close>, \<open>Placements\<close> and \<open>Ping\<close> over \<open>retryTopology\<close>.

  Redis is not part of the repository. It is the parameter \<open>R\<close>, a record of the commands the
  source sends, over an arbitrary server state; \<open>redis_laws\<close> states the documented behaviour of
  those commands. JSON encoding and decoding of a bid are the parameters \<open>enc\<close> and \<open>dec\<close>. A round
  trip to Redis can fail: \<open>delivery\<close> says how often the server ran the command and whether the
  reply arrived, which covers lost requests, lost replies and the client library's own retries.
\<close>

section \<open>The server behind the client\<close>

record 'r redis =
  HGET :: "'r \<Rightarrow> string \<Rightarrow> string \<Rightarrow> string option"
  HEXISTS :: "'r \<Rightarrow> string \<Rightarrow> string \<Rightarrow> bool"
  HGETALL :: "'r \<Rightarrow> string \<Rightarrow> (string \<times> string) list"
  HSET :: "'r \<Rightarrow> string \<Rightarrow> string \<Rightarrow> string \<Rightarrow> 'r"
  HDEL :: "'r \<Rightarrow> string \<Rightarrow> string \<Rightarrow> 'r"
  SADD :: "'r \<Rightarrow> string \<Rightarrow> string \<Rightarrow> 'r"
  SMEMBERS :: "'r \<Rightarrow> string \<Rightarrow> string list"
  PUBLISH :: "'r \<Rightarrow> string \<Rightarrow> string \<Rightarrow> 'r"
  PUBLISHED :: "'r \<Rightarrow> (string \<times> string) list"

text \<open>
  The documented behaviour of the commands. A set command and a hash command on different keys do
  not interfere; \<open>PUBLISHED\<close> is the sequence of messages sent to the channels so far.
\<close>

definition redis_laws :: "'r redis \<Rightarrow> bool" where
  "redis_laws R \<longleftrightarrow>
    (\<forall>r k f v k' f'. HGET R (HSET R r k f v) k' f' =
        (if k' = k \<and> f' = f then Some v else HGET R r k' f'))
    \<and> (\<forall>r k f k' f'. HGET R (HDEL R r k f) k' f' =
        (if k' = k \<and> f' = f then None else HGET R r k' f'))
    \<and> (\<forall>r k m k' f'. k' \<noteq> k \<longrightarrow> HGET R (SADD R r k m) k' f' = HGET R r k' f')
    \<and> (\<forall>r c m k' f'. HGET R (PUBLISH R r c m) k' f' = HGET R r k' f')
    \<and> (\<forall>r k f. HEXISTS R r k f \<longleftrightarrow> HGET R r k f \<noteq> None)
    \<and> (\<forall>r k f. map_of (HGETALL R r k) f = HGET R r k f)
    \<and> (\<forall>r k. distinct (map fst (HGETALL R r k)))
    \<and> (\<forall>r k m k'. set (SMEMBERS R (SADD R r k m) k') =
        (if k' = k then insert m (set (SMEMBERS R r k')) else set (SMEMBERS R r k')))
    \<and> (\<forall>r k f v k'. k' \<noteq> k \<longrightarrow> set (SMEMBERS R (HSET R r k f v) k') = set (SMEMBERS R r k'))
    \<and> (\<forall>r k f k'. k' \<noteq> k \<longrightarrow> set (SMEMBERS R (HDEL R r k f) k') = set (SMEMBERS R r k'))
    \<and> (\<forall>r c m k'. set (SMEMBERS R (PUBLISH R r c m) k') = set (SMEMBERS R r k'))
    \<and> (\<forall>r c m. PUBLISHED R (PUBLISH R r c m) = PUBLISHED R r @ [(c, m)])
    \<and> (\<forall>r k f v. PUBLISHED R (HSET R r k f v) = PUBLISHED R r)
    \<and> (\<forall>r k f. PUBLISHED R (HDEL R r k f) = PUBLISHED R r)
    \<and> (\<forall>r k m. PUBLISHED R (SADD R r k m) = PUBLISHED R r)"

text \<open>
  One round trip: \<open>Reply n\<close> when the server runs the command \<open>n + 1\<close> times and the last reply
  arrives, \<open>Lost n\<close> when it runs the command \<open>n\<close> times and the client reports an error. When the
  list is used up every round trip succeeds at once.
\<close>

datatype delivery = Reply nat | Lost nat

record 'r world =
  server :: 'r
  network :: "delivery list"

record RedisStore =
  storePrefix :: string
  storeCluster :: bool

text \<open>An operation yields \<open>None\<close> for an error reply (a script error) and \<open>Some\<close> of its result.\<close>

type_synonym ('r, 'a) operation = "'r \<Rightarrow> 'a option \<times> 'r"

fun execTimes :: "nat \<Rightarrow> ('r, 'a) operation \<Rightarrow> 'r \<Rightarrow> 'r" where
  "execTimes 0 op r = r"
| "execTimes (Suc n) op r = execTimes n op (snd (op r))"

definition command :: "('r, 'a) operation \<Rightarrow> 'r world \<Rightarrow> 'a option \<times> 'r world" where
  "command op w =
    (case network w of
       [] \<Rightarrow> (let (a, r) = op (server w) in (a, w\<lparr>server := r\<rparr>))
     | Reply n # ds \<Rightarrow>
         (let (a, r) = op (execTimes n op (server w)) in (a, w\<lparr>server := r, network := ds\<rparr>))
     | Lost n # ds \<Rightarrow> (None, w\<lparr>server := execTimes n op (server w), network := ds\<rparr>))"

definition retryTopology ::
    "RedisStore \<Rightarrow> ('r, 'a) operation \<Rightarrow> 'r world \<Rightarrow> 'a option \<times> 'r world" where
  "retryTopology s operation w =
    (case command operation w of
       (Some a, w1) \<Rightarrow> (Some a, w1)
     | (None, w1) \<Rightarrow> if \<not> storeCluster s then (None, w1) else command operation w1)"

section \<open>Keys\<close>

definition key :: "RedisStore \<Rightarrow> string list \<Rightarrow> string" where
  "key s parts = storePrefix s @ '':'' @ joinStrings '':'' parts"

definition activeKey :: "RedisStore \<Rightarrow> string \<Rightarrow> string" where
  "activeKey s placement = key s [''active'', ''{'' @ placement @ ''}'']"

definition versionKey :: "RedisStore \<Rightarrow> string \<Rightarrow> string" where
  "versionKey s placement = key s [''active-version'', ''{'' @ placement @ ''}'']"

definition placementsKey :: "RedisStore \<Rightarrow> string" where
  "placementsKey s = key s [''placements'']"

definition eventsKey :: "RedisStore \<Rightarrow> string" where
  "eventsKey s = key s [''bid-events'']"

section \<open>The Lua scripts\<close>

text \<open>
  Lua numbers are doubles. \<open>tonumber\<close> reads a decimal numeral. The version hash and \<open>ARGV[2]\<close> only ever hold the output of
  \<open>strconv.FormatUint\<close>, so other numerals do not arise.
\<close>

definition tonumber :: "string \<Rightarrow> nat option" where
  "tonumber s =
    (if s = [] \<or> \<not> list_all isDigit s then None else Some (doubleOfNat (digitsValue 10 s)))"

definition upsertBidScript ::
    "'r redis \<Rightarrow> string \<Rightarrow> string \<Rightarrow> string \<Rightarrow> string \<Rightarrow> string \<Rightarrow> ('r, nat) operation" where
  "upsertBidScript R KEYS1 KEYS2 ARGV1 ARGV2 ARGV3 r =
    (let write = (Some 1, HSET R (HSET R r KEYS1 ARGV1 ARGV3) KEYS2 ARGV1 ARGV2) in
     case HGET R r KEYS2 ARGV1 of
       None \<Rightarrow> write
     | Some current \<Rightarrow>
         (case (tonumber ARGV2, tonumber current) of
            (Some revision, Some existing) \<Rightarrow>
              if revision < existing then (Some 0, r)
              else if revision = existing then
                (if HGET R r KEYS1 ARGV1 = Some ARGV3 then (Some 2, r) else (Some 0, r))
              else write
          | _ \<Rightarrow> (None, r)))"

definition deleteBidScript ::
    "'r redis \<Rightarrow> string \<Rightarrow> string \<Rightarrow> string \<Rightarrow> string \<Rightarrow> ('r, nat) operation" where
  "deleteBidScript R KEYS1 KEYS2 ARGV1 ARGV2 r =
    (let write = (Some 1, HSET R (HDEL R r KEYS1 ARGV1) KEYS2 ARGV1 ARGV2) in
     case HGET R r KEYS2 ARGV1 of
       None \<Rightarrow> write
     | Some current \<Rightarrow>
         (case (tonumber ARGV2, tonumber current) of
            (Some revision, Some existing) \<Rightarrow>
              if revision < existing then (Some 0, r)
              else if revision = existing then
                (if \<not> HEXISTS R r KEYS1 ARGV1 then (Some 2, r) else (Some 0, r))
              else write
          | _ \<Rightarrow> (None, r)))"

section \<open>Methods\<close>

definition RedisStore_Ping :: "'r world \<Rightarrow> store_error option \<times> 'r world" where
  "RedisStore_Ping w =
    (case command (\<lambda>r. (Some (), r)) w of
       (None, w1) \<Rightarrow> (Some ErrRedis, w1)
     | (Some _, w1) \<Rightarrow> (None, w1))"

definition addPlacement :: "'r redis \<Rightarrow> RedisStore \<Rightarrow> string \<Rightarrow> ('r, unit) operation" where
  "addPlacement R s placement r = (Some (), SADD R r (placementsKey s) placement)"

definition publishPlacement :: "'r redis \<Rightarrow> RedisStore \<Rightarrow> string \<Rightarrow> ('r, unit) operation" where
  "publishPlacement R s placement r = (Some (), PUBLISH R r (eventsKey s) placement)"

definition RedisStore_Upsert ::
    "'r redis \<Rightarrow> (Bid \<Rightarrow> string) \<Rightarrow> RedisStore \<Rightarrow> Bid \<Rightarrow> 'r world
       \<Rightarrow> store_error option \<times> 'r world" where
  "RedisStore_Upsert R enc s b0 w =
    (let b = Bid_Normalize b0 in
     case Bid_Validate b of
       Some e \<Rightarrow> (Some (ErrInvalidBid e), w)
     | None \<Rightarrow>
         let payload = enc b in
         case retryTopology s (addPlacement R s (bidPlacementID b)) w of
           (None, w1) \<Rightarrow> (Some ErrRedis, w1)
         | (Some _, w1) \<Rightarrow>
             (case retryTopology s
                 (upsertBidScript R (activeKey s (bidPlacementID b)) (versionKey s (bidPlacementID b))
                    (bidID b) (FormatUint (bidRevision b) 10) payload) w1 of
                (None, w2) \<Rightarrow> (Some ErrUpsertScript, w2)
              | (Some result, w2) \<Rightarrow>
                  if result = 0 then (Some ErrStaleBidRevision, w2)
                  else
                    (case retryTopology s (publishPlacement R s (bidPlacementID b)) w2 of
                       (None, w3) \<Rightarrow> (Some ErrPublish, w3)
                     | (Some _, w3) \<Rightarrow> (None, w3))))"

definition RedisStore_Delete ::
    "'r redis \<Rightarrow> RedisStore \<Rightarrow> string \<Rightarrow> string \<Rightarrow> uint64 \<Rightarrow> 'r world
       \<Rightarrow> store_error option \<times> 'r world" where
  "RedisStore_Delete R s placement bidId revision w =
    (if placement = [] \<or> bidId = [] \<or> revision = 0 \<or> word_of_int maxInt64 < revision
     then (Some ErrDeleteArguments, w)
     else
       case retryTopology s (addPlacement R s placement) w of
         (None, w1) \<Rightarrow> (Some ErrRedis, w1)
       | (Some _, w1) \<Rightarrow>
           (case retryTopology s
               (deleteBidScript R (activeKey s placement) (versionKey s placement)
                  bidId (FormatUint revision 10)) w1 of
              (None, w2) \<Rightarrow> (Some ErrDeleteScript, w2)
            | (Some result, w2) \<Rightarrow>
                if result = 0 then (Some ErrStaleBidRevision, w2)
                else
                  (case retryTopology s (publishPlacement R s placement) w2 of
                     (None, w3) \<Rightarrow> (Some ErrPublish, w3)
                   | (Some _, w3) \<Rightarrow> (None, w3))))"

text \<open>The loop over the fetched values: it stops at the first payload that does not decode.\<close>

fun decodeActive :: "(string \<Rightarrow> Bid option) \<Rightarrow> string \<Rightarrow> string list \<Rightarrow> Bid list \<Rightarrow> Bid list option" where
  "decodeActive dec placement [] bids = Some bids"
| "decodeActive dec placement (payload # rest) bids =
    (case dec payload of
       None \<Rightarrow> None
     | Some b0 \<Rightarrow>
         let b = Bid_Normalize b0 in
         decodeActive dec placement rest
           (if Bid_Validate b = None \<and> bidPlacementID b = placement then bids @ [b] else bids))"

definition RedisStore_Fetch ::
    "'r redis \<Rightarrow> (string \<Rightarrow> Bid option) \<Rightarrow> RedisStore \<Rightarrow> string \<Rightarrow> 'r world
       \<Rightarrow> (store_error + Bid list) \<times> 'r world" where
  "RedisStore_Fetch R dec s placement w =
    (case retryTopology s (\<lambda>r. (Some (HGETALL R r (activeKey s placement)), r)) w of
       (None, w1) \<Rightarrow> (Inl ErrRedis, w1)
     | (Some values, w1) \<Rightarrow>
         (case decodeActive dec placement (map snd values) [] of
            None \<Rightarrow> (Inl ErrDecode, w1)
          | Some bids \<Rightarrow> (Inr (sortBids bids), w1)))"

definition RedisStore_Placements ::
    "'r redis \<Rightarrow> RedisStore \<Rightarrow> 'r world \<Rightarrow> (store_error + string list) \<times> 'r world" where
  "RedisStore_Placements R s w =
    (case retryTopology s (\<lambda>r. (Some (SMEMBERS R r (placementsKey s)), r)) w of
       (None, w1) \<Rightarrow> (Inl ErrRedis, w1)
     | (Some placements, w1) \<Rightarrow> (Inr (sort placements), w1))"

text \<open>The interface value the server passes around.\<close>

definition redisBidStore ::
    "'r redis \<Rightarrow> (Bid \<Rightarrow> string) \<Rightarrow> (string \<Rightarrow> Bid option) \<Rightarrow> RedisStore \<Rightarrow> 'r world BidStore" where
  "redisBidStore R enc dec s =
    \<lparr>storePing = RedisStore_Ping,
     storeUpsert = RedisStore_Upsert R enc s,
     storeDelete = RedisStore_Delete R s,
     storeFetch = RedisStore_Fetch R dec s,
     storePlacements = RedisStore_Placements R s\<rparr>"

section \<open>Lua numbers\<close>

abbreviation luaRevision :: "uint64 \<Rightarrow> nat" where
  "luaRevision i \<equiv> doubleOfNat (unat i)"

lemma tonumber_FormatUint [simp]: "tonumber (FormatUint i 10) = Some (luaRevision i)"
  by (simp add: tonumber_def FormatUint_def formatBits_digits digitsValue_formatBits)

section \<open>Keys do not collide\<close>

lemmas key_defs = activeKey_def versionKey_def placementsKey_def eventsKey_def key_def

lemma activeKey_inj [simp]: "activeKey s p = activeKey s q \<longleftrightarrow> p = q"
  by (simp add: key_defs)

lemma versionKey_inj [simp]: "versionKey s p = versionKey s q \<longleftrightarrow> p = q"
  by (simp add: key_defs)

lemma keys_disjoint [simp]:
  "activeKey s p \<noteq> versionKey s q" "versionKey s q \<noteq> activeKey s p"
  "activeKey s p \<noteq> placementsKey s" "placementsKey s \<noteq> activeKey s p"
  "versionKey s p \<noteq> placementsKey s" "placementsKey s \<noteq> versionKey s p"
  by (simp_all add: key_defs)

section \<open>The registry the two hashes implement\<close>

text \<open>
  The abstract store: for each placement and bid ID the last accepted revision and, unless that
  revision deleted it, the active payload. \<open>mutate\<close> is the contract of both scripts; an upsert
  carries \<open>Some payload\<close> and a delete carries \<open>None\<close>.
\<close>

type_synonym bidKey = "string \<times> string"

record registry =
  regRevision :: "bidKey \<rightharpoonup> uint64"
  regActive :: "bidKey \<rightharpoonup> string"

definition acceptMutation :: "bidKey \<Rightarrow> uint64 \<Rightarrow> string option \<Rightarrow> registry \<Rightarrow> registry" where
  "acceptMutation k revision payload g =
    g\<lparr>regRevision := (regRevision g)(k \<mapsto> revision), regActive := (regActive g)(k := payload)\<rparr>"

definition mutate :: "bidKey \<Rightarrow> uint64 \<Rightarrow> string option \<Rightarrow> registry \<Rightarrow> nat \<times> registry" where
  "mutate k revision payload g =
    (case regRevision g k of
       None \<Rightarrow> (1, acceptMutation k revision payload g)
     | Some existing \<Rightarrow>
         if luaRevision revision < luaRevision existing then (0, g)
         else if luaRevision revision = luaRevision existing then
           (if regActive g k = payload then (2, g) else (0, g))
         else (1, acceptMutation k revision payload g))"

text \<open>A server state holds a registry when the two hashes of every placement spell it out.\<close>

definition represents :: "'r redis \<Rightarrow> RedisStore \<Rightarrow> 'r \<Rightarrow> registry \<Rightarrow> bool" where
  "represents R s r g \<longleftrightarrow>
    (\<forall>p i. HGET R r (activeKey s p) i = regActive g (p, i))
    \<and> (\<forall>p i. HGET R r (versionKey s p) i =
          map_option (\<lambda>revision. FormatUint revision 10) (regRevision g (p, i)))"

lemma redis_lawsD:
  assumes "redis_laws R"
  shows "HGET R (HSET R r k f v) k' f' = (if k' = k \<and> f' = f then Some v else HGET R r k' f')"
    and "HGET R (HDEL R r k f) k' f' = (if k' = k \<and> f' = f then None else HGET R r k' f')"
    and "k' \<noteq> k \<Longrightarrow> HGET R (SADD R r k m) k' f' = HGET R r k' f'"
    and "HGET R (PUBLISH R r c m) k' f' = HGET R r k' f'"
    and "HEXISTS R r k f \<longleftrightarrow> HGET R r k f \<noteq> None"
    and "map_of (HGETALL R r k) f = HGET R r k f"
    and "distinct (map fst (HGETALL R r k))"
    and "set (SMEMBERS R (SADD R r k m) k') =
      (if k' = k then insert m (set (SMEMBERS R r k')) else set (SMEMBERS R r k'))"
    and "k' \<noteq> k \<Longrightarrow> set (SMEMBERS R (HSET R r k f v) k') = set (SMEMBERS R r k')"
    and "k' \<noteq> k \<Longrightarrow> set (SMEMBERS R (HDEL R r k f) k') = set (SMEMBERS R r k')"
    and "set (SMEMBERS R (PUBLISH R r c m) k') = set (SMEMBERS R r k')"
    and "PUBLISHED R (PUBLISH R r c m) = PUBLISHED R r @ [(c, m)]"
    and "PUBLISHED R (HSET R r k f v) = PUBLISHED R r"
    and "PUBLISHED R (HDEL R r k f) = PUBLISHED R r"
    and "PUBLISHED R (SADD R r k m) = PUBLISHED R r"
  using assms by (simp_all add: redis_laws_def)

lemma upsertBidScript_refines:
  assumes "redis_laws R" and "represents R s r g"
    and "upsertBidScript R (activeKey s p) (versionKey s p) i (FormatUint revision 10) payload r
      = (res, r')"
  shows "res = Some (fst (mutate (p, i) revision (Some payload) g))"
    and "represents R s r' (snd (mutate (p, i) revision (Some payload) g))"
  using assms
  by (auto simp: upsertBidScript_def mutate_def represents_def acceptMutation_def redis_lawsD Let_def
      split: option.splits if_splits)

lemma deleteBidScript_refines:
  assumes "redis_laws R" and "represents R s r g"
    and "deleteBidScript R (activeKey s p) (versionKey s p) i (FormatUint revision 10) r = (res, r')"
  shows "res = Some (fst (mutate (p, i) revision None g))"
    and "represents R s r' (snd (mutate (p, i) revision None g))"
  using assms
  by (auto simp: deleteBidScript_def mutate_def represents_def acceptMutation_def redis_lawsD Let_def
      split: option.splits if_splits)

lemma addPlacement_represents:
  "redis_laws R \<Longrightarrow> represents R s r g \<Longrightarrow> represents R s (snd (addPlacement R s p r)) g"
  by (simp add: represents_def addPlacement_def redis_lawsD)

lemma publishPlacement_represents:
  "redis_laws R \<Longrightarrow> represents R s r g \<Longrightarrow> represents R s (snd (publishPlacement R s p r)) g"
  by (simp add: represents_def publishPlacement_def redis_lawsD)

section \<open>Mutations of the registry\<close>

lemma mutate_idem:
  "snd (mutate k rv pl (snd (mutate k rv pl g))) = snd (mutate k rv pl g)"
  "fst (mutate k rv pl (snd (mutate k rv pl g))) = 0 \<longleftrightarrow> fst (mutate k rv pl g) = 0"
  by (auto simp: mutate_def acceptMutation_def split: option.splits)

lemma mutate_rejected: "fst (mutate k rv pl g) = 0 \<Longrightarrow> snd (mutate k rv pl g) = g"
  by (auto simp: mutate_def split: option.splits if_splits)

lemma mutate_accepted_active:
  "fst (mutate k rv pl g) \<noteq> 0 \<Longrightarrow> regActive (snd (mutate k rv pl g)) k = pl"
  by (auto simp: mutate_def acceptMutation_def split: option.splits if_splits)

lemma mutate_other:
  "k' \<noteq> k \<Longrightarrow> regActive (snd (mutate k rv pl g)) k' = regActive g k'"
  "k' \<noteq> k \<Longrightarrow> regRevision (snd (mutate k rv pl g)) k' = regRevision g k'"
  by (auto simp: mutate_def acceptMutation_def split: option.splits)

text \<open>The recorded revision of a bid only grows, whatever the scripts' rounding does.\<close>

lemma mutate_revision_mono:
  assumes "regRevision g k' = Some old"
  shows "\<exists>new. regRevision (snd (mutate k rv pl g)) k' = Some new \<and> unat old \<le> unat new"
proof (cases "k' = k \<and> luaRevision old < luaRevision rv")
  case True
  then have "unat old \<le> unat rv" by (auto dest: doubleOfNat_less_imp_less)
  with True assms show ?thesis by (auto simp: mutate_def acceptMutation_def)
next
  case False
  with assms show ?thesis by (cases "k' = k") (simp_all add: mutate_other, simp add: mutate_def)
qed

text \<open>No mutation with an older revision changes anything.\<close>

lemma mutate_older_rejected:
  assumes "regRevision g k = Some existing" and "unat rv \<le> unat existing" and "regActive g k \<noteq> pl"
  shows "mutate k rv pl g = (0, g)"
  using assms doubleOfNat_mono [OF assms(2)] by (auto simp: mutate_def)

text \<open>Up to \<open>2 ^ 53\<close> the scripts compare revisions exactly.\<close>

lemma mutate_newer_accepted:
  assumes "regRevision g k = Some existing" and "unat existing < unat rv"
    and "unat rv \<le> 9007199254740992"
  shows "mutate k rv pl g = (1, acceptMutation k rv pl g)"
  using assms by (simp add: mutate_def doubleOfNat_exact)

section \<open>Commands over an unreliable connection\<close>

text \<open>
  The contract a retried command needs: from a state before it (\<open>P\<close>) it leads to a state after it
  (\<open>Q\<close>), running it again from there stays there, and every reply is acceptable (\<open>ok\<close>). Then lost
  requests, lost replies and repeated execution leave the server before or after the command, and
  a reply means after.
\<close>

locale at_least_once =
  fixes op :: "('r, 'a) operation" and P Q :: "'r \<Rightarrow> bool" and ok :: "'a \<Rightarrow> bool"
  assumes first_run: "P r \<Longrightarrow> Q (snd (op r))"
    and again: "Q r \<Longrightarrow> Q (snd (op r))"
    and reply: "P r \<or> Q r \<Longrightarrow> \<exists>a. fst (op r) = Some a \<and> ok a"
begin

lemma execTimes_Q: "Q r \<Longrightarrow> Q (execTimes n op r)"
  by (induction n arbitrary: r) (simp_all add: again)

lemma execTimes_P: "P r \<Longrightarrow> P (execTimes n op r) \<or> Q (execTimes n op r)"
  by (cases n) (simp_all add: first_run execTimes_Q)

lemma op_run: "P r \<or> Q r \<Longrightarrow> \<exists>a. fst (op r) = Some a \<and> ok a \<and> Q (snd (op r))"
  using reply [of r] first_run again by blast

lemma command_ok:
  assumes "P (server w) \<or> Q (server w)" and "command op w = (res, w')"
  shows "(\<exists>a. res = Some a \<and> ok a \<and> Q (server w')) \<or>
    (res = None \<and> (P (server w') \<or> Q (server w')))"
proof (cases "network w")
  case Nil
  then show ?thesis
    using assms op_run [of "server w"] by (auto simp: command_def split: prod.splits)
next
  case (Cons d ds)
  have reached: "P (execTimes n op (server w)) \<or> Q (execTimes n op (server w))" for n
    using assms(1) execTimes_P execTimes_Q by blast
  show ?thesis
  proof (cases d)
    case (Reply n)
    with Cons assms(2) op_run [OF reached [of n]] show ?thesis
      by (auto simp: command_def split: prod.splits)
  next
    case (Lost n)
    with Cons assms(2) reached [of n] show ?thesis
      by (auto simp: command_def)
  qed
qed

lemma retryTopology_ok:
  assumes "P (server w)" and "retryTopology s op w = (res, w')"
  shows "(\<exists>a. res = Some a \<and> ok a \<and> Q (server w')) \<or>
    (res = None \<and> (P (server w') \<or> Q (server w')))"
proof (cases "command op w")
  case (Pair r1 w1)
  with assms(1) have first: "(\<exists>a. r1 = Some a \<and> ok a \<and> Q (server w1)) \<or>
      (r1 = None \<and> (P (server w1) \<or> Q (server w1)))"
    by (intro command_ok) simp_all
  show ?thesis
  proof (cases r1)
    case None
    with first have before: "P (server w1) \<or> Q (server w1)" by simp
    show ?thesis
    proof (cases "storeCluster s")
      case True
      with None Pair assms(2) have "command op w1 = (res, w')" by (simp add: retryTopology_def)
      with before show ?thesis by (rule command_ok)
    next
      case False
      with None Pair assms(2) before show ?thesis by (auto simp: retryTopology_def)
    qed
  next
    case (Some a)
    with Pair first assms(2) show ?thesis by (auto simp: retryTopology_def)
  qed
qed

end

text \<open>
  The server state as the client's methods see it: it represents the registry \<open>g\<close> and indexes at
  least the placements \<open>ps\<close>.
\<close>

definition holds :: "'r redis \<Rightarrow> RedisStore \<Rightarrow> registry \<Rightarrow> string set \<Rightarrow> 'r \<Rightarrow> bool" where
  "holds R s g ps r \<longleftrightarrow>
    redis_laws R \<and> represents R s r g \<and> ps \<subseteq> set (SMEMBERS R r (placementsKey s))"

lemma upsertBidScript_index:
  "redis_laws R \<Longrightarrow>
    set (SMEMBERS R (snd (upsertBidScript R (activeKey s p) (versionKey s p) i v pl r)) (placementsKey s))
      = set (SMEMBERS R r (placementsKey s))"
  by (simp add: upsertBidScript_def redis_lawsD Let_def split: option.split)

lemma deleteBidScript_index:
  "redis_laws R \<Longrightarrow>
    set (SMEMBERS R (snd (deleteBidScript R (activeKey s p) (versionKey s p) i v r)) (placementsKey s))
      = set (SMEMBERS R r (placementsKey s))"
  by (simp add: deleteBidScript_def redis_lawsD Let_def split: option.split)

lemma upsertBidScript_holds:
  assumes "holds R s g ps r"
  shows "fst (upsertBidScript R (activeKey s p) (versionKey s p) i (FormatUint rv 10) pl r)
      = Some (fst (mutate (p, i) rv (Some pl) g))"
    and "holds R s (snd (mutate (p, i) rv (Some pl) g)) ps
      (snd (upsertBidScript R (activeKey s p) (versionKey s p) i (FormatUint rv 10) pl r))"
  using assms upsertBidScript_refines [of R s r g p i rv pl]
  by (auto simp: holds_def upsertBidScript_index prod_eq_iff)

lemma deleteBidScript_holds:
  assumes "holds R s g ps r"
  shows "fst (deleteBidScript R (activeKey s p) (versionKey s p) i (FormatUint rv 10) r)
      = Some (fst (mutate (p, i) rv None g))"
    and "holds R s (snd (mutate (p, i) rv None g)) ps
      (snd (deleteBidScript R (activeKey s p) (versionKey s p) i (FormatUint rv 10) r))"
  using assms deleteBidScript_refines [of R s r g p i rv]
  by (auto simp: holds_def deleteBidScript_index prod_eq_iff)

interpretation upsertScript: at_least_once
  "upsertBidScript R (activeKey s p) (versionKey s p) i (FormatUint rv 10) pl"
  "holds R s g ps" "holds R s (snd (mutate (p, i) rv (Some pl) g)) ps"
  "\<lambda>result. result = 0 \<longleftrightarrow> fst (mutate (p, i) rv (Some pl) g) = 0"
  for R :: "'r redis" and s p i rv pl g ps
proof unfold_locales
  fix r :: 'r
  let ?op = "upsertBidScript R (activeKey s p) (versionKey s p) i (FormatUint rv 10) pl"
  let ?g' = "snd (mutate (p, i) rv (Some pl) g)"
  show "holds R s g ps r \<Longrightarrow> holds R s ?g' ps (snd (?op r))"
    by (rule upsertBidScript_holds)
  show "holds R s ?g' ps r \<Longrightarrow> holds R s ?g' ps (snd (?op r))"
    using upsertBidScript_holds(2) [of R s ?g' ps r p i rv pl] by (simp add: mutate_idem)
  show "holds R s g ps r \<or> holds R s ?g' ps r \<Longrightarrow>
      \<exists>a. fst (?op r) = Some a \<and> (a = 0 \<longleftrightarrow> fst (mutate (p, i) rv (Some pl) g) = 0)"
    using upsertBidScript_holds(1) [of R s g ps r p i rv pl]
      upsertBidScript_holds(1) [of R s ?g' ps r p i rv pl] by (auto simp: mutate_idem)
qed

interpretation deleteScript: at_least_once
  "deleteBidScript R (activeKey s p) (versionKey s p) i (FormatUint rv 10)"
  "holds R s g ps" "holds R s (snd (mutate (p, i) rv None g)) ps"
  "\<lambda>result. result = 0 \<longleftrightarrow> fst (mutate (p, i) rv None g) = 0"
  for R :: "'r redis" and s p i rv g ps
proof unfold_locales
  fix r :: 'r
  let ?op = "deleteBidScript R (activeKey s p) (versionKey s p) i (FormatUint rv 10)"
  let ?g' = "snd (mutate (p, i) rv None g)"
  show "holds R s g ps r \<Longrightarrow> holds R s ?g' ps (snd (?op r))"
    by (rule deleteBidScript_holds)
  show "holds R s ?g' ps r \<Longrightarrow> holds R s ?g' ps (snd (?op r))"
    using deleteBidScript_holds(2) [of R s ?g' ps r p i rv] by (simp add: mutate_idem)
  show "holds R s g ps r \<or> holds R s ?g' ps r \<Longrightarrow>
      \<exists>a. fst (?op r) = Some a \<and> (a = 0 \<longleftrightarrow> fst (mutate (p, i) rv None g) = 0)"
    using deleteBidScript_holds(1) [of R s g ps r p i rv]
      deleteBidScript_holds(1) [of R s ?g' ps r p i rv] by (auto simp: mutate_idem)
qed

interpretation placementIndex: at_least_once
  "addPlacement R s p" "holds R s g ps" "holds R s g (insert p ps)" "\<lambda>_. True"
  for R :: "'r redis" and s p g ps
  by unfold_locales
    (auto simp: holds_def addPlacement_represents addPlacement_def redis_lawsD
      dest: addPlacement_represents [where p = p])

interpretation publication: at_least_once
  "publishPlacement R s p" "holds R s g ps"
  "\<lambda>r. holds R s g ps r \<and> (eventsKey s, p) \<in> set (PUBLISHED R r)" "\<lambda>_. True"
  for R :: "'r redis" and s p g ps
  by unfold_locales
    (auto simp: holds_def publishPlacement_def redis_lawsD
      dest: publishPlacement_represents [where p = p])

interpretation readOnly: at_least_once
  "\<lambda>r. (Some (f r), r)" "\<lambda>r. r = r0" "\<lambda>r. r = r0" "\<lambda>a. a = f r0"
  for f :: "'r \<Rightarrow> 'a" and r0
  by unfold_locales auto

section \<open>What the methods guarantee\<close>

lemma holds_mono: "holds R s g ps r \<Longrightarrow> qs \<subseteq> ps \<Longrightarrow> holds R s g qs r"
  by (auto simp: holds_def)

text \<open>
  The outcome of a versioned mutation of placement \<open>p\<close> whose script maps the registry \<open>g\<close> to
  \<open>m\<close>, for every error the method can return.
\<close>

definition mutationOutcome ::
    "'r redis \<Rightarrow> RedisStore \<Rightarrow> registry \<Rightarrow> string set \<Rightarrow> string \<Rightarrow> nat \<times> registry \<Rightarrow> store_error
       \<Rightarrow> store_error option \<Rightarrow> 'r \<Rightarrow> bool" where
  "mutationOutcome R s g ps p m scriptError err r =
    (case err of
       None \<Rightarrow> fst m \<noteq> 0 \<and> holds R s (snd m) (insert p ps) r
         \<and> (eventsKey s, p) \<in> set (PUBLISHED R r)
     | Some e \<Rightarrow>
         (if e = ErrRedis then holds R s g ps r
          else if e = scriptError
            then holds R s g (insert p ps) r \<or> holds R s (snd m) (insert p ps) r
          else if e = ErrStaleBidRevision then fst m = 0 \<and> holds R s g (insert p ps) r
          else if e = ErrPublish then fst m \<noteq> 0 \<and> holds R s (snd m) (insert p ps) r
          else False))"

lemma mutationOutcome_simps:
  assumes "e = ErrUpsertScript \<or> e = ErrDeleteScript"
  shows "mutationOutcome R s g ps p m e None r \<longleftrightarrow> fst m \<noteq> 0 \<and> holds R s (snd m) (insert p ps) r
      \<and> (eventsKey s, p) \<in> set (PUBLISHED R r)"
    and "mutationOutcome R s g ps p m e (Some ErrRedis) r \<longleftrightarrow> holds R s g ps r"
    and "mutationOutcome R s g ps p m e (Some e) r \<longleftrightarrow>
      holds R s g (insert p ps) r \<or> holds R s (snd m) (insert p ps) r"
    and "mutationOutcome R s g ps p m e (Some ErrStaleBidRevision) r \<longleftrightarrow>
      fst m = 0 \<and> holds R s g (insert p ps) r"
    and "mutationOutcome R s g ps p m e (Some ErrPublish) r \<longleftrightarrow>
      fst m \<noteq> 0 \<and> holds R s (snd m) (insert p ps) r"
  using assms by (auto simp: mutationOutcome_def)

lemma mutationOutcome_state:
  assumes "mutationOutcome R s g ps p m scriptError err r"
  shows "holds R s g ps r \<or> holds R s (snd m) (insert p ps) r"
  using assms
  by (auto simp: mutationOutcome_def split: option.splits if_splits intro: holds_mono)

lemma addPlacement_step:
  assumes "holds R s g ps (server w)" and "retryTopology s (addPlacement R s p) w = (res, w1)"
  shows "if res = None then holds R s g ps (server w1) else holds R s g (insert p ps) (server w1)"
  using placementIndex.retryTopology_ok [OF assms] by (auto intro: holds_mono)

lemma publish_step:
  assumes "holds R s g ps (server w)" and "retryTopology s (publishPlacement R s p) w = (res, w1)"
  shows "holds R s g ps (server w1) \<and>
    (res \<noteq> None \<longrightarrow> (eventsKey s, p) \<in> set (PUBLISHED R (server w1)))"
  using publication.retryTopology_ok [OF assms] by auto

lemma RedisStore_Upsert_outcome:
  assumes start: "holds R s g ps (server w)" and run: "RedisStore_Upsert R enc s b w = (err, w')"
    and valid: "Bid_Validate (Bid_Normalize b) = None"
  shows "mutationOutcome R s g ps (bidPlacementID b)
    (mutate (bidPlacementID b, bidID b) (bidRevision b) (Some (enc (Bid_Normalize b))) g)
    ErrUpsertScript err (server w')"
proof -
  define p where "p = bidPlacementID b"
  define pl where "pl = enc (Bid_Normalize b)"
  define m where "m = mutate (p, bidID b) (bidRevision b) (Some pl) g"
  let ?script = "upsertBidScript R (activeKey s p) (versionKey s p) (bidID b)
    (FormatUint (bidRevision b) 10) pl"
  obtain r1 w1 where s1: "retryTopology s (addPlacement R s p) w = (r1, w1)" by fastforce
  obtain r2 w2 where s2: "retryTopology s ?script w1 = (r2, w2)" by fastforce
  obtain r3 w3 where s3: "retryTopology s (publishPlacement R s p) w2 = (r3, w3)" by fastforce
  have run': "(err, w') =
    (if r1 = None then (Some ErrRedis, w1)
     else if r2 = None then (Some ErrUpsertScript, w2)
     else if r2 = Some 0 then (Some ErrStaleBidRevision, w2)
     else if r3 = None then (Some ErrPublish, w3) else (None, w3))"
    using run valid s1 s2 s3
    by (auto simp: RedisStore_Upsert_def p_def pl_def Let_def split: option.splits)
  note added = addPlacement_step [OF start s1]
  consider "r1 = None" | u where "r1 = Some u" "r2 = None" | u n where "r1 = Some u" "r2 = Some n"
    by (cases r1; cases r2) auto
  then show ?thesis
  proof cases
    case 1
    with run' added show ?thesis by (simp add: mutationOutcome_simps)
  next
    case 2
    with added have "holds R s g (insert p ps) (server w1)" by simp
    from upsertScript.retryTopology_ok [OF this s2] 2 run' show ?thesis
      by (auto simp: mutationOutcome_simps m_def pl_def p_def)
  next
    case (3 u n)
    with added have "holds R s g (insert p ps) (server w1)" by simp
    from upsertScript.retryTopology_ok [OF this s2] 3 have res: "n = 0 \<longleftrightarrow> fst m = 0"
      and after: "holds R s (snd m) (insert p ps) (server w2)" by (simp_all add: m_def pl_def p_def)
    have "fst m = 0 \<Longrightarrow> snd m = g" unfolding m_def by (rule mutate_rejected)
    with 3 run' res after publish_step [OF after s3] show ?thesis
      by (cases "n = 0"; cases r3) (simp_all add: mutationOutcome_simps m_def pl_def p_def)
  qed
qed

lemma RedisStore_Delete_outcome:
  assumes start: "holds R s g ps (server w)" and run: "RedisStore_Delete R s p i rv w = (err, w')"
    and valid: "\<not> (p = [] \<or> i = [] \<or> rv = 0 \<or> word_of_int maxInt64 < rv)"
  shows "mutationOutcome R s g ps p (mutate (p, i) rv None g) ErrDeleteScript err (server w')"
proof -
  define m where "m = mutate (p, i) rv None g"
  let ?script = "deleteBidScript R (activeKey s p) (versionKey s p) i (FormatUint rv 10)"
  obtain r1 w1 where s1: "retryTopology s (addPlacement R s p) w = (r1, w1)" by fastforce
  obtain r2 w2 where s2: "retryTopology s ?script w1 = (r2, w2)" by fastforce
  obtain r3 w3 where s3: "retryTopology s (publishPlacement R s p) w2 = (r3, w3)" by fastforce
  have run': "(err, w') =
    (if r1 = None then (Some ErrRedis, w1)
     else if r2 = None then (Some ErrDeleteScript, w2)
     else if r2 = Some 0 then (Some ErrStaleBidRevision, w2)
     else if r3 = None then (Some ErrPublish, w3) else (None, w3))"
    using run valid s1 s2 s3
    by (auto simp: RedisStore_Delete_def split: option.splits)
  note added = addPlacement_step [OF start s1]
  consider "r1 = None" | u where "r1 = Some u" "r2 = None" | u n where "r1 = Some u" "r2 = Some n"
    by (cases r1; cases r2) auto
  then show ?thesis
  proof cases
    case 1
    with run' added show ?thesis by (simp add: mutationOutcome_simps)
  next
    case 2
    with added have "holds R s g (insert p ps) (server w1)" by simp
    from deleteScript.retryTopology_ok [OF this s2] 2 run' show ?thesis
      by (auto simp: mutationOutcome_simps m_def)
  next
    case (3 u n)
    with added have "holds R s g (insert p ps) (server w1)" by simp
    from deleteScript.retryTopology_ok [OF this s2] 3 have res: "n = 0 \<longleftrightarrow> fst m = 0"
      and after: "holds R s (snd m) (insert p ps) (server w2)" by (simp_all add: m_def)
    have "fst m = 0 \<Longrightarrow> snd m = g" unfolding m_def by (rule mutate_rejected)
    with 3 run' res after publish_step [OF after s3] show ?thesis
      by (cases "n = 0"; cases r3) (simp_all add: mutationOutcome_simps m_def)
  qed
qed

lemma decodeActive_set:
  "decodeActive dec p vs acc = Some bids \<Longrightarrow>
    set bids = set acc \<union> {b. \<exists>v \<in> set vs. \<exists>b0. dec v = Some b0 \<and> b = Bid_Normalize b0
      \<and> Bid_Validate b = None \<and> bidPlacementID b = p}"
proof (induction dec p vs acc rule: decodeActive.induct)
  case (2 dec p v vs acc)
  then obtain b0 where "dec v = Some b0" by (cases "dec v") auto
  with 2 show ?case by (auto simp: Let_def split: if_splits)
qed auto

interpretation redisFetch: bid_store "RedisStore_Fetch R dec s"
  for R :: "'r redis" and dec s
proof unfold_locales
  fix p and w :: "'r world" and bids b
  assume "fst (RedisStore_Fetch R dec s p w) = Inr bids"
  then obtain vs ds where "decodeActive dec p vs [] = Some ds" and bids: "bids = sortBids ds"
    by (auto simp: RedisStore_Fetch_def split: prod.splits option.splits)
  then have ds: "set ds = {b. \<exists>v \<in> set vs. \<exists>b0. dec v = Some b0 \<and> b = Bid_Normalize b0
      \<and> Bid_Validate b = None \<and> bidPlacementID b = p}"
    by (simp add: decodeActive_set)
  show "b \<in> set bids \<Longrightarrow> Bid_Validate b = None" using ds bids by auto
  show "b \<in> set bids \<Longrightarrow> bidPlacementID b = p" using ds bids by auto
  show "sorted (map rankKey bids)" using bids by (simp add: sortBids_eq_sort_key)
qed

text \<open>The bids of a placement that a reader of the active hash accepts.\<close>

definition storedView :: "'r redis \<Rightarrow> (string \<Rightarrow> Bid option) \<Rightarrow> RedisStore \<Rightarrow> 'r \<Rightarrow> string \<Rightarrow> Bid set" where
  "storedView R dec s r p =
    {b. \<exists>v \<in> set (map snd (HGETALL R r (activeKey s p))). \<exists>b0. dec v = Some b0 \<and> b = Bid_Normalize b0
      \<and> Bid_Validate b = None \<and> bidPlacementID b = p}"

lemma RedisStore_Fetch_decodes:
  assumes "RedisStore_Fetch R dec s p w = (res, w')"
  shows "server w' = server w"
    and "res = Inr bids \<Longrightarrow> \<exists>ds. decodeActive dec p
      (map snd (HGETALL R (server w) (activeKey s p))) [] = Some ds \<and> bids = sortBids ds"
proof -
  obtain res1 w1 where s1: "retryTopology s (\<lambda>r. (Some (HGETALL R r (activeKey s p)), r)) w = (res1, w1)"
    by fastforce
  from readOnly.retryTopology_ok [OF refl s1] assms s1
  show "server w' = server w"
    and "res = Inr bids \<Longrightarrow> \<exists>ds. decodeActive dec p
      (map snd (HGETALL R (server w) (activeKey s p))) [] = Some ds \<and> bids = sortBids ds"
    by (auto simp: RedisStore_Fetch_def split: option.splits)
qed

lemma RedisStore_Fetch_view:
  assumes "RedisStore_Fetch R dec s p w = (Inr bids, w')"
  shows "set bids = storedView R dec s (server w) p"
proof -
  from RedisStore_Fetch_decodes(2) [OF assms refl] obtain ds
    where "decodeActive dec p (map snd (HGETALL R (server w) (activeKey s p))) [] = Some ds"
      and "bids = sortBids ds" by blast
  then show ?thesis unfolding storedView_def by (simp only: set_sortBids decodeActive_set) simp
qed

lemma stored_payloads:
  assumes "holds R s g ps r"
  shows "payload \<in> set (map snd (HGETALL R r (activeKey s p))) \<longleftrightarrow> (\<exists>i. regActive g (p, i) = Some payload)"
proof -
  have "map_of (HGETALL R r (activeKey s p)) i = regActive g (p, i)" for i
    using assms by (simp add: holds_def represents_def redis_lawsD)
  moreover have "distinct (map fst (HGETALL R r (activeKey s p)))"
    using assms by (simp add: holds_def redis_lawsD)
  ultimately show ?thesis by (simp add: in_values_iff)
qed

lemma storedView_registry:
  assumes "holds R s g ps r"
  shows "storedView R dec s r p = {b. \<exists>i payload b0. regActive g (p, i) = Some payload
      \<and> dec payload = Some b0 \<and> b = Bid_Normalize b0 \<and> Bid_Validate b = None \<and> bidPlacementID b = p}"
  unfolding storedView_def Bex_def stored_payloads [OF assms] by blast

lemma RedisStore_Fetch_reads:
  assumes "holds R s g ps (server w)" and "RedisStore_Fetch R dec s p w = (Inr bids, w')"
  shows "server w' = server w"
    and "set bids = {b. \<exists>i payload b0. regActive g (p, i) = Some payload \<and> dec payload = Some b0
      \<and> b = Bid_Normalize b0 \<and> Bid_Validate b = None \<and> bidPlacementID b = p}"
  using RedisStore_Fetch_decodes(1) [OF assms(2)] RedisStore_Fetch_view [OF assms(2)]
    storedView_registry [OF assms(1)] by simp_all

lemma RedisStore_Placements_reads:
  assumes "RedisStore_Placements R s w = (res, w')"
  shows "server w' = server w" and "res = Inr placements \<Longrightarrow> sorted placements"
    and "res = Inr placements \<Longrightarrow> set placements = set (SMEMBERS R (server w) (placementsKey s))"
proof -
  obtain res1 w1 where s1: "retryTopology s (\<lambda>r. (Some (SMEMBERS R r (placementsKey s)), r)) w = (res1, w1)"
    by fastforce
  from readOnly.retryTopology_ok [OF refl s1] assms s1
  show "server w' = server w" "res = Inr placements \<Longrightarrow> sorted placements"
    "res = Inr placements \<Longrightarrow> set placements = set (SMEMBERS R (server w) (placementsKey s))"
    by (auto simp: RedisStore_Placements_def split: option.splits)
qed

end
