(* ===== verification/Redis_Client.thy ===== *)
theory Redis_Client
  imports Redis_Store
begin

text \<open>
  The construction of the store in \<open>internal/ads/store.go\<close>: the options, the client of \<open>go-redis\<close> with
  the settings it is created with, and the store around it. The client itself is the parameter of the
  store's operations.
\<close>

record RedisStoreOptions =
  optAddrs :: "string list"
  optPassword :: string
  optDB :: int64
  optPrefix :: string
  optCluster :: bool

record clientSettings =
  csMaxRetries :: int64
  csMinRetryBackoff :: duration
  csMaxRetryBackoff :: duration
  csDialTimeout :: duration
  csReadTimeout :: duration
  csWriteTimeout :: duration

definition storeSettings :: clientSettings where
  "storeSettings =
    \<lparr>csMaxRetries = 3, csMinRetryBackoff = 8 * millisecond, csMaxRetryBackoff = 80 * millisecond,
     csDialTimeout = 300 * millisecond, csReadTimeout = 500 * millisecond, csWriteTimeout = 500 * millisecond\<rparr>"

record clusterOptions =
  coAddrs :: "string list"
  coPassword :: string
  coReadOnly :: bool
  coMaxRedirects :: int64
  coSettings :: clientSettings

record singleOptions =
  soAddr :: string
  soPassword :: string
  soDB :: int64
  soPoolSize :: int64
  soMinIdleConns :: int64
  soSettings :: clientSettings

datatype redisClient = ClusterClient clusterOptions | SingleClient singleOptions

definition NewRedisStoreWithOptions :: "RedisStoreOptions \<Rightarrow> redisClient \<times> RedisStore" where
  "NewRedisStoreWithOptions options =
    (let addrs = (if length (optAddrs options) = 0 then [''127.0.0.1:6379''] else optAddrs options) in
     if optCluster options then
       (ClusterClient \<lparr>coAddrs = addrs, coPassword = optPassword options, coReadOnly = False, coMaxRedirects = 8,
          coSettings = storeSettings\<rparr>,
        \<lparr>storePrefix = optPrefix options, storeCluster = True\<rparr>)
     else
       (SingleClient \<lparr>soAddr = addrs ! 0, soPassword = optPassword options, soDB = optDB options, soPoolSize = 128,
          soMinIdleConns = 8, soSettings = storeSettings\<rparr>,
        \<lparr>storePrefix = optPrefix options, storeCluster = False\<rparr>))"

definition NewRedisStore :: "string \<Rightarrow> string \<Rightarrow> int64 \<Rightarrow> string \<Rightarrow> redisClient \<times> RedisStore" where
  "NewRedisStore addr password db prefix =
    NewRedisStoreWithOptions
      \<lparr>optAddrs = [addr], optPassword = password, optDB = db, optPrefix = prefix, optCluster = False\<rparr>"

text \<open>The short constructor connects to the given address and database, without cluster mode.\<close>

lemma NewRedisStore_single:
  "\<exists>options. NewRedisStore addr password db prefix = (SingleClient options, \<lparr>storePrefix = prefix, storeCluster = False\<rparr>)
    \<and> soAddr options = addr \<and> soPassword options = password \<and> soDB options = db"
  by (simp add: NewRedisStore_def NewRedisStoreWithOptions_def Let_def)

end
