(* ===== verification/Redis_Registry.thy ===== *)
theory Redis_Registry
  imports Redis_Store
begin

text \<open>
  The registry of bids as its clients see it: sequences of \<open>Upsert\<close> and \<open>Delete\<close> calls against
  \<open>RedisStore\<close>, what a read returns after them, and the properties of \<open>internal/ads/store.go\<close>. An
  in-memory server at the end of the theory satisfies the laws assumed of Redis.
\<close>

section \<open>Sequences of mutations\<close>

text \<open>The calls a bid registry receives, from any server, in the order Redis executes them.\<close>

datatype mutation = MUpsert Bid | MDelete string string uint64

fun runMutation ::
    "'r redis \<Rightarrow> (Bid \<Rightarrow> string) \<Rightarrow> RedisStore \<Rightarrow> mutation \<Rightarrow> 'r world \<Rightarrow> store_error option \<times> 'r world" where
  "runMutation R enc s (MUpsert b) w = RedisStore_Upsert R enc s b w"
| "runMutation R enc s (MDelete p i rv) w = RedisStore_Delete R s p i rv w"

fun runMutations ::
    "'r redis \<Rightarrow> (Bid \<Rightarrow> string) \<Rightarrow> RedisStore \<Rightarrow> mutation list \<Rightarrow> 'r world \<Rightarrow> 'r world" where
  "runMutations R enc s [] w = w"
| "runMutations R enc s (m # ms) w = runMutations R enc s ms (snd (runMutation R enc s m w))"

text \<open>
  A registry is well formed when every active payload is the encoding of a valid bid stored under
  its own placement and ID at the recorded revision.
\<close>

definition registryOK :: "(Bid \<Rightarrow> string) \<Rightarrow> registry \<Rightarrow> bool" where
  "registryOK enc g \<longleftrightarrow>
    (\<forall>p i payload. regActive g (p, i) = Some payload \<longrightarrow>
      (\<exists>b. payload = enc b \<and> Bid_Validate b = None \<and> bidPlacementID b = p \<and> bidID b = i
         \<and> regRevision g (p, i) = Some (bidRevision b)))"

lemma registryOK_mutate_upsert:
  assumes "registryOK enc g" and "Bid_Validate b = None"
  shows "registryOK enc (snd (mutate (bidPlacementID b, bidID b) (bidRevision b) (Some (enc b)) g))"
  using assms by (auto simp: registryOK_def mutate_def acceptMutation_def split: option.splits if_splits)

lemma registryOK_mutate_delete:
  "registryOK enc g \<Longrightarrow> registryOK enc (snd (mutate k rv None g))"
  by (auto simp: registryOK_def mutate_def acceptMutation_def split: option.splits if_splits)

definition revisionsGrow :: "registry \<Rightarrow> registry \<Rightarrow> bool" where
  "revisionsGrow g g' \<longleftrightarrow>
    (\<forall>k old. regRevision g k = Some old \<longrightarrow>
      (\<exists>new. regRevision g' k = Some new \<and> unat old \<le> unat new))"

lemma revisionsGrow_refl [simp]: "revisionsGrow g g"
  by (simp add: revisionsGrow_def)

lemma revisionsGrow_trans: "revisionsGrow g g' \<Longrightarrow> revisionsGrow g' g'' \<Longrightarrow> revisionsGrow g g''"
  unfolding revisionsGrow_def by (meson order.trans)

lemma revisionsGrow_mutate: "revisionsGrow g (snd (mutate k rv pl g))"
  unfolding revisionsGrow_def using mutate_revision_mono by blast

text \<open>One mutation, whatever its result: the server holds the registry before it or after it.\<close>

lemma runMutation_state:
  assumes "holds R s g ps (server w)" and "registryOK enc g"
  shows "\<exists>g'. holds R s g' ps (server (snd (runMutation R enc s m w))) \<and> registryOK enc g'
    \<and> revisionsGrow g g'"
proof (cases m)
  case (MUpsert b)
  let ?b = "Bid_Normalize b" and ?w = "snd (RedisStore_Upsert R enc s b w)"
  let ?m = "mutate (bidPlacementID b, bidID b) (bidRevision b) (Some (enc ?b)) g"
  show ?thesis
  proof (cases "Bid_Validate ?b")
    case None
    from RedisStore_Upsert_outcome [OF assms(1) surjective_pairing None, THEN mutationOutcome_state]
    have "holds R s g ps (server ?w) \<or> holds R s (snd ?m) ps (server ?w)"
      by (auto intro: holds_mono)
    moreover have "registryOK enc (snd ?m)"
      using registryOK_mutate_upsert [OF assms(2) None] by simp
    ultimately show ?thesis
      using assms(2) revisionsGrow_mutate revisionsGrow_refl MUpsert by auto
  next
    case (Some e)
    with assms MUpsert show ?thesis by (auto simp: RedisStore_Upsert_def Let_def)
  qed
next
  case (MDelete p i rv)
  let ?m = "mutate (p, i) rv None g" and ?w = "snd (RedisStore_Delete R s p i rv w)"
  show ?thesis
  proof (cases "p = [] \<or> i = [] \<or> rv = 0 \<or> word_of_int maxInt64 < rv")
    case True
    with assms MDelete show ?thesis by (auto simp: RedisStore_Delete_def)
  next
    case False
    from RedisStore_Delete_outcome [OF assms(1) surjective_pairing False, THEN mutationOutcome_state]
    have "holds R s g ps (server ?w) \<or> holds R s (snd ?m) ps (server ?w)"
      by (auto intro: holds_mono)
    then show ?thesis
      using assms(2) revisionsGrow_mutate revisionsGrow_refl registryOK_mutate_delete MDelete by auto
  qed
qed

lemma mutate_older_rejected_lua:
  assumes "regRevision g k = Some existing" and "luaRevision rv \<le> luaRevision existing"
    and "regActive g k \<noteq> pl"
  shows "mutate k rv pl g = (0, g)"
  using assms by (auto simp: mutate_def)

lemma mutate_accepted_revision:
  assumes "fst (mutate k rv pl g) \<noteq> 0"
  shows "\<exists>e. regRevision (snd (mutate k rv pl g)) k = Some e \<and> luaRevision e = luaRevision rv"
  using assms by (auto simp: mutate_def acceptMutation_def split: option.splits if_splits)

lemma RedisStore_Upsert_invalid:
  "Bid_Validate (Bid_Normalize b) = Some e \<Longrightarrow>
    RedisStore_Upsert R enc s b w = (Some (ErrInvalidBid e), w)"
  by (simp add: RedisStore_Upsert_def Let_def)

lemma RedisStore_Upsert_success:
  assumes "holds R s g ps (server w)" and "RedisStore_Upsert R enc s b w = (None, w')"
  shows "Bid_Validate (Bid_Normalize b) = None"
    and "fst (mutate (bidPlacementID b, bidID b) (bidRevision b) (Some (enc (Bid_Normalize b))) g) \<noteq> 0"
    and "holds R s (snd (mutate (bidPlacementID b, bidID b) (bidRevision b)
      (Some (enc (Bid_Normalize b))) g)) (insert (bidPlacementID b) ps) (server w')"
proof -
  show valid: "Bid_Validate (Bid_Normalize b) = None"
    using assms(2) by (cases "Bid_Validate (Bid_Normalize b)") (simp_all add: RedisStore_Upsert_invalid)
  show "fst (mutate (bidPlacementID b, bidID b) (bidRevision b) (Some (enc (Bid_Normalize b))) g) \<noteq> 0"
    "holds R s (snd (mutate (bidPlacementID b, bidID b) (bidRevision b)
      (Some (enc (Bid_Normalize b))) g)) (insert (bidPlacementID b) ps) (server w')"
    using RedisStore_Upsert_outcome [OF assms valid] by (simp_all add: mutationOutcome_simps)
qed

lemma RedisStore_Delete_success:
  assumes "holds R s g ps (server w)" and "RedisStore_Delete R s p i rv w = (None, w')"
  shows "fst (mutate (p, i) rv None g) \<noteq> 0"
    and "holds R s (snd (mutate (p, i) rv None g)) (insert p ps) (server w')"
proof -
  have "\<not> (p = [] \<or> i = [] \<or> rv = 0 \<or> word_of_int maxInt64 < rv)"
    using assms(2) by (auto simp: RedisStore_Delete_def)
  from RedisStore_Delete_outcome [OF assms this]
  show "fst (mutate (p, i) rv None g) \<noteq> 0"
    "holds R s (snd (mutate (p, i) rv None g)) (insert p ps) (server w')"
    by (simp_all add: mutationOutcome_simps)
qed

text \<open>Over a working connection the result is the script's verdict.\<close>

lemma retryTopology_reliable:
  assumes "network w = []" and "op (server w) = (Some a, r)"
  shows "retryTopology s op w = (Some a, w\<lparr>server := r\<rparr>)"
  using assms by (simp add: retryTopology_def command_def)

lemma upsert_reliable:
  assumes "holds R s g ps (server w)" and "network w = []" and "Bid_Validate (Bid_Normalize b) = None"
  shows "fst (RedisStore_Upsert R enc s b w) =
      (if fst (mutate (bidPlacementID b, bidID b) (bidRevision b) (Some (enc (Bid_Normalize b))) g) = 0
       then Some ErrStaleBidRevision else None)"
    and "network (snd (RedisStore_Upsert R enc s b w)) = []"
proof -
  let ?p = "bidPlacementID b"
  let ?script = "upsertBidScript R (activeKey s ?p) (versionKey s ?p) (bidID b)
    (FormatUint (bidRevision b) 10) (enc (Bid_Normalize b))"
  let ?n = "fst (mutate (?p, bidID b) (bidRevision b) (Some (enc (Bid_Normalize b))) g)"
  let ?w1 = "w\<lparr>server := snd (addPlacement R s ?p (server w))\<rparr>"
  have s1: "retryTopology s (addPlacement R s ?p) w = (Some (), ?w1)"
    using assms(2) by (intro retryTopology_reliable) (simp_all add: addPlacement_def)
  have "holds R s g ps (server ?w1)"
    using assms(1) by (auto simp: holds_def addPlacement_represents addPlacement_def redis_lawsD
        dest: addPlacement_represents [where p = ?p])
  then have reply: "?script (server ?w1) = (Some ?n, snd (?script (server ?w1)))"
    by (metis prod.collapse upsertBidScript_holds(1))
  have s2: "retryTopology s ?script ?w1 = (Some ?n, ?w1\<lparr>server := snd (?script (server ?w1))\<rparr>)"
    using assms(2) by (intro retryTopology_reliable reply) simp
  let ?w2 = "?w1\<lparr>server := snd (?script (server ?w1))\<rparr>"
  have s3: "retryTopology s (publishPlacement R s ?p) ?w2 =
      (Some (), ?w2\<lparr>server := snd (publishPlacement R s ?p (server ?w2))\<rparr>)"
    using assms(2) by (intro retryTopology_reliable) (simp_all add: publishPlacement_def)
  show "fst (RedisStore_Upsert R enc s b w) = (if ?n = 0 then Some ErrStaleBidRevision else None)"
    and "network (snd (RedisStore_Upsert R enc s b w)) = []"
    using s1 s2 s3 assms(2,3) by (simp_all add: RedisStore_Upsert_def Let_def)
qed

lemma decodeActive_eq:
  assumes "decodeActive dec p vs acc = Some bids"
  shows "(\<forall>v \<in> set vs. dec v \<noteq> None) \<and>
    bids = acc @ filter (\<lambda>b. Bid_Validate b = None \<and> bidPlacementID b = p)
      (map (\<lambda>v. Bid_Normalize (the (dec v))) vs)"
  using assms
proof (induction vs arbitrary: acc)
  case (Cons v vs)
  then obtain b0 where b0: "dec v = Some b0" by (cases "dec v") auto
  let ?keep = "Bid_Validate (Bid_Normalize b0) = None \<and> bidPlacementID (Bid_Normalize b0) = p"
  have "decodeActive dec p vs (if ?keep then acc @ [Bid_Normalize b0] else acc) = Some bids"
    using Cons.prems b0 by (simp add: Let_def)
  from Cons.IH [OF this] b0 show ?case by (cases ?keep) simp_all
qed simp

text \<open>What a well-formed registry stores for one placement.\<close>

definition activeBids :: "(Bid \<Rightarrow> string) \<Rightarrow> registry \<Rightarrow> string \<Rightarrow> Bid set" where
  "activeBids enc g p =
    {b. Bid_Validate b = None \<and> bidPlacementID b = p \<and> regActive g (p, bidID b) = Some (enc b)}"

lemma registryOK_D:
  assumes "registryOK enc g" and "regActive g (p, i) = Some payload"
  shows "\<exists>b. payload = enc b \<and> bidID b = i \<and> b \<in> activeBids enc g p"
proof -
  from assms obtain b where "payload = enc b" "Bid_Validate b = None" "bidPlacementID b = p" "bidID b = i"
    unfolding registryOK_def by blast
  with assms(2) show ?thesis by (intro exI [of _ b]) (simp add: activeBids_def)
qed

lemma Fetch_distinct:
  assumes "holds R s g ps (server w)" and "registryOK enc g"
    and codec: "\<And>b. b \<in> activeBids enc g p \<Longrightarrow> dec (enc b) = Some b"
    and "RedisStore_Fetch R dec s p w = (Inr bids, w')"
  shows "distinct (map bidID bids)"
proof -
  let ?vals = "HGETALL R (server w) (activeKey s p)"
  let ?f = "\<lambda>v. Bid_Normalize (the (dec v))"
  have vals: "map_of ?vals i = regActive g (p, i)" and dist: "distinct (map fst ?vals)" for i
    using assms(1) by (simp_all add: holds_def represents_def redis_lawsD)
  have id: "bidID (?f v) = i" if "(i, v) \<in> set ?vals" for i v
  proof -
    have "regActive g (p, i) = Some v" using that vals dist by (metis map_of_eq_Some_iff)
    then obtain b where "v = enc b" "bidID b = i" "b \<in> activeBids enc g p"
      using registryOK_D [OF assms(2)] by blast
    with codec show ?thesis by simp
  qed
  obtain ds where "decodeActive dec p (map snd ?vals) [] = Some ds" and bids: "bids = sortBids ds"
    using RedisStore_Fetch_decodes(2) [OF assms(4) refl] by blast
  then have ds: "ds = filter (\<lambda>b. Bid_Validate b = None \<and> bidPlacementID b = p) (map ?f (map snd ?vals))"
    using decodeActive_eq by fastforce
  have "map bidID (map ?f (map snd ?vals)) = map fst ?vals"
    using id by (auto intro: map_cong simp: split_beta)
  then have "distinct (map bidID (map ?f (map snd ?vals)))"
    using dist by (simp only:)
  then have "distinct (map bidID ds)"
    unfolding ds by (rule distinct_map_filter)
  then show ?thesis
    unfolding bids by (metis mset_map mset_sortBids mset_eq_imp_distinct_iff)
qed

lemma activeBids_normal: "b \<in> activeBids enc g p \<Longrightarrow> Bid_Normalize b = b"
  by (auto simp: activeBids_def Bid_Validate_def Bid_Normalize_valid)

lemma storedView_activeBids:
  assumes "holds R s g ps r" and "registryOK enc g"
    and codec: "\<And>b. b \<in> activeBids enc g p \<Longrightarrow> dec (enc b) = Some b"
  shows "storedView R dec s r p = activeBids enc g p"
proof (rule set_eqI, rule iffI)
  fix b assume "b \<in> storedView R dec s r p"
  then obtain i payload b0 where act: "regActive g (p, i) = Some payload" "dec payload = Some b0"
    and b: "b = Bid_Normalize b0"
    unfolding storedView_registry [OF assms(1)] by blast
  obtain c where c: "payload = enc c" "c \<in> activeBids enc g p"
    using registryOK_D [OF assms(2) act(1)] by blast
  with codec act(2) have "b0 = c" by simp
  with c b show "b \<in> activeBids enc g p" by (simp add: activeBids_normal)
next
  fix b assume b: "b \<in> activeBids enc g p"
  from b have "regActive g (p, bidID b) = Some (enc b)" "Bid_Validate b = None" "bidPlacementID b = p"
    by (simp_all add: activeBids_def)
  with codec [OF b] activeBids_normal [OF b] show "b \<in> storedView R dec s r p"
    unfolding storedView_registry [OF assms(1)] mem_Collect_eq by metis
qed

lemma Fetch_activeBids:
  assumes "holds R s g ps (server w)" and "registryOK enc g"
    and codec: "\<And>b. b \<in> activeBids enc g p \<Longrightarrow> dec (enc b) = Some b"
    and "RedisStore_Fetch R dec s p w = (Inr bids, w')"
  shows "set bids = activeBids enc g p"
  using RedisStore_Fetch_view [OF assms(4)] storedView_activeBids [OF assms(1,2) codec] by simp

section \<open>A server for the examples\<close>

record memory =
  memHash :: "string \<Rightarrow> (string \<times> string) list"
  memSet :: "string \<Rightarrow> string list"
  memPublished :: "(string \<times> string) list"

definition emptyMemory :: memory where
  "emptyMemory = \<lparr>memHash = (\<lambda>_. []), memSet = (\<lambda>_. []), memPublished = []\<rparr>"

definition memoryRedis :: "memory redis" where
  "memoryRedis =
    \<lparr>HGET = (\<lambda>r k f. map_of (memHash r k) f),
     HEXISTS = (\<lambda>r k f. map_of (memHash r k) f \<noteq> None),
     HGETALL = (\<lambda>r k. AList.clearjunk (memHash r k)),
     HSET = (\<lambda>r k f v. r\<lparr>memHash := (memHash r)(k := AList.update f v (memHash r k))\<rparr>),
     HDEL = (\<lambda>r k f. r\<lparr>memHash := (memHash r)(k := AList.delete f (memHash r k))\<rparr>),
     SADD = (\<lambda>r k m. r\<lparr>memSet := (memSet r)(k := List.insert m (memSet r k))\<rparr>),
     SMEMBERS = (\<lambda>r k. memSet r k),
     PUBLISH = (\<lambda>r c m. r\<lparr>memPublished := memPublished r @ [(c, m)]\<rparr>),
     PUBLISHED = memPublished\<rparr>"

lemma memoryRedis_laws: "redis_laws memoryRedis"
  unfolding redis_laws_def
  by (intro conjI allI impI)
    (simp_all add: memoryRedis_def update_conv' delete_conv' map_of_clearjunk)

definition exampleStore :: RedisStore where
  "exampleStore = \<lparr>storePrefix = ''ads'', storeCluster = True\<rparr>"

definition emptyRegistry :: registry where
  "emptyRegistry = \<lparr>regRevision = Map.empty, regActive = Map.empty\<rparr>"

lemma emptyRegistry_simps [simp]:
  "regRevision emptyRegistry k = None" "regActive emptyRegistry k = None"
  by (simp_all add: emptyRegistry_def)

lemma emptyMemory_holds: "holds memoryRedis s emptyRegistry {} emptyMemory"
proof -
  have "represents memoryRedis s emptyMemory emptyRegistry"
    by (simp add: represents_def memoryRedis_def emptyMemory_def emptyRegistry_def)
  then show ?thesis by (simp add: holds_def memoryRedis_laws)
qed

lemma emptyRegistry_OK: "registryOK enc emptyRegistry"
  by (simp add: registryOK_def emptyRegistry_def)

definition storedBid :: "uint64 \<Rightarrow> Bid" where
  "storedBid revision = largestBid\<lparr>bidRevision := revision\<rparr>"

text \<open>An encoding for examples that tells one bid from the others.\<close>

definition exampleEnc :: "Bid \<Rightarrow> string" where
  "exampleEnc b = (if b = storedBid 2 then ''second'' else ''other'')"

lemma storedBid_fields [simp]:
  "bidPlacementID (storedBid revision) = ''p''" "bidID (storedBid revision) = ''a''"
  "bidRevision (storedBid revision) = revision"
  by (simp_all add: storedBid_def largestBid_def)

lemma storedBid_valid:
  assumes "0 < uint revision" and "uint revision \<le> maxInt64"
  shows "Bid_Validate (storedBid revision) = None"
    and "Bid_Normalize (storedBid revision) = storedBid revision"
proof -
  have "Bid_validate True largestBid = None" by (rule largestBid_valid)
  with assms have valid: "Bid_validate True (storedBid revision) = None"
    by (simp only: Bid_validate_iff) (simp add: storedBid_def)
  then show "Bid_Normalize (storedBid revision) = storedBid revision" by (rule Bid_Normalize_valid)
  from valid show "Bid_Validate (storedBid revision) = None" by (simp add: Bid_Validate_def)
qed

section \<open>Properties\<close>

text \<open>
  C4: \<open>Upsert\<close> implements the versioned registry over an unreliable connection. Whatever the network
  does, an invalid bid changes nothing; success means the mutation was accepted, the placement is
  indexed and an invalidation was published; \<open>ErrStaleBidRevision\<close> means it was rejected and the
  registry is unchanged; a transport error leaves the registry before or after the mutation and
  never in between.
\<close>

theorem upsert_refines_registry:
  assumes "holds R s g ps (server w)" and "RedisStore_Upsert R enc s b w = (err, w')"
  shows "case Bid_Validate (Bid_Normalize b) of
      Some e \<Rightarrow> err = Some (ErrInvalidBid e) \<and> w' = w
    | None \<Rightarrow> mutationOutcome R s g ps (bidPlacementID b)
        (mutate (bidPlacementID b, bidID b) (bidRevision b) (Some (enc (Bid_Normalize b))) g)
        ErrUpsertScript err (server w')"
  using assms RedisStore_Upsert_outcome [OF assms]
  by (auto simp: RedisStore_Upsert_def Let_def split: option.splits)

theorem upsert_refines_registry_witness:
  "mutationOutcome memoryRedis exampleStore emptyRegistry {} ''p''
     (mutate (''p'', ''a'') 1 (Some (exampleEnc (storedBid 1))) emptyRegistry) ErrUpsertScript
     (fst (RedisStore_Upsert memoryRedis exampleEnc exampleStore (storedBid 1)
        \<lparr>server = emptyMemory, network = [Reply 0, Lost 1, Lost 0]\<rparr>))
     (server (snd (RedisStore_Upsert memoryRedis exampleEnc exampleStore (storedBid 1)
        \<lparr>server = emptyMemory, network = [Reply 0, Lost 1, Lost 0]\<rparr>)))"
proof -
  let ?w = "\<lparr>server = emptyMemory, network = [Reply 0, Lost 1, Lost 0]\<rparr>"
  have "holds memoryRedis exampleStore emptyRegistry {} (server ?w)" by (simp add: emptyMemory_holds)
  from upsert_refines_registry [OF this surjective_pairing, where enc = exampleEnc and b = "storedBid 1"]
  show ?thesis by (simp add: storedBid_valid)
qed

text \<open>
  C5: \<open>Delete\<close> implements the versioned registry in the same way; a call without a placement, without
  an ID or with a revision outside \<open>1..MaxInt64\<close> is refused before Redis is contacted.
\<close>

theorem delete_refines_registry:
  assumes "holds R s g ps (server w)" and "RedisStore_Delete R s p i rv w = (err, w')"
  shows "if p = [] \<or> i = [] \<or> rv = 0 \<or> word_of_int maxInt64 < rv
    then err = Some ErrDeleteArguments \<and> w' = w
    else mutationOutcome R s g ps p (mutate (p, i) rv None g) ErrDeleteScript err (server w')"
  using assms RedisStore_Delete_outcome [OF assms]
  by (auto simp: RedisStore_Delete_def)

theorem delete_refines_registry_witness:
  "mutationOutcome memoryRedis exampleStore emptyRegistry {} ''p'' (mutate (''p'', ''a'') 3 None emptyRegistry)
     ErrDeleteScript
     (fst (RedisStore_Delete memoryRedis exampleStore ''p'' ''a'' 3
        \<lparr>server = emptyMemory, network = [Reply 2, Lost 1]\<rparr>))
     (server (snd (RedisStore_Delete memoryRedis exampleStore ''p'' ''a'' 3
        \<lparr>server = emptyMemory, network = [Reply 2, Lost 1]\<rparr>)))"
proof -
  let ?w = "\<lparr>server = emptyMemory, network = [Reply 2, Lost 1]\<rparr>"
  have "holds memoryRedis exampleStore emptyRegistry {} (server ?w)" by (simp add: emptyMemory_holds)
  from delete_refines_registry [OF this surjective_pairing, where p = "''p''" and i = "''a''" and rv = 3]
  show ?thesis by simp
qed

text \<open>
  C6: for every sequence of upserts and deletes over every network behaviour, the server keeps
  representing a well-formed registry (each active payload is a valid bid under its own placement,
  ID and revision) and no recorded revision ever decreases.
\<close>

theorem mutations_keep_registry:
  assumes "holds R s g ps (server w)" and "registryOK enc g"
  shows "\<exists>g'. holds R s g' ps (server (runMutations R enc s ms w)) \<and> registryOK enc g' \<and> revisionsGrow g g'"
  using assms
proof (induction ms arbitrary: g w)
  case Nil
  then show ?case by auto
next
  case (Cons m ms)
  from runMutation_state [OF Cons.prems] obtain g1
    where "holds R s g1 ps (server (snd (runMutation R enc s m w)))" "registryOK enc g1"
      and grow: "revisionsGrow g g1" by blast
  from Cons.IH [OF this(1,2)] grow revisionsGrow_trans show ?case by fastforce
qed

theorem mutations_keep_registry_witness:
  "\<exists>g. holds memoryRedis exampleStore g {} (server (runMutations memoryRedis exampleEnc exampleStore
       [MUpsert (storedBid 2), MDelete ''p'' ''a'' 5, MUpsert (storedBid 4)]
       \<lparr>server = emptyMemory, network = [Reply 0, Lost 1, Reply 0]\<rparr>)) \<and> registryOK exampleEnc g"
  using mutations_keep_registry [of memoryRedis exampleStore emptyRegistry "{}"
      "\<lparr>server = emptyMemory, network = [Reply 0, Lost 1, Reply 0]\<rparr>" exampleEnc] emptyMemory_holds
    emptyRegistry_OK by fastforce

text \<open>
  C11: a delete leaves a tombstone. After a successful \<open>Delete\<close> at some revision, an \<open>Upsert\<close> of that
  bid at the same or an older revision never succeeds, never brings the bid back, and reports
  \<open>ErrStaleBidRevision\<close> when the bid is valid and the connection works.
\<close>

theorem tombstone_blocks_old_upsert:
  assumes start: "holds R s g ps (server w)"
    and del: "RedisStore_Delete R s p i rv w = (None, w1)"
    and ups: "RedisStore_Upsert R enc s b w1 = (err, w2)"
    and bid: "bidPlacementID b = p" "bidID b = i" "unat (bidRevision b) \<le> unat rv"
  shows "err \<noteq> None \<and> HGET R (server w2) (activeKey s p) i = None
    \<and> (network w1 = [] \<and> Bid_Validate (Bid_Normalize b) = None \<longrightarrow> err = Some ErrStaleBidRevision)"
proof -
  let ?d = "mutate (p, i) rv None g" and ?g = "snd (mutate (p, i) rv None g)"
  let ?m = "mutate (p, i) (bidRevision b) (Some (enc (Bid_Normalize b))) ?g"
  note acc = RedisStore_Delete_success(1) [OF start del]
    and h1 = RedisStore_Delete_success(2) [OF start del]
  have none: "regActive ?g (p, i) = None" using mutate_accepted_active [OF acc] .
  obtain e where "regRevision ?g (p, i) = Some e" "luaRevision e = luaRevision rv"
    using mutate_accepted_revision [OF acc] by blast
  then have m: "?m = (0, ?g)"
    using none doubleOfNat_mono [OF bid(3)]
    by (intro mutate_older_rejected_lua [where existing = e]) simp_all
  show ?thesis
  proof (cases "Bid_Validate (Bid_Normalize b)")
    case None
    with RedisStore_Upsert_outcome [OF h1 ups] bid m
    have out: "mutationOutcome R s ?g (insert p ps) p (0, ?g) ErrUpsertScript err (server w2)"
      by simp
    then have "holds R s ?g (insert p ps) (server w2)"
      using mutationOutcome_state [OF out] by simp
    then have "HGET R (server w2) (activeKey s p) i = None"
      using none by (simp add: holds_def represents_def)
    moreover have "err \<noteq> None" using out by (cases err) (simp_all add: mutationOutcome_simps)
    moreover have "err = Some ErrStaleBidRevision" if "network w1 = []"
      using upsert_reliable(1) [OF h1 that None, of enc] ups bid m by simp
    ultimately show ?thesis by simp
  next
    case (Some e)
    then have "err = Some (ErrInvalidBid e) \<and> w2 = w1"
      using ups by (simp add: RedisStore_Upsert_invalid)
    then show ?thesis using Some none h1 by (simp add: holds_def represents_def)
  qed
qed

theorem tombstone_blocks_old_upsert_witness:
  "fst (RedisStore_Upsert memoryRedis exampleEnc exampleStore (storedBid 2)
     (snd (RedisStore_Delete memoryRedis exampleStore ''p'' ''a'' 3 \<lparr>server = emptyMemory, network = []\<rparr>)))
   = Some ErrStaleBidRevision"
proof -
  let ?w = "\<lparr>server = emptyMemory, network = []\<rparr> :: memory world"
  have start: "holds memoryRedis exampleStore emptyRegistry {} (server ?w)"
    by (simp add: emptyMemory_holds)
  have del: "RedisStore_Delete memoryRedis exampleStore ''p'' ''a'' 3 ?w =
      (None, snd (RedisStore_Delete memoryRedis exampleStore ''p'' ''a'' 3 ?w))"
    and net: "network (snd (RedisStore_Delete memoryRedis exampleStore ''p'' ''a'' 3 ?w)) = []"
    by (simp_all add: RedisStore_Delete_def retryTopology_def command_def addPlacement_def
        publishPlacement_def deleteBidScript_def memoryRedis_def emptyMemory_def)
  show ?thesis
    using tombstone_blocks_old_upsert [OF start del surjective_pairing, where b = "storedBid 2"
        and enc = exampleEnc] net
    by (simp add: storedBid_valid)
qed

text \<open>
  C30: newer revisions get through. Over a working connection a valid bid whose revision is newer than
  everything recorded for it and at most \<open>2 ^ 53\<close> is accepted, and its payload becomes the active one.
\<close>

theorem newer_upsert_accepted:
  assumes start: "holds R s g ps (server w)" and net: "network w = []"
    and valid: "Bid_Validate (Bid_Normalize b) = None"
    and newer: "\<forall>existing. regRevision g (bidPlacementID b, bidID b) = Some existing
      \<longrightarrow> unat existing < unat (bidRevision b)"
    and exact: "unat (bidRevision b) \<le> 2 ^ 53"
  shows "\<exists>w'. RedisStore_Upsert R enc s b w = (None, w')
    \<and> HGET R (server w') (activeKey s (bidPlacementID b)) (bidID b) = Some (enc (Bid_Normalize b))"
proof -
  let ?k = "(bidPlacementID b, bidID b)"
  let ?m = "mutate ?k (bidRevision b) (Some (enc (Bid_Normalize b))) g"
  have "fst ?m = 1"
    using newer exact mutate_newer_accepted [of g ?k _ "bidRevision b"]
    by (cases "regRevision g ?k") (simp_all add: mutate_def doubleOfNat_exact)
  then have "fst (RedisStore_Upsert R enc s b w) = None"
    using upsert_reliable(1) [OF start net valid, of enc] by simp
  then obtain w' where run: "RedisStore_Upsert R enc s b w = (None, w')" by (metis prod.collapse)
  have "holds R s (snd ?m) (insert (bidPlacementID b) ps) (server w')"
    using RedisStore_Upsert_success(3) [OF start run] .
  moreover have "regActive (snd ?m) ?k = Some (enc (Bid_Normalize b))"
    using mutate_accepted_active [of ?k "bidRevision b"] \<open>fst ?m = 1\<close> by simp
  ultimately show ?thesis using run by (auto simp: holds_def represents_def)
qed

theorem newer_upsert_accepted_witness:
  "\<exists>w'. RedisStore_Upsert memoryRedis exampleEnc exampleStore (storedBid 2)
      \<lparr>server = emptyMemory, network = []\<rparr> = (None, w')
    \<and> HGET memoryRedis (server w') (activeKey exampleStore ''p'') ''a'' = Some ''second''"
  using newer_upsert_accepted [of memoryRedis exampleStore emptyRegistry "{}"
      "\<lparr>server = emptyMemory, network = []\<rparr>" "storedBid 2" exampleEnc]
  by (simp add: emptyMemory_holds storedBid_valid exampleEnc_def)

text \<open>
  C36: above \<open>2 ^ 53\<close> the scripts compare rounded revisions. A bid deleted at revision \<open>2 ^ 53\<close> cannot
  be re-created at the newer revision \<open>2 ^ 53 + 1\<close>, which \<open>Validate\<close> allows: over a working
  connection the upsert is rejected as stale.
\<close>

theorem upsert_above_double_precision_rejected:
  assumes start: "holds R s g ps (server w)"
    and del: "RedisStore_Delete R s p i 9007199254740992 w = (None, w1)" and net: "network w1 = []"
    and valid: "Bid_Validate (Bid_Normalize b) = None"
    and bid: "bidPlacementID b = p" "bidID b = i" "bidRevision b = 9007199254740993"
  shows "fst (RedisStore_Upsert R enc s b w1) = Some ErrStaleBidRevision"
proof -
  let ?g = "snd (mutate (p, i) 9007199254740992 None g)"
  note acc = RedisStore_Delete_success(1) [OF start del]
    and h1 = RedisStore_Delete_success(2) [OF start del]
  obtain e where e: "regRevision ?g (p, i) = Some e" "luaRevision e = luaRevision 9007199254740992"
    using mutate_accepted_revision [OF acc] by blast
  have "doubleOfNat 9007199254740993 = doubleOfNat 9007199254740992"
    by (simp add: doubleOfNat_def doubleExponent.simps)
  then have "luaRevision 9007199254740993 = luaRevision e" using e(2) by simp
  then have "mutate (p, i) 9007199254740993 (Some (enc (Bid_Normalize b))) ?g = (0, ?g)"
    using e(1) mutate_accepted_active [OF acc] by (intro mutate_older_rejected_lua [where existing = e]) simp_all
  with upsert_reliable(1) [OF h1 net valid, of enc] bid show ?thesis by simp
qed

theorem upsert_above_double_precision_rejected_witness:
  "fst (RedisStore_Upsert memoryRedis exampleEnc exampleStore (storedBid 9007199254740993)
     (snd (RedisStore_Delete memoryRedis exampleStore ''p'' ''a'' 9007199254740992
        \<lparr>server = emptyMemory, network = []\<rparr>)))
   = Some ErrStaleBidRevision"
proof -
  let ?w = "\<lparr>server = emptyMemory, network = []\<rparr> :: memory world"
  have start: "holds memoryRedis exampleStore emptyRegistry {} (server ?w)"
    by (simp add: emptyMemory_holds)
  have del: "RedisStore_Delete memoryRedis exampleStore ''p'' ''a'' 9007199254740992 ?w =
      (None, snd (RedisStore_Delete memoryRedis exampleStore ''p'' ''a'' 9007199254740992 ?w))"
    and net: "network (snd (RedisStore_Delete memoryRedis exampleStore ''p'' ''a'' 9007199254740992 ?w)) = []"
    by (simp_all add: RedisStore_Delete_def retryTopology_def command_def addPlacement_def
        publishPlacement_def deleteBidScript_def memoryRedis_def emptyMemory_def)
  show ?thesis
    using upsert_above_double_precision_rejected [OF start del net, where b = "storedBid 9007199254740993"
        and enc = exampleEnc]
    by (simp add: storedBid_valid)
qed

text \<open>
  An exact retry is idempotent. After a successful \<open>Upsert\<close>, calling it again with the same bid
  over a working connection succeeds and leaves the same registry.
\<close>

theorem upsert_retry_idempotent:
  assumes start: "holds R s g ps (server w)"
    and first: "RedisStore_Upsert R enc s b w = (None, w1)"
    and "network w1 = []"
  shows "\<exists>g' w2. RedisStore_Upsert R enc s b w1 = (None, w2)
    \<and> holds R s g' (insert (bidPlacementID b) ps) (server w1)
    \<and> holds R s g' (insert (bidPlacementID b) ps) (server w2)"
proof -
  note valid = RedisStore_Upsert_success(1) [OF start first]
  let ?p = "bidPlacementID b"
  let ?mut = "mutate (?p, bidID b) (bidRevision b) (Some (enc (Bid_Normalize b)))"
  let ?g = "snd (?mut g)"
  have acc: "fst (?mut g) \<noteq> 0" and h1: "holds R s ?g (insert ?p ps) (server w1)"
    using RedisStore_Upsert_success(2,3) [OF start first] by simp_all
  have "fst (RedisStore_Upsert R enc s b w1) = None"
    using upsert_reliable(1) [OF h1 assms(3) valid, of enc] acc by (simp add: mutate_idem)
  then obtain w2 where second: "RedisStore_Upsert R enc s b w1 = (None, w2)"
    by (metis prod.collapse)
  have "holds R s ?g (insert ?p ps) (server w2)"
    using RedisStore_Upsert_success(3) [OF h1 second] by (simp add: mutate_idem)
  with second h1 show ?thesis by blast
qed

lemma example_upsert:
  "RedisStore_Upsert memoryRedis exampleEnc exampleStore (storedBid 2) \<lparr>server = emptyMemory, network = []\<rparr> =
     (None, snd (RedisStore_Upsert memoryRedis exampleEnc exampleStore (storedBid 2)
        \<lparr>server = emptyMemory, network = []\<rparr>))"
  "network (snd (RedisStore_Upsert memoryRedis exampleEnc exampleStore (storedBid 2)
        \<lparr>server = emptyMemory, network = []\<rparr>)) = []"
  using upsert_reliable [of memoryRedis exampleStore emptyRegistry "{}"
      "\<lparr>server = emptyMemory, network = []\<rparr>" "storedBid 2" exampleEnc]
  by (simp_all add: emptyMemory_holds storedBid_valid mutate_def prod_eq_iff)

theorem upsert_retry_idempotent_witness:
  "\<exists>w2. RedisStore_Upsert memoryRedis exampleEnc exampleStore (storedBid 2)
      (snd (RedisStore_Upsert memoryRedis exampleEnc exampleStore (storedBid 2)
        \<lparr>server = emptyMemory, network = []\<rparr>)) = (None, w2)"
proof -
  have start: "holds memoryRedis exampleStore emptyRegistry {}
      (server (\<lparr>server = emptyMemory, network = []\<rparr> :: memory world))"
    by (simp add: emptyMemory_holds)
  show ?thesis using upsert_retry_idempotent [OF start example_upsert] by blast
qed

text \<open>
  \<open>Fetch\<close> returns exactly the active bids of the placement, each once, in rank order, provided the
  stored payloads decode to the bids that were encoded.
\<close>

lemma Fetch_exact:
  assumes "holds R s g ps (server w)" and "registryOK enc g"
    and codec: "\<forall>b \<in> activeBids enc g p. dec (enc b) = Some b"
    and run: "RedisStore_Fetch R dec s p w = (Inr bids, w')"
  shows "set bids = activeBids enc g p \<and> distinct (map bidID bids) \<and> sortBids bids = bids
    \<and> server w' = server w"
  using Fetch_activeBids [OF assms(1,2) _ run] Fetch_distinct [OF assms(1,2) _ run] codec
    RedisStore_Fetch_reads(1) [OF assms(1) run] redisFetch.fetch_resorted [of R dec s p w bids] run
  by simp

text \<open>
  What was written can be read. After a successful \<open>Upsert\<close>, a successful \<open>Fetch\<close> of its placement
  contains the normalised bid, provided the bid's encoding decodes.
\<close>

theorem upsert_then_fetch:
  assumes start: "holds R s g ps (server w)"
    and ups: "RedisStore_Upsert R enc s b w = (None, w1)"
    and run: "RedisStore_Fetch R dec s (bidPlacementID b) w1 = (Inr bids, w2)"
    and codec: "dec (enc (Bid_Normalize b)) = Some (Bid_Normalize b)"
  shows "Bid_Normalize b \<in> set bids"
proof -
  let ?m = "mutate (bidPlacementID b, bidID b) (bidRevision b) (Some (enc (Bid_Normalize b))) g"
  note valid = RedisStore_Upsert_success(1) [OF start ups]
    and acc = RedisStore_Upsert_success(2) [OF start ups]
    and h1 = RedisStore_Upsert_success(3) [OF start ups]
  show ?thesis
    unfolding RedisStore_Fetch_reads(2) [OF h1 run]
    using mutate_accepted_active [OF acc] codec valid by fastforce
qed

text \<open>A decoder for the examples.\<close>

definition exampleDec :: "string \<Rightarrow> Bid option" where
  "exampleDec payload = (if payload = ''second'' then Some (storedBid 2) else None)"

lemma example_fetch:
  "RedisStore_Fetch memoryRedis exampleDec exampleStore ''p''
     (snd (RedisStore_Upsert memoryRedis exampleEnc exampleStore (storedBid 2)
        \<lparr>server = emptyMemory, network = []\<rparr>)) =
   (Inr [storedBid 2], snd (RedisStore_Upsert memoryRedis exampleEnc exampleStore (storedBid 2)
        \<lparr>server = emptyMemory, network = []\<rparr>))"
  by (simp add: RedisStore_Fetch_def RedisStore_Upsert_def storedBid_valid retryTopology_def command_def
      addPlacement_def publishPlacement_def upsertBidScript_def memoryRedis_def emptyMemory_def
      exampleDec_def exampleEnc_def sortBids_def)

theorem upsert_then_fetch_witness: "storedBid 2 \<in> set [storedBid 2]"
proof -
  have start: "holds memoryRedis exampleStore emptyRegistry {}
      (server (\<lparr>server = emptyMemory, network = []\<rparr> :: memory world))"
    by (simp add: emptyMemory_holds)
  show ?thesis
    using upsert_then_fetch [OF start example_upsert(1), of exampleDec "[storedBid 2]"] example_fetch
    by (simp add: storedBid_valid exampleDec_def exampleEnc_def)
qed

end
