(* ===== verification/Redis_Cache.thy ===== *)
theory Redis_Cache
  imports Redis_Registry Bid_Cache
begin

text \<open>
  \<open>BidCache\<close> over \<open>RedisStore\<close>: the store's methods meet the contract \<open>readable_store\<close>, so what the
  cache serves is related to the registry that the servers of the fleet write.
\<close>

section \<open>The Redis store as the cache reads it\<close>

lemma redisBidStore_sel [simp]:
  "storePing (redisBidStore R enc dec s) = RedisStore_Ping"
  "storeUpsert (redisBidStore R enc dec s) = RedisStore_Upsert R enc s"
  "storeDelete (redisBidStore R enc dec s) = RedisStore_Delete R s"
  "storeFetch (redisBidStore R enc dec s) = RedisStore_Fetch R dec s"
  "storePlacements (redisBidStore R enc dec s) = RedisStore_Placements R s"
  by (simp_all add: redisBidStore_def)

abbreviation redisView :: "'r redis \<Rightarrow> (string \<Rightarrow> Bid option) \<Rightarrow> RedisStore \<Rightarrow> 'r world \<Rightarrow> string \<Rightarrow> Bid set" where
  "redisView R dec s w \<equiv> storedView R dec s (server w)"

abbreviation redisKnown :: "'r redis \<Rightarrow> RedisStore \<Rightarrow> 'r world \<Rightarrow> string set" where
  "redisKnown R s w \<equiv> set (SMEMBERS R (server w) (placementsKey s))"

interpretation redisCache: readable_store "redisBidStore R enc dec s" "redisView R dec s" "redisKnown R s"
  for R :: "'r redis" and enc dec s
proof unfold_locales
  fix p and w w' :: "'r world" and bids b res res' ps
  let ?S = "redisBidStore R enc dec s"
  note [simp] = RedisStore_Fetch_decodes(1) RedisStore_Placements_reads(1)
  show "fst (storeFetch ?S p w) = Inr bids \<Longrightarrow> b \<in> set bids \<Longrightarrow> Bid_Validate b = None"
    using redisFetch.fetch_valid by simp
  show "fst (storeFetch ?S p w) = Inr bids \<Longrightarrow> b \<in> set bids \<Longrightarrow> bidPlacementID b = p"
    using redisFetch.fetch_placement by simp
  show "fst (storeFetch ?S p w) = Inr bids \<Longrightarrow> sorted (map rankKey bids)"
    using redisFetch.fetch_sorted by simp
  show "storeFetch ?S p w = (Inr bids, w') \<Longrightarrow> set bids = redisView R dec s w p"
    using RedisStore_Fetch_view by simp
  show "storeFetch ?S p w = (res, w') \<Longrightarrow>
      redisView R dec s w' = redisView R dec s w \<and> redisKnown R s w' = redisKnown R s w"
    by simp
  show "storePlacements ?S w = (Inr ps, w') \<Longrightarrow> set ps = redisKnown R s w"
    by (simp add: RedisStore_Placements_reads(3) [OF _ refl])
  show "storePlacements ?S w = (res', w') \<Longrightarrow>
      redisView R dec s w' = redisView R dec s w \<and> redisKnown R s w' = redisKnown R s w"
    by simp
qed

text \<open>A mutation of placement \<open>p\<close> by any server of the fleet, whatever it returns.\<close>

definition redisMutation ::
    "'r redis \<Rightarrow> (Bid \<Rightarrow> string) \<Rightarrow> RedisStore \<Rightarrow> 'r world \<Rightarrow> 'r world \<Rightarrow> string \<Rightarrow> bool" where
  "redisMutation R enc s w w' p \<longleftrightarrow>
    (\<exists>b. bidPlacementID b = p \<and> w' = snd (RedisStore_Upsert R enc s b w))
    \<or> (\<exists>i rv. w' = snd (RedisStore_Delete R s p i rv w))"

section \<open>Reconciliation over a working connection\<close>

lemma decodeActive_total:
  "(\<forall>v \<in> set vs. dec v \<noteq> None) \<Longrightarrow> \<exists>ds. decodeActive dec p vs acc = Some ds"
  by (induction vs arbitrary: acc) (auto simp: Let_def)

lemma payloads_decode:
  assumes "holds R s g ps r" and "registryOK enc g"
    and codec: "\<And>b. b \<in> activeBids enc g p \<Longrightarrow> dec (enc b) = Some b"
  shows "\<forall>v \<in> set (map snd (HGETALL R r (activeKey s p))). dec v \<noteq> None"
proof
  fix v assume "v \<in> set (map snd (HGETALL R r (activeKey s p)))"
  then obtain i where "regActive g (p, i) = Some v"
    unfolding stored_payloads [OF assms(1)] by blast
  then obtain b where "v = enc b" "b \<in> activeBids enc g p"
    using registryOK_D [OF assms(2)] by blast
  with codec show "dec v \<noteq> None" by simp
qed

lemma Fetch_reliable:
  assumes "holds R s g ps (server w)" and "registryOK enc g" and "network w = []"
    and codec: "\<And>b. b \<in> activeBids enc g p \<Longrightarrow> dec (enc b) = Some b"
  shows "\<exists>bids. RedisStore_Fetch R dec s p w = (Inr bids, w)"
proof -
  obtain ds where "decodeActive dec p (map snd (HGETALL R (server w) (activeKey s p))) [] = Some ds"
    using decodeActive_total [OF payloads_decode [OF assms(1,2) codec]] by blast
  with assms(3) show ?thesis by (simp add: RedisStore_Fetch_def retryTopology_reliable)
qed

lemma reconcileAll_reliable:
  assumes "holds R s g qs (server w)" and "registryOK enc g" and "network w = []"
    and codec: "\<And>p b. b \<in> activeBids enc g p \<Longrightarrow> dec (enc b) = Some b"
  shows "\<exists>c'. reconcileAll (redisBidStore R enc dec s) clock ps (c, w) = (None, c', w)"
proof (induction ps arbitrary: c)
  case (Cons p ps)
  obtain bids where "RedisStore_Fetch R dec s p w = (Inr bids, w)"
    using Fetch_reliable [OF assms(1-3) codec [where p = p]] by blast
  with Cons.IH show ?case by (simp add: BidCache_refresh_def)
qed simp

lemma Reconcile_reliable:
  assumes "holds R s g ps (server w)" and "registryOK enc g" and "network w = []"
    and "\<And>p b. b \<in> activeBids enc g p \<Longrightarrow> dec (enc b) = Some b"
  shows "\<exists>c'. BidCache_Reconcile (redisBidStore R enc dec s) clock (c, w) = (None, c', w)"
  using reconcileAll_reliable [OF assms] assms(3)
  by (simp add: BidCache_Reconcile_def RedisStore_Placements_def retryTopology_reliable)

lemma Reconcile_snapshot:
  assumes "holds R s g ps (server w)" and "registryOK enc g"
    and codec: "\<forall>p. \<forall>b \<in> activeBids enc g p. dec (enc b) = Some b"
    and run: "BidCache_Reconcile (redisBidStore R enc dec s) clock (c, w) = (None, c', w')"
    and "p \<in> ps"
  shows "snapFound (snd (BidCache_Get c' now p)) \<and> set (fst (BidCache_Get c' now p)) = activeBids enc g p
    \<and> sortBids (fst (BidCache_Get c' now p)) = fst (BidCache_Get c' now p)"
proof -
  have "p \<in> redisKnown R s w" using assms(1,5) by (auto simp: holds_def)
  from redisCache.Reconcile_ok [OF run this] storedView_activeBids [OF assms(1,2)] codec
  obtain bids where "cacheEntries c' p = Some (Some \<lparr>listBids = bids, listRefreshedAtNS = time_UnixNano (clock p)\<rparr>)"
    and "set bids = activeBids enc g p" and "sorted (map rankKey bids)" by auto
  then show ?thesis
    by (simp add: BidCache_Get_def Let_def sortBids_eq_sort_key sort_key_id_if_sorted)
qed

section \<open>Examples\<close>

abbreviation exampleWorld :: "memory world" where
  "exampleWorld \<equiv> \<lparr>server = emptyMemory, network = []\<rparr>"

abbreviation writtenWorld :: "memory world" where
  "writtenWorld \<equiv> snd (RedisStore_Upsert memoryRedis exampleEnc exampleStore (storedBid 2) exampleWorld)"

abbreviation exampleRedisStore :: "memory world BidStore" where
  "exampleRedisStore \<equiv> redisBidStore memoryRedis exampleEnc exampleDec exampleStore"

abbreviation exampleInit :: "memory world cacheSystem" where
  "exampleInit \<equiv> initCacheSystem (DefaultCachePolicy second) exampleWorld"

lemma empty_fetch: "RedisStore_Fetch memoryRedis exampleDec exampleStore ''p'' exampleWorld = (Inr [], exampleWorld)"
  by (simp add: RedisStore_Fetch_def retryTopology_reliable memoryRedis_def emptyMemory_def sortBids_def)

section \<open>Properties\<close>

text \<open>
  C28: refreshes are single-flight. In every reachable interleaving of auctions, invalidations,
  mutations, reconciliations and refresh goroutines, each placement has exactly one goroutine,
  started or running, when it is in the in-flight set, and none when it is not.
\<close>

theorem cache_single_flight:
  assumes "cache_reachable S mut policy s0 y"
  shows "count_list (cacheStarted (sysCache y)) p + (if sysRunning y p = None then 0 else 1)
    = (if p \<in> cacheInflight (sysCache y) then 1 else 0)"
proof -
  note single = singleFlight_reachable [OF assms, unfolded singleFlight_def]
  have "count_list (cacheStarted (sysCache y)) p = (if p \<in> set (cacheStarted (sysCache y)) then 1 else 0)"
    using single by (simp add: distinct_count_list)
  with single show ?thesis by (auto simp: domIff)
qed

theorem cache_single_flight_witness:
  "count_list (cacheStarted (BidCache_RefreshAsync ''p'' (BidCache_RefreshAsync ''p''
     (NewBidCacheWithPolicy (DefaultCachePolicy second))))) ''p'' = 1"
proof -
  let ?y = "exampleInit\<lparr>sysCache := BidCache_RefreshAsync ''p'' (sysCache exampleInit)\<rparr>"
  let ?z = "?y\<lparr>sysCache := BidCache_RefreshAsync ''p'' (sysCache ?y)\<rparr>"
  have "cache_reachable exampleRedisStore (redisMutation memoryRedis exampleEnc exampleStore)
      (DefaultCachePolicy second) exampleWorld ?z"
    by (rule reach_step [OF reach_step [OF reach_init step_auction] step_auction])
  from cache_single_flight [OF this, of "''p''"] show ?thesis
    by (simp add: initCacheSystem_def NewBidCacheWithPolicy_def BidCache_RefreshAsync_def)
qed

text \<open>
  C9: whatever the interleaving, an auction only ever sees valid bids of the placement it asks for,
  in rank order.
\<close>

theorem cache_serves_valid_ranked_bids:
  assumes "cache_reachable (redisBidStore R enc dec s) mut policy w0 y"
    and "BidCache_Get (sysCache y) now p = (bids, state)"
  shows "(\<forall>b \<in> set bids. Bid_Validate b = None \<and> bidPlacementID b = p) \<and> sortBids bids = bids"
  using redisCache.goodSystem_reachable [OF assms(1)] assms(2)
  by (fastforce simp: goodSystem_def goodBids_def BidCache_Get_def Let_def sortBids_eq_sort_key
      sort_key_id_if_sorted split: option.splits)

theorem cache_serves_valid_ranked_bids_witness:
  "Bid_Validate (storedBid 2) = None \<and> bidPlacementID (storedBid 2) = ''p''
    \<and> sortBids [storedBid 2] = [storedBid 2]"
proof -
  let ?init = "initCacheSystem (DefaultCachePolicy second) writtenWorld"
  let ?y = "?init\<lparr>sysCache := BidCache_RefreshAsync ''p'' (sysCache ?init)\<rparr>"
  let ?z = "?y\<lparr>sysStore := writtenWorld,
      sysCache := (countRefresh (sysCache ?y))\<lparr>cacheStarted := [] @ []\<rparr>,
      sysRunning := (sysRunning ?y)(''p'' \<mapsto> Fetched [storedBid 2])\<rparr>"
  let ?v = "?z\<lparr>sysCache := installSnapshot ''p'' [storedBid 2] 0 (sysCache ?z),
      sysRunning := (sysRunning ?z)(''p'' \<mapsto> Finishing)\<rparr>"
  note state = initCacheSystem_def NewBidCacheWithPolicy_def BidCache_RefreshAsync_def
  have y: "cache_step exampleRedisStore (redisMutation memoryRedis exampleEnc exampleStore) ?init ?y"
    by (rule step_auction)
  have z: "cache_step exampleRedisStore (redisMutation memoryRedis exampleEnc exampleStore) ?y ?z"
    by (rule step_fetch) (simp_all add: state example_fetch)
  have v: "cache_step exampleRedisStore (redisMutation memoryRedis exampleEnc exampleStore) ?z ?v"
    by (rule step_install) simp
  have get: "BidCache_Get (sysCache ?v) 0 ''p'' = ([storedBid 2], snd (BidCache_Get (sysCache ?v) 0 ''p''))"
    by (simp add: BidCache_Get_def installSnapshot_def Let_def sortBids_def storedBid_valid)
  show ?thesis
    using cache_serves_valid_ranked_bids [OF reach_step [OF reach_step [OF reach_step [OF reach_init y] z] v] get] by simp
qed

abbreviation exampleRegistry :: registry where
  "exampleRegistry \<equiv> snd (mutate (''p'', ''a'') 2 (Some (exampleEnc (storedBid 2))) emptyRegistry)"

lemma example_registry:
  "holds memoryRedis exampleStore exampleRegistry {''p''} (server writtenWorld)"
  "registryOK exampleEnc exampleRegistry"
  "\<forall>p. \<forall>b \<in> activeBids exampleEnc exampleRegistry p. exampleDec (exampleEnc b) = Some b"
proof -
  have start: "holds memoryRedis exampleStore emptyRegistry {} (server exampleWorld)"
    by (simp add: emptyMemory_holds)
  show "holds memoryRedis exampleStore exampleRegistry {''p''} (server writtenWorld)"
    using RedisStore_Upsert_success(3) [OF start example_upsert(1)] by (simp add: storedBid_valid)
  show "registryOK exampleEnc exampleRegistry"
    using registryOK_mutate_upsert [OF emptyRegistry_OK, of "storedBid 2" exampleEnc]
    by (simp add: storedBid_valid)
  show "\<forall>p. \<forall>b \<in> activeBids exampleEnc exampleRegistry p. exampleDec (exampleEnc b) = Some b"
    by (auto simp: activeBids_def mutate_def acceptMutation_def exampleEnc_def exampleDec_def
        split: if_splits)
qed

text \<open>
  Over a working connection, with payloads that decode, a reconciliation reports success.
\<close>

theorem reconcile_succeeds:
  assumes "holds R s g ps (server w)" and "registryOK enc g" and "network w = []"
    and codec: "\<forall>p. \<forall>b \<in> activeBids enc g p. dec (enc b) = Some b"
  shows "fst (BidCache_Reconcile (redisBidStore R enc dec s) clock (c, w)) = None"
proof -
  have "\<exists>c'. BidCache_Reconcile (redisBidStore R enc dec s) clock (c, w) = (None, c', w)"
    using codec by (intro Reconcile_reliable [OF assms(1-3)]) blast
  then show ?thesis by auto
qed

theorem reconcile_succeeds_witness:
  "fst (BidCache_Reconcile exampleRedisStore (\<lambda>_. 0) (NewBidCache second, writtenWorld)) = None"
  using reconcile_succeeds [OF example_registry(1,2) example_upsert(2) example_registry(3)] .

text \<open>
  C37: staleness is decided by the snapshot's age. After a refresh at \<open>t0\<close>, a read at \<open>t\<close> finds the
  snapshot, reports the age \<open>t - t0\<close>, calls it stale exactly when the age exceeds the policy's limit,
  and asks for rejection exactly when it is stale and the policy says so.
\<close>

theorem snapshot_staleness:
  assumes "BidCache_refresh S p t0 (c, s) = (None, c', s')"
    and "nanoRange t0" and "nanoRange (t - t0)"
  shows "snd (BidCache_Get c' t p) =
    \<lparr>snapFound = True, snapStale = (sint (cpMaxSnapshotAge (cachePolicy c)) < t - t0),
     snapRejectStale = (sint (cpMaxSnapshotAge (cachePolicy c)) < t - t0
       \<and> cpStaleAction (cachePolicy c) = NoBidOnStale),
     snapAge = word_of_int (t - t0)\<rparr>"
proof -
  from assms(1) obtain bids where "c' = installSnapshot p bids t0 (countRefresh c)"
    by (auto simp: BidCache_refresh_def Let_def split: prod.splits sum.splits)
  then show ?thesis using Get_installSnapshot [OF assms(2,3), of p bids "countRefresh c"] by simp
qed

theorem snapshot_staleness_witness:
  "snapStale (snd (BidCache_Get (fst (snd (BidCache_refresh exampleRedisStore ''p'' 7
     (NewBidCache second, writtenWorld)))) 2000000008 ''p''))"
proof -
  let ?run = "BidCache_refresh exampleRedisStore ''p'' 7 (NewBidCache second, writtenWorld)"
  have "?run = (None, fst (snd ?run), snd (snd ?run))"
    by (simp add: BidCache_refresh_def example_fetch Let_def)
  from snapshot_staleness [OF this, of 2000000008] show ?thesis
    by (simp add: nanoRange_def NewBidCache_def NewBidCacheWithPolicy_def DefaultCachePolicy_def
        CachePolicy_Validate_def i64_simps second_def)
qed

text \<open>
  An invalidation that arrives while a refresh of its placement is in flight is dropped, even when
  that refresh has already read the store. There is a reachable state in which the bid was stored and
  its invalidation delivered, the cache did not react to it, and the only refresh left will install
  the empty list it fetched before; the next reconciliation repairs this.
\<close>

theorem invalidation_during_refresh_is_dropped:
  "\<exists>y z. cache_reachable exampleRedisStore (redisMutation memoryRedis exampleEnc exampleStore)
      (DefaultCachePolicy second) exampleWorld y
    \<and> sysEvents y = [''p''] \<and> fst (RedisStore_Fetch memoryRedis exampleDec exampleStore ''p'' (sysStore y))
      = Inr [storedBid 2]
    \<and> z = y\<lparr>sysEvents := [], sysCache := BidCache_RefreshAsync ''p'' (sysCache y)\<rparr>
    \<and> sysCache z = sysCache y \<and> cacheStarted (sysCache z) = [] \<and> sysReconcile z = None
    \<and> sysRunning z = [''p'' \<mapsto> Fetched []]"
proof -
  let ?step = "cache_step exampleRedisStore (redisMutation memoryRedis exampleEnc exampleStore)"
  let ?x = "exampleInit\<lparr>sysCache := BidCache_RefreshAsync ''p'' (sysCache exampleInit)\<rparr>"
  let ?f = "?x\<lparr>sysStore := exampleWorld,
      sysCache := (countRefresh (sysCache ?x))\<lparr>cacheStarted := [] @ []\<rparr>,
      sysRunning := (sysRunning ?x)(''p'' \<mapsto> Fetched [])\<rparr>"
  let ?y = "?f\<lparr>sysStore := writtenWorld, sysEvents := sysEvents ?f @ [''p'']\<rparr>"
  let ?z = "?y\<lparr>sysEvents := [], sysCache := BidCache_RefreshAsync ''p'' (sysCache ?y)\<rparr>"
  note state = initCacheSystem_def NewBidCacheWithPolicy_def BidCache_RefreshAsync_def
  have x: "?step exampleInit ?x" by (rule step_auction)
  have f: "?step ?x ?f" by (rule step_fetch) (simp_all add: state empty_fetch)
  have "redisMutation memoryRedis exampleEnc exampleStore exampleWorld writtenWorld ''p''"
    unfolding redisMutation_def by (intro disjI1 exI [of _ "storedBid 2"]) simp
  then have y: "?step ?f ?y" by (intro step_mutate) simp
  have "cache_reachable exampleRedisStore (redisMutation memoryRedis exampleEnc exampleStore)
      (DefaultCachePolicy second) exampleWorld ?y"
    using reach_step [OF reach_step [OF reach_step [OF reach_init x] f] y] .
  moreover have "sysEvents ?y = [''p'']"
    "fst (RedisStore_Fetch memoryRedis exampleDec exampleStore ''p'' (sysStore ?y)) = Inr [storedBid 2]"
    by (simp_all add: state example_fetch)
  moreover have "sysCache ?z = sysCache ?y" "cacheStarted (sysCache ?z) = []" "sysReconcile ?z = None"
    "sysRunning ?z = [''p'' \<mapsto> Fetched []]"
    by (simp_all add: state)
  ultimately show ?thesis by blast
qed

end
