(* ===== verification/Startup.thy ===== *)
theory Startup
  imports Server HTTP_Bidder Redis_Client Redis_Cache
begin

text \<open>
  \<open>main\<close> of \<open>cmd/adserver/main.go\<close> up to the point where the listeners start: configuration, store,
  cache, server and DSP engine. The result is the exit code or the assembled server. What follows is in
  \<open>Shutdown\<close>, the listeners and their routes in \<open>Routing\<close>.
\<close>

section \<open>Definitions\<close>

datatype 's startup = Exit nat | Serving "'s Server"

definition redisOptionsOf :: "Config \<Rightarrow> RedisStoreOptions" where
  "redisOptionsOf config =
    (let redisAddrs = (if length (cfgRedisAddrs config) = 0 then [cfgRedisAddr config] else cfgRedisAddrs config) in
     \<lparr>optAddrs = redisAddrs, optPassword = cfgRedisPassword config, optDB = cfgRedisDB config,
      optPrefix = cfgRedisPrefix config, optCluster = (cfgRedisMode config = ''cluster'')\<rparr>)"

definition redisStoreOf :: "Config \<Rightarrow> RedisStore" where
  "redisStoreOf config = snd (NewRedisStoreWithOptions (redisOptionsOf config))"

definition cachePolicyOf :: "Config \<Rightarrow> CachePolicy" where
  "cachePolicyOf config =
    \<lparr>cpRefreshEvery = cfgCacheRefresh config, cpMaxSnapshotAge = cfgMaxSnapshotAge config,
     cpStaleAction = cfgStaleSnapshotAction config\<rparr>"

fun bidderConfigsOf ::
    "(string \<Rightarrow> (string \<times> string) option) \<Rightarrow> Config \<Rightarrow> DSPBidderEndpoint list
       \<Rightarrow> http_bidder_error + BidderConfig list" where
  "bidderConfigsOf parseURI config [] = Inr []"
| "bidderConfigsOf parseURI config (endpoint # endpoints) =
    (case NewHTTPBidderAdapter parseURI (endpointID endpoint) (endpointURL endpoint) (cfgDSPAuthorization config) of
       Inl e \<Rightarrow> Inl e
     | Inr adapter \<Rightarrow>
         (case bidderConfigsOf parseURI config endpoints of
            Inl e \<Rightarrow> Inl e
          | Inr rest \<Rightarrow> Inr (\<lparr>bcAdapter = Some (HTTPBidderAdapter_ID adapter), bcTimeout = cfgDSPTimeout config,
              bcMaxConcurrent = cfgDSPMaxConcurrent config,
              bcFailureThreshold = cfgDSPFailureThreshold config,
              bcCircuitOpenFor = cfgDSPCircuitOpenFor config\<rparr> # rest)))"

definition main ::
    "'r redis \<Rightarrow> (Bid \<Rightarrow> string) \<Rightarrow> (string \<Rightarrow> Bid option) \<Rightarrow> (string \<Rightarrow> (string \<times> string) option)
       \<Rightarrow> (string \<Rightarrow> string) \<Rightarrow> (string \<Rightarrow> time) \<Rightarrow> 'r world \<Rightarrow> 'r world startup" where
  "main R enc dec parseURI env clock w =
    (let config = ConfigFromEnv env in
     if Config_Validate config \<noteq> None then Exit 2
     else
       let store = redisStoreOf config in
       case RedisStore_Ping w of
         (Some e, w1) \<Rightarrow> Exit 1
       | (None, w1) \<Rightarrow>
           (case BidCache_Warm (redisBidStore R enc dec store) clock
               (NewBidCacheWithPolicy (cachePolicyOf config), w1) of
              (Some e, c, w2) \<Rightarrow> Exit 1
            | (None, c, w2) \<Rightarrow>
                let srv = NewServer config w2 c in
                if cfgDSPBidderEndpoints config = [] then Serving srv
                else
                  case bidderConfigsOf parseURI config (cfgDSPBidderEndpoints config) of
                    Inl e \<Rightarrow> Exit 2
                  | Inr configs \<Rightarrow>
                      (case NewBidderEngine False (cfgBidderEngineConfig config) configs of
                         Inl e \<Rightarrow> Exit 2
                       | Inr engine \<Rightarrow> Serving (Server_SetBidderEngine engine srv))))"

section \<open>A validated configuration is used as it is\<close>

lemma Config_Validate_None:
  assumes "Config_Validate c = None"
  shows "AuctionPolicy_Validate (cfgAuctionPolicy c) = None"
    and "cfgStaleSnapshotAction c = ServeStale \<or> cfgStaleSnapshotAction c = NoBidOnStale"
    and "BidderEngineConfig_Validate (cfgBidderEngineConfig c) = None"
    and "0 < sint (cfgMaxSnapshotAge c)"
    and "0 < sint (cfgDSPTimeout c) \<and> sint (cfgDSPTimeout c) \<le> 10000000000"
    and "1 \<le> sint (cfgDSPMaxConcurrent c) \<and> sint (cfgDSPMaxConcurrent c) \<le> 1024"
    and "1 \<le> sint (cfgDSPFailureThreshold c) \<and> sint (cfgDSPFailureThreshold c) \<le> 100"
    and "0 < sint (cfgDSPCircuitOpenFor c) \<and> sint (cfgDSPCircuitOpenFor c) \<le> 3600000000000"
    and "\<forall>endpoint \<in> set (cfgDSPBidderEndpoints c). validBidderID (endpointID endpoint)"
  using assms
  by (auto simp: Config_Validate_def i64_simps list_ex_iff second_def split: option.splits if_splits)

text \<open>
  The client talks to the configured nodes with the configured database; a cluster client, which
  has no database, is never asked for another one than 0, and it never reads from replicas.
\<close>

lemma redis_client_of_config:
  assumes "Config_Validate c = None"
  defines "addrs \<equiv> if cfgRedisAddrs c = [] then [cfgRedisAddr c] else cfgRedisAddrs c"
  shows "case fst (NewRedisStoreWithOptions (redisOptionsOf c)) of
      ClusterClient options \<Rightarrow> cfgRedisMode c = ''cluster'' \<and> coAddrs options = addrs \<and> \<not> coReadOnly options
        \<and> cfgRedisDB c = 0
    | SingleClient options \<Rightarrow> cfgRedisMode c = ''single'' \<and> soAddr options = hd addrs \<and> soDB options = cfgRedisDB c"
  using assms(1)
  by (auto simp: addrs_def redisOptionsOf_def NewRedisStoreWithOptions_def Config_Validate_def hd_conv_nth Let_def
      split: if_splits option.splits)

lemma applyDefaults_valid:
  "BidderEngineConfig_Validate c = None \<Longrightarrow> applyDefaults c = c"
  by (simp add: BidderEngineConfig_Validate_iff applyDefaults_def i64_simps Let_def)

lemma bidderConfigsOf_ids:
  "bidderConfigsOf parseURI config endpoints = Inr configs \<Longrightarrow>
    map bcAdapter configs = map (Some \<circ> endpointID) endpoints
    \<and> (\<forall>b \<in> set configs. bcTimeout b = cfgDSPTimeout config \<and> bcMaxConcurrent b = cfgDSPMaxConcurrent config
        \<and> bcFailureThreshold b = cfgDSPFailureThreshold config \<and> bcCircuitOpenFor b = cfgDSPCircuitOpenFor config)"
  by (induction endpoints arbitrary: configs)
    (auto simp: HTTPBidderAdapter_ID_def NewHTTPBidderAdapter_def split: sum.splits option.splits if_splits)

lemma main_ServingE:
  assumes "main R enc dec parseURI env clock w = Serving srv"
  obtains c w1 w2 where "Config_Validate (ConfigFromEnv env) = None"
    and "RedisStore_Ping w = (None, w1)"
    and "BidCache_Warm (redisBidStore R enc dec (redisStoreOf (ConfigFromEnv env))) clock
        (NewBidCacheWithPolicy (cachePolicyOf (ConfigFromEnv env)), w1) = (None, c, w2)"
    and "srvConfig srv = ConfigFromEnv env" "srvCache srv = c" "srvStore srv = w2"
    and "srvPolicy srv = NewAuctioneerWithPolicy (cfgAuctionPolicy (ConfigFromEnv env))"
    and "srvDecisionLogger srv = NewDecisionLogger (cfgDecisionLogging (ConfigFromEnv env))
      (cfgDecisionLogBuffer (ConfigFromEnv env))"
    and "if cfgDSPBidderEndpoints (ConfigFromEnv env) = [] then srvBidderEngine srv = None
      else \<exists>configs engine.
        bidderConfigsOf parseURI (ConfigFromEnv env) (cfgDSPBidderEndpoints (ConfigFromEnv env)) = Inr configs
        \<and> NewBidderEngine False (cfgBidderEngineConfig (ConfigFromEnv env)) configs = Inr engine
        \<and> srvBidderEngine srv = Some (initEngineSystem engine)"
  using assms
  by (auto simp: main_def NewServer_def Server_SetBidderEngine_def Let_def
      split: if_splits prod.splits option.splits sum.splits)

lemma reconcileAll_policy:
  "reconcileAll S clock ps cs = (err, c', s') \<Longrightarrow> cachePolicy c' = cachePolicy (fst cs)"
proof (induction ps arbitrary: cs)
  case (Cons p ps)
  have "BidCache_refresh S p t (c, s) = (e, c1, s1) \<Longrightarrow> cachePolicy c1 = cachePolicy c" for t c s e c1 s1
    by (auto simp: BidCache_refresh_def Let_def split: prod.splits sum.splits)
  with Cons show ?case by (cases cs) (fastforce split: prod.splits option.splits)
qed simp

lemma Warm_policy:
  "BidCache_Warm S clock (c, s) = (err, c', s') \<Longrightarrow> cachePolicy c' = cachePolicy c"
  by (auto simp: BidCache_Warm_def BidCache_Reconcile_def Let_def dest!: reconcileAll_policy
      split: prod.splits sum.splits)

lemma cachePolicyOf_valid:
  assumes "Config_Validate (ConfigFromEnv env) = None"
  shows "CachePolicy_Validate (cachePolicyOf (ConfigFromEnv env))"
  using Config_Validate_None(2,4) [OF assms] ConfigFromEnv_positive [of env]
  by (simp add: CachePolicy_Validate_def cachePolicyOf_def positiveFields_def i64_simps)

text \<open>The bidders of an engine whose configurations need no defaults.\<close>

definition runtimeOf :: "BidderConfig \<Rightarrow> bidderRuntime" where
  "runtimeOf config =
    \<lparr>brID = the (bcAdapter config), brConfig = config, brSem = 0,
     brBreaker = newCircuitBreaker (bcFailureThreshold config) (bcCircuitOpenFor config)\<rparr>"

lemma addBidders_map:
  assumes "addBidders seen configs bidders = Inr bs" and "\<forall>c \<in> set configs. bidderDefaults c = c"
  shows "bs = bidders @ map runtimeOf configs"
  using assms
proof (induction configs arbitrary: seen bidders)
  case (Cons config configs)
  then obtain i where i: "bcAdapter config = Some i" "bidderDefaults config = config"
    and rest: "addBidders (i # seen) configs (bidders @ [runtimeOf config]) = Inr bs"
    by (auto simp: runtimeOf_def Let_def split: option.splits if_splits)
  from Cons.IH [OF rest] Cons.prems(2) show ?case by simp
qed simp

lemma engine_of_config:
  assumes valid: "Config_Validate config = None"
    and configs: "bidderConfigsOf parseURI config endpoints = Inr configs"
    and engine: "NewBidderEngine False (cfgBidderEngineConfig config) configs = Inr e"
  shows "beConfig e = cfgBidderEngineConfig config"
    and "dcMaxKeys (beCache e) = engMaxKeys (cfgBidderEngineConfig config)"
    and "beBidders e = map runtimeOf configs"
    and "map brID (beBidders e) = map endpointID endpoints"
    and "distinct (map endpointID endpoints)"
proof -
  note ids = bidderConfigsOf_ids [OF configs] and limits = Config_Validate_None [OF valid]
  have "\<forall>c \<in> set configs. bidderDefaults c = c"
    using ids limits(5,6) by (simp add: bidderDefaults_def i64_simps)
  then show bidders: "beBidders e = map runtimeOf configs"
    using engine addBidders_map by (fastforce elim: NewBidderEngineE)
  have "applyDefaults (cfgBidderEngineConfig config) = cfgBidderEngineConfig config"
    using limits(3) by (rule applyDefaults_valid)
  then show "beConfig e = cfgBidderEngineConfig config"
    "dcMaxKeys (beCache e) = engMaxKeys (cfgBidderEngineConfig config)"
    using engine limits(3)
    by (auto simp: NewDynamicBidCache_def BidderEngineConfig_Validate_iff i64_simps elim!: NewBidderEngineE)
  have "map (the \<circ> bcAdapter) configs = map endpointID endpoints"
    using arg_cong [OF conjunct1 [OF ids], of "map the"] by (simp add: comp_def)
  then show names: "map brID (beBidders e) = map endpointID endpoints"
    by (simp add: bidders runtimeOf_def comp_def)
  have "distinct (map brID (beBidders e))" using engine addBidders_Inr by (fastforce elim: NewBidderEngineE)
  then show "distinct (map endpointID endpoints)" by (simp only: names)
qed

lemma configured_bidders:
  assumes valid: "Config_Validate config = None"
    and configs: "bidderConfigsOf parseURI config endpoints = Inr configs"
    and engine: "NewBidderEngine False (cfgBidderEngineConfig config) configs = Inr e"
    and "b \<in> set (beBidders e)"
  shows "brSem b = 0" "bcTimeout (brConfig b) = cfgDSPTimeout config"
    "bcMaxConcurrent (brConfig b) = cfgDSPMaxConcurrent config"
    "cbThreshold (brBreaker b) = cfgDSPFailureThreshold config"
    "cbOpenFor (brBreaker b) = cfgDSPCircuitOpenFor config"
proof -
  obtain c where "c \<in> set configs" "b = runtimeOf c"
    using assms(4) unfolding engine_of_config(3) [OF assms(1-3)] by auto
  then show "brSem b = 0" "bcTimeout (brConfig b) = cfgDSPTimeout config"
    "bcMaxConcurrent (brConfig b) = cfgDSPMaxConcurrent config"
    "cbThreshold (brBreaker b) = cfgDSPFailureThreshold config"
    "cbOpenFor (brBreaker b) = cfgDSPCircuitOpenFor config"
    using bidderConfigsOf_ids [OF configs] Config_Validate_None(7,8) [OF valid]
    by (auto simp: runtimeOf_def newCircuitBreaker_def i64_simps)
qed

section \<open>Starting succeeds\<close>

text \<open>
  What \<open>Config.Validate\<close> leaves to the constructors: the DSP IDs differ and the endpoints are HTTP URLs.
\<close>

definition httpURL :: "(string \<Rightarrow> (string \<times> string) option) \<Rightarrow> string \<Rightarrow> bool" where
  "httpURL parseURI url \<longleftrightarrow>
    (case parseURI url of None \<Rightarrow> False | Some (scheme, host) \<Rightarrow> (scheme = ''http'' \<or> scheme = ''https'') \<and> host \<noteq> [])"

definition endpointsOK :: "(string \<Rightarrow> (string \<times> string) option) \<Rightarrow> DSPBidderEndpoint list \<Rightarrow> bool" where
  "endpointsOK parseURI endpoints \<longleftrightarrow>
    distinct (map endpointID endpoints) \<and> (\<forall>endpoint \<in> set endpoints. httpURL parseURI (endpointURL endpoint))"

text \<open>
  With a valid configuration, a working connection and payloads that decode, \<open>main\<close> reaches the
  listening state with the snapshots of the indexed placements when these two hold, and exits with
  code 2 otherwise.
\<close>

lemma addBidders_succeeds:
  assumes "distinct (map bcAdapter configs)" and "\<forall>b \<in> set configs. bcAdapter b \<notin> Some ` set seen"
    and "\<forall>b \<in> set configs. (\<exists>i. bcAdapter b = Some i \<and> validBidderID i)
      \<and> 0 < sint (bcTimeout b) \<and> sint (bcTimeout b) \<le> 10000000000
      \<and> 1 \<le> sint (bcMaxConcurrent b) \<and> sint (bcMaxConcurrent b) \<le> 1024
      \<and> sint (bcFailureThreshold b) \<le> 100 \<and> sint (bcCircuitOpenFor b) \<le> 3600000000000"
  shows "\<exists>bs. addBidders seen configs bidders = Inr bs"
  using assms
proof (induction configs arbitrary: seen bidders)
  case (Cons b configs)
  then obtain i where i: "bcAdapter b = Some i" "validBidderID i" by auto
  then have fresh: "i \<notin> set seen" using Cons.prems(2) by auto
  have "bidderDefaults b = b" using Cons.prems(3) by (simp add: bidderDefaults_def i64_simps)
  moreover have "sint (10 * second) = 10000000000" by (simp add: second_def)
  moreover have "\<exists>bs. addBidders (i # seen) configs bidders' = Inr bs" for bidders'
  proof (rule Cons.IH)
    show "\<forall>c \<in> set configs. bcAdapter c \<notin> Some ` set (i # seen)"
      using Cons.prems(1,2) i(1) by force
  qed (use Cons.prems in simp_all)
  ultimately show ?case using i fresh Cons.prems(3) by (simp add: i64_simps Let_def)
qed simp

lemma bidderConfigsOf_iff:
  "(\<exists>configs. bidderConfigsOf parseURI config endpoints = Inr configs) \<longleftrightarrow>
    (\<forall>endpoint \<in> set endpoints. httpURL parseURI (endpointURL endpoint))"
proof (induction endpoints)
  case (Cons endpoint endpoints)
  have "(\<exists>a. NewHTTPBidderAdapter parseURI (endpointID endpoint) (endpointURL endpoint) (cfgDSPAuthorization config)
      = Inr a) \<longleftrightarrow> httpURL parseURI (endpointURL endpoint)"
    by (auto simp: NewHTTPBidderAdapter_def httpURL_def split: option.split)
  with Cons show ?case by (auto split: sum.split)
qed simp

lemma NewBidderEngine_succeeds:
  assumes valid: "Config_Validate config = None" and "distinct (map endpointID (cfgDSPBidderEndpoints config))"
    and configs: "bidderConfigsOf parseURI config (cfgDSPBidderEndpoints config) = Inr configs"
  shows "\<exists>engine. NewBidderEngine False (cfgBidderEngineConfig config) configs = Inr engine"
proof -
  note ids = bidderConfigsOf_ids [OF configs]
  have "distinct (map bcAdapter configs)"
    using ids assms(2) by (metis distinct_map inj_Some inj_on_subset list.map_comp subset_UNIV)
  moreover have "\<exists>i. bcAdapter b = Some i \<and> validBidderID i" if "b \<in> set configs" for b
  proof -
    have "bcAdapter b \<in> set (map (Some \<circ> endpointID) (cfgDSPBidderEndpoints config))"
      using that ids by (metis image_eqI list.set_map)
    then show ?thesis using Config_Validate_None(9) [OF valid] by auto
  qed
  ultimately have "\<exists>bs. addBidders [] configs [] = Inr bs"
    using ids Config_Validate_None(5-8) [OF valid] by (intro addBidders_succeeds) auto
  then show ?thesis
    using Config_Validate_None(3) [OF valid]
    by (auto simp: NewBidderEngine_def applyDefaults_valid Let_def)
qed

lemma Ping_reliable: "network w = [] \<Longrightarrow> RedisStore_Ping w = (None, w)"
  by (simp add: RedisStore_Ping_def command_def)

lemma main_after_warm:
  assumes "Config_Validate (ConfigFromEnv env) = None" and "network w = []"
    and "BidCache_Warm (redisBidStore R enc dec (redisStoreOf (ConfigFromEnv env))) clock
      (NewBidCacheWithPolicy (cachePolicyOf (ConfigFromEnv env)), w) = (None, c, w)"
  shows "if endpointsOK parseURI (cfgDSPBidderEndpoints (ConfigFromEnv env))
    then \<exists>srv. main R enc dec parseURI env clock w = Serving srv \<and> srvStore srv = w \<and> srvCache srv = c
    else main R enc dec parseURI env clock w = Exit 2"
proof -
  let ?c = "ConfigFromEnv env"
  let ?configs = "bidderConfigsOf parseURI ?c (cfgDSPBidderEndpoints ?c)"
  note main = main_def Let_def Ping_reliable [OF assms(2)] assms(1,3) NewServer_def Server_SetBidderEngine_def
  show ?thesis
  proof (cases ?configs)
    case (Inl e)
    then have "cfgDSPBidderEndpoints ?c \<noteq> []" by auto
    moreover have "\<not> endpointsOK parseURI (cfgDSPBidderEndpoints ?c)"
      using Inl bidderConfigsOf_iff [of parseURI ?c "cfgDSPBidderEndpoints ?c"] by (auto simp: endpointsOK_def)
    ultimately show ?thesis using Inl by (simp add: main)
  next
    case (Inr configs)
    then have urls: "endpointsOK parseURI (cfgDSPBidderEndpoints ?c) \<longleftrightarrow> distinct (map endpointID (cfgDSPBidderEndpoints ?c))"
      using bidderConfigsOf_iff [of parseURI ?c "cfgDSPBidderEndpoints ?c"] by (auto simp: endpointsOK_def)
    show ?thesis
    proof (cases "NewBidderEngine False (cfgBidderEngineConfig ?c) configs")
      case (Inl e)
      then have "\<not> distinct (map endpointID (cfgDSPBidderEndpoints ?c))"
        using NewBidderEngine_succeeds [OF assms(1) _ Inr] by auto
      then show ?thesis using Inl Inr urls by (auto simp: main)
    next
      case engine: (Inr e)
      then show ?thesis using Inr urls engine_of_config(5) [OF assms(1) Inr engine] by (simp add: main)
    qed
  qed
qed

lemma main_serves:
  assumes valid: "Config_Validate (ConfigFromEnv env) = None" and "network w = []"
    and "holds R (redisStoreOf (ConfigFromEnv env)) g ps (server w)" and "registryOK enc g"
    and codec: "\<forall>p. \<forall>b \<in> activeBids enc g p. dec (enc b) = Some b"
  shows "if endpointsOK parseURI (cfgDSPBidderEndpoints (ConfigFromEnv env))
    then \<exists>srv. main R enc dec parseURI env clock w = Serving srv \<and> srvStore srv = w
      \<and> (\<forall>p \<in> ps. \<forall>now. set (fst (BidCache_Get (srvCache srv) now p)) = activeBids enc g p)
    else main R enc dec parseURI env clock w = Exit 2"
proof -
  let ?c = "ConfigFromEnv env"
  let ?S = "redisBidStore R enc dec (redisStoreOf ?c)"
  let ?new = "NewBidCacheWithPolicy (cachePolicyOf ?c)"
  from codec have codec': "\<And>p b. b \<in> activeBids enc g p \<Longrightarrow> dec (enc b) = Some b" by blast
  obtain c where warm: "BidCache_Reconcile ?S clock (?new, w) = (None, c, w)"
    using Reconcile_reliable [OF assms(3,4,2), of dec clock ?new] codec' by blast
  have "set (fst (BidCache_Get c now p)) = activeBids enc g p" if "p \<in> ps" for p now
  proof -
    have "p \<in> redisKnown R (redisStoreOf ?c) w" using assms(3) that by (auto simp: holds_def)
    from redisCache.Reconcile_ok [OF warm this] storedView_activeBids [OF assms(3,4) codec']
    show ?thesis by (auto simp: BidCache_Get_def Let_def)
  qed
  with main_after_warm [OF assms(1,2) warm [folded BidCache_Warm_def], of parseURI] show ?thesis
    by (auto split: if_splits)
qed

section \<open>An example\<close>

lemma TrimSpace_Nil [simp]: "TrimSpace [] = []"
  by (simp add: TrimSpace_def trimWords.simps utf8Spaces_def)

text \<open>A cluster with a prefix of its own, the decision log, and one DSP with an HTTP endpoint.\<close>

definition exampleEnv :: "string \<Rightarrow> string" where
  "exampleEnv name =
    (if name = ''REDIS_MODE'' then ''cluster'' else if name = ''REDIS_PREFIX'' then ''ads''
     else if name = ''DECISION_LOGGING'' then ''true'' else if name = ''DSP_ENDPOINTS'' then ''dsp=http://dsp.example/bid''
     else [])"

definition exampleParseURI :: "string \<Rightarrow> (string \<times> string) option" where
  "exampleParseURI url = (if url = ''http://dsp.example/bid'' then Some (''http'', ''dsp.example'') else None)"

lemma exampleEnv_config:
  "ConfigFromEnv exampleEnv = defaultConfig\<lparr>cfgRedisMode := ''cluster'', cfgRedisPrefix := ''ads'',
     cfgDecisionLogging := True,
     cfgDSPBidderEndpoints := [\<lparr>endpointID = ''dsp'', endpointURL = ''http://dsp.example/bid''\<rparr>]\<rparr>"
proof -
  have "TrimSpace ''cluster'' = ''cluster''" "TrimSpace ''ads'' = ''ads''" "TrimSpace ''true'' = ''true''"
    "TrimSpace ''dsp=http://dsp.example/bid'' = ''dsp=http://dsp.example/bid''"
    "map parseEndpoint (Split (CHR '','') ''dsp=http://dsp.example/bid'') =
      [\<lparr>endpointID = ''dsp'', endpointURL = ''http://dsp.example/bid''\<rparr>]"
    by code_simp+
  then show ?thesis
    by (simp add: ConfigFromEnv_def envSteps_def withEnv_def getenv_def exampleEnv_def del: Split.simps)
      (simp add: defaultConfig_def)
qed

lemma defaultConfig_valid: "Config_Validate defaultConfig = None"
proof -
  have "BidderEngineConfig_Validate DefaultBidderEngineConfig = None"
    by (simp add: BidderEngineConfig_Validate_iff DefaultBidderEngineConfig_def second_def millisecond_def)
  then show ?thesis
    by (simp add: Config_Validate_def defaultConfig_def i64_simps second_def minute_def millisecond_def hour_def)
qed

lemma exampleEnv_valid: "Config_Validate (ConfigFromEnv exampleEnv) = None"
proof -
  have "validBidderID ''dsp''" by (simp add: validBidderID_def bidderIDChar_def)
  with defaultConfig_valid show ?thesis
    unfolding exampleEnv_config by (simp add: Config_Validate_def defaultConfig_def split: option.splits if_splits)
qed

lemma exampleEnv_store: "redisStoreOf (ConfigFromEnv exampleEnv) = exampleStore"
  by (simp add: exampleEnv_config redisStoreOf_def redisOptionsOf_def NewRedisStoreWithOptions_def exampleStore_def
      defaultConfig_def Let_def)

lemma exampleEnv_endpoints: "endpointsOK exampleParseURI (cfgDSPBidderEndpoints (ConfigFromEnv exampleEnv))"
  by (simp add: exampleEnv_config endpointsOK_def httpURL_def exampleParseURI_def)

lemma example_main:
  "\<exists>srv. main memoryRedis exampleEnc exampleDec exampleParseURI exampleEnv (\<lambda>_. 0) exampleWorld = Serving srv"
proof -
  have world: "network exampleWorld = []"
    "holds memoryRedis (redisStoreOf (ConfigFromEnv exampleEnv)) emptyRegistry {} (server exampleWorld)"
    by (simp_all add: emptyMemory_holds)
  have "\<forall>p. \<forall>b \<in> activeBids exampleEnc emptyRegistry p. exampleDec (exampleEnc b) = Some b"
    by (simp add: activeBids_def)
  from main_serves [OF exampleEnv_valid world emptyRegistry_OK this, of exampleParseURI] exampleEnv_endpoints
  show ?thesis by auto
qed

section \<open>Properties\<close>

text \<open>
  C33: what was validated is what runs. A server that starts has a valid configuration, and its auction
  policy, cache policy, decision log and DSP engine are those of the environment's configuration: the
  log exists exactly when it is enabled and has the configured buffer; the engine exists exactly when
  endpoints are configured, has the configured limits, and one idle bidder per endpoint, with the
  configured timeout, concurrency and breaker. No fall-back of a constructor replaces any of these.
\<close>

theorem startup_uses_validated_config:
  assumes "main R enc dec parseURI env clock w = Serving srv"
  shows "Config_Validate (ConfigFromEnv env) = None \<and> srvConfig srv = ConfigFromEnv env
    \<and> srvPolicy srv = cfgAuctionPolicy (ConfigFromEnv env)
    \<and> cachePolicy (srvCache srv) = cachePolicyOf (ConfigFromEnv env)
    \<and> srvDecisionLogger srv =
        (if cfgDecisionLogging (ConfigFromEnv env)
         then Some \<lparr>dlEntries = [], dlBuffer = nat (sint (cfgDecisionLogBuffer (ConfigFromEnv env))),
           dlClosed = False, dlDropped = 0, dlWritten = []\<rparr>
         else None)
    \<and> (case srvBidderEngine srv of
         None \<Rightarrow> cfgDSPBidderEndpoints (ConfigFromEnv env) = []
       | Some y \<Rightarrow> cfgDSPBidderEndpoints (ConfigFromEnv env) \<noteq> [] \<and> y = initEngineSystem (esEngine y)
         \<and> beConfig (esEngine y) = cfgBidderEngineConfig (ConfigFromEnv env)
         \<and> dcMaxKeys (beCache (esEngine y)) = engMaxKeys (cfgBidderEngineConfig (ConfigFromEnv env))
         \<and> map brID (beBidders (esEngine y)) = map endpointID (cfgDSPBidderEndpoints (ConfigFromEnv env))
         \<and> (\<forall>b \<in> set (beBidders (esEngine y)). brSem b = 0
             \<and> bcTimeout (brConfig b) = cfgDSPTimeout (ConfigFromEnv env)
             \<and> bcMaxConcurrent (brConfig b) = cfgDSPMaxConcurrent (ConfigFromEnv env)
             \<and> cbThreshold (brBreaker b) = cfgDSPFailureThreshold (ConfigFromEnv env)
             \<and> cbOpenFor (brBreaker b) = cfgDSPCircuitOpenFor (ConfigFromEnv env)))"
proof -
  from assms obtain c w1 w2 where valid: "Config_Validate (ConfigFromEnv env) = None"
    and warm: "BidCache_Warm (redisBidStore R enc dec (redisStoreOf (ConfigFromEnv env))) clock
        (NewBidCacheWithPolicy (cachePolicyOf (ConfigFromEnv env)), w1) = (None, c, w2)"
    and sel: "srvConfig srv = ConfigFromEnv env" "srvCache srv = c"
      "srvPolicy srv = NewAuctioneerWithPolicy (cfgAuctionPolicy (ConfigFromEnv env))"
      "srvDecisionLogger srv = NewDecisionLogger (cfgDecisionLogging (ConfigFromEnv env))
        (cfgDecisionLogBuffer (ConfigFromEnv env))"
    and engine: "if cfgDSPBidderEndpoints (ConfigFromEnv env) = [] then srvBidderEngine srv = None
      else \<exists>configs engine.
        bidderConfigsOf parseURI (ConfigFromEnv env) (cfgDSPBidderEndpoints (ConfigFromEnv env)) = Inr configs
        \<and> NewBidderEngine False (cfgBidderEngineConfig (ConfigFromEnv env)) configs = Inr engine
        \<and> srvBidderEngine srv = Some (initEngineSystem engine)"
    by (rule main_ServingE) blast
  have "cachePolicy c = cachePolicyOf (ConfigFromEnv env)"
    using Warm_policy [OF warm] cachePolicyOf_valid [OF valid] by (simp add: NewBidCacheWithPolicy_def)
  moreover have "NewDecisionLogger enabled (cfgDecisionLogBuffer (ConfigFromEnv env)) =
      (if enabled then Some \<lparr>dlEntries = [], dlBuffer = nat (sint (cfgDecisionLogBuffer (ConfigFromEnv env))),
         dlClosed = False, dlDropped = 0, dlWritten = []\<rparr> else None)" for enabled
    using ConfigFromEnv_positive [of env] by (simp add: NewDecisionLogger_def positiveFields_def i64_simps)
  moreover note runtime = configured_bidders [OF valid]
  ultimately show ?thesis
    using valid sel engine Config_Validate_None(1) [OF valid] engine_of_config(1,2,4) [OF valid]
    by (fastforce simp: NewAuctioneerWithPolicy_def initEngineSystem_def split: if_splits)
qed

theorem startup_uses_validated_config_witness:
  "\<exists>srv y. main memoryRedis exampleEnc exampleDec exampleParseURI exampleEnv (\<lambda>_. 0) exampleWorld = Serving srv
    \<and> srvPolicy srv = DefaultAuctionPolicy \<and> srvBidderEngine srv = Some y
    \<and> map brID (beBidders (esEngine y)) = [''dsp'']"
proof -
  obtain srv where srv: "main memoryRedis exampleEnc exampleDec exampleParseURI exampleEnv (\<lambda>_. 0) exampleWorld = Serving srv"
    using example_main by blast
  have config: "cfgAuctionPolicy (ConfigFromEnv exampleEnv) = DefaultAuctionPolicy"
    "map endpointID (cfgDSPBidderEndpoints (ConfigFromEnv exampleEnv)) = [''dsp'']"
    "cfgDSPBidderEndpoints (ConfigFromEnv exampleEnv) \<noteq> []"
    by (simp_all add: exampleEnv_config defaultConfig_def)
  from startup_uses_validated_config [OF srv] srv show ?thesis
    unfolding config(1,2) using config(3) by (cases "srvBidderEngine srv") simp_all
qed

end
