(* ===== verification/Deployment.thy ===== *)
theory Deployment
  imports Startup Wire_Format
begin

text \<open>
  Several instances of the server over one Redis, with the JSON of the wire format: the requests
  they receive, in any order, and everything else they do, which only reads the registry. Every
  reachable registry holds, under every placement and ID, the payload of a valid bid that decodes to
  that bid, and every placement with an active bid is indexed.
\<close>

section \<open>Definitions\<close>

definition jsonStore :: "'r redis \<Rightarrow> RedisStore \<Rightarrow> 'r world BidStore" where
  "jsonStore R st = redisBidStore R marshalBid (unmarshalBid False) st"

definition serveHTTP ::
    "'r redis \<Rightarrow> RedisStore \<Rightarrow> auctionClock \<Rightarrow> route \<Rightarrow> Request \<Rightarrow> 'r world Server
       \<Rightarrow> Response panicking \<times> 'r world Server" where
  "serveHTTP R st ck rt r s = Server_Handler (jsonStore R st) unmarshalRequest (unmarshalBid True) ck rt r s"

text \<open>
  The instances by number. Each is called with the content of the shared Redis. A request is one step:
  the Redis commands of two requests do not interleave.
\<close>

record 'r deployment =
  depWorld :: "'r world"
  depServers :: "nat \<Rightarrow> 'r world Server"

text \<open>
  \<open>deploy_other\<close> covers what is not a request: refreshes, reconciliations, DSP traffic, a restart of an
  instance, a change of the network. It may change the instances and the network in any way and
  leaves the data in Redis alone.
\<close>

inductive deploy_step :: "'r redis \<Rightarrow> RedisStore \<Rightarrow> 'r deployment \<Rightarrow> 'r deployment \<Rightarrow> bool"
  for R :: "'r redis" and st :: RedisStore where
  deploy_request: "serveHTTP R st ck rt r ((depServers d i)\<lparr>srvStore := depWorld d\<rparr>) = (response, s) \<Longrightarrow>
    deploy_step R st d \<lparr>depWorld = srvStore s, depServers = (depServers d)(i := s)\<rparr>"
| deploy_other: "server (depWorld d') = server (depWorld d) \<Longrightarrow> deploy_step R st d d'"

inductive deploy_reachable :: "'r redis \<Rightarrow> RedisStore \<Rightarrow> 'r deployment \<Rightarrow> bool"
  for R :: "'r redis" and st :: RedisStore where
  deploy_init: "holds R st emptyRegistry {} (server (depWorld d)) \<Longrightarrow> deploy_reachable R st d"
| deploy_next: "deploy_reachable R st d \<Longrightarrow> deploy_step R st d e \<Longrightarrow> deploy_reachable R st e"

text \<open>The active bids of a placement, as they lie in Redis.\<close>

definition activeIn :: "'r redis \<Rightarrow> RedisStore \<Rightarrow> 'r world \<Rightarrow> string \<Rightarrow> Bid set" where
  "activeIn R st w p =
    {b. Bid_Validate b = None \<and> bidPlacementID b = p
      \<and> HGET R (server w) (activeKey st p) (bidID b) = Some (marshalBid b)}"

section \<open>The registry under JSON\<close>

definition jsonRegistry :: "registry \<Rightarrow> string set \<Rightarrow> bool" where
  "jsonRegistry g ps \<longleftrightarrow> registryOK marshalBid g
    \<and> (\<forall>p i payload. regActive g (p, i) = Some payload \<longrightarrow>
        p \<in> ps \<and> (\<exists>b. utf8Bid b \<and> payload = marshalBid b))"

lemma jsonRegistry_codec:
  assumes "jsonRegistry g ps"
  shows "\<forall>p. \<forall>b \<in> activeBids marshalBid g p. unmarshalBid strict (marshalBid b) = Some b"
proof (intro allI ballI)
  fix p b assume "b \<in> activeBids marshalBid g p"
  then have "regActive g (p, bidID b) = Some (marshalBid b)" by (simp add: activeBids_def)
  then obtain b0 where "utf8Bid b0" "marshalBid b = marshalBid b0"
    using assms unfolding jsonRegistry_def by metis
  then have "utf8Bid b" using marshalBid_inj by metis
  then show "unmarshalBid strict (marshalBid b) = Some b" by (rule bid_json_roundtrip)
qed

lemma jsonRegistry_upsert:
  assumes "jsonRegistry g ps" and "Bid_Validate b = None" and "utf8Bid b"
  shows "jsonRegistry (snd (mutate (bidPlacementID b, bidID b) (bidRevision b) (Some (marshalBid b)) g))
    (insert (bidPlacementID b) ps)"
  using assms registryOK_mutate_upsert [of marshalBid g b]
  by (auto simp: jsonRegistry_def mutate_def acceptMutation_def split: option.splits if_splits)

lemma jsonRegistry_delete:
  assumes "jsonRegistry g ps"
  shows "jsonRegistry (snd (mutate (p, i) rv None g)) (insert p ps)"
  using assms registryOK_mutate_delete [of marshalBid g "(p, i)" rv]
  by (auto simp: jsonRegistry_def mutate_def acceptMutation_def split: option.splits if_splits)

lemma jsonRegistry_empty: "jsonRegistry emptyRegistry {}"
  by (simp add: jsonRegistry_def emptyRegistry_OK)

definition jsonHeld :: "'r redis \<Rightarrow> RedisStore \<Rightarrow> 'r \<Rightarrow> bool" where
  "jsonHeld R st r \<longleftrightarrow> (\<exists>g ps. holds R st g ps r \<and> jsonRegistry g ps)"

lemma jsonHeld_upsert:
  assumes "jsonHeld R st (server w)" and "utf8Bid b"
  shows "jsonHeld R st (server (snd (RedisStore_Upsert R marshalBid st b w)))"
proof (cases "Bid_Validate (Bid_Normalize b)")
  case None
  obtain g ps where g: "holds R st g ps (server w)" "jsonRegistry g ps" using assms(1) by (auto simp: jsonHeld_def)
  have "utf8Bid (Bid_Normalize b)" using assms(2) by (simp add: utf8Bid_def Bid_Normalize_def)
  from jsonRegistry_upsert [OF g(2) None this]
    RedisStore_Upsert_outcome [OF g(1) surjective_pairing None, where enc = marshalBid,
      THEN mutationOutcome_state] g(2)
  show ?thesis by (auto simp: jsonHeld_def)
qed (use assms in \<open>simp add: RedisStore_Upsert_def Let_def\<close>)

lemma jsonHeld_delete:
  assumes "jsonHeld R st (server w)"
  shows "jsonHeld R st (server (snd (RedisStore_Delete R st p i rv w)))"
proof (cases "p = [] \<or> i = [] \<or> rv = 0 \<or> word_of_int maxInt64 < rv")
  case False
  obtain g ps where g: "holds R st g ps (server w)" "jsonRegistry g ps" using assms(1) by (auto simp: jsonHeld_def)
  from jsonRegistry_delete [OF g(2), of p i rv]
    RedisStore_Delete_outcome [OF g(1) surjective_pairing False, THEN mutationOutcome_state] g(2)
  show ?thesis by (auto simp: jsonHeld_def)
qed (use assms in \<open>simp add: RedisStore_Delete_def\<close>)

section \<open>Requests\<close>

lemma Ping_server: "server (snd (RedisStore_Ping w)) = server w"
proof -
  have "execTimes n (\<lambda>r. (Some (), r)) r = r" for n r by (induction n) simp_all
  then show ?thesis
    by (auto simp: RedisStore_Ping_def command_def split: list.splits delivery.splits option.splits)
qed

lemma auction_store: "srvStore (snd (Server_auction decodeRequest ck r s)) = srvStore s"
proof -
  have log: "srvStore s' = srvStore s" if "Server_recordDecision i p d s = Returns s'" for i p d s s'
    using that by (auto simp: Server_recordDecision_def Let_def split: if_splits panicking.splits)
  show ?thesis
    by (auto simp: Server_auction_def Let_def split_beta dest!: log split: option.split panicking.split)
qed

lemma upsert_store:
  "srvStore (snd (Server_upsertBid S decodeBid r s)) = srvStore s
    \<or> (\<exists>bid. decodeBid (rqBody r) = Some bid
        \<and> srvStore (snd (Server_upsertBid S decodeBid r s)) = snd (storeUpsert S (Bid_Normalize bid) (srvStore s)))"
  by (auto simp: Server_upsertBid_def decodeJSON_def Let_def split: option.splits prod.splits if_splits)

lemma delete_store:
  "srvStore (snd (Server_deleteBid S r s)) = srvStore s
    \<or> (\<exists>rv. srvStore (snd (Server_deleteBid S r s)) = snd (storeDelete S (rqPlacement r) (rqPathID r) rv (srvStore s)))"
  by (cases "ParseUint (rqRevision r)")
    (auto simp: Server_deleteBid_def Let_def split_beta split: option.splits)

lemma ready_store: "srvStore (snd (Server_ready S s)) = snd (storePing S (srvStore s))"
  by (simp add: Server_ready_def Let_def split: prod.split option.split)

lemma serve_store:
  assumes held: "jsonHeld R st (server (srvStore s))" and run: "serveHTTP R st ck rt r s = (response, s')"
  shows "jsonHeld R st (server (srvStore s'))"
proof -
  have s': "s' = snd (serveHTTP R st ck rt r s)" using run by simp
  have utf8: "utf8Bid (Bid_Normalize bid)" if "unmarshalBid True t = Some bid" for t bid
    using unmarshalBid_utf8 [OF that] by (simp add: utf8Bid_def Bid_Normalize_def)
  show ?thesis
  proof (cases rt)
    case PostAuction
    then show ?thesis
      using held auction_store [of unmarshalRequest ck r s]
      by (simp add: s' serveHTTP_def Server_Handler_def Let_def split_beta)
  next
    case PutBid
    then have "srvStore s' = srvStore (snd (Server_upsertBid (jsonStore R st) (unmarshalBid True) r s))"
      by (simp add: s' serveHTTP_def Server_Handler_def Let_def split_beta)
    with upsert_store [of "jsonStore R st" "unmarshalBid True" r s] held show ?thesis
      by (auto simp: jsonStore_def intro!: jsonHeld_upsert dest: utf8)
  next
    case DeleteBid
    then have "srvStore s' = srvStore (snd (Server_deleteBid (jsonStore R st) r s))"
      by (simp add: s' serveHTTP_def Server_Handler_def Let_def split_beta)
    with delete_store [of "jsonStore R st" r s] held show ?thesis
      by (auto simp: jsonStore_def intro!: jsonHeld_delete)
  next
    case GetReadyz
    then have "srvStore s' = snd (RedisStore_Ping (srvStore s))"
      using ready_store [of "jsonStore R st" s]
      by (simp add: s' serveHTTP_def Server_Handler_def Let_def split_beta jsonStore_def)
    with held show ?thesis by (simp add: Ping_server)
  qed (use held in \<open>simp_all add: s' serveHTTP_def Server_Handler_def Server_health_def
      Server_metricsEndpoint_def Let_def split_beta\<close>)
qed

lemma deploy_jsonHeld: "deploy_reachable R st d \<Longrightarrow> jsonHeld R st (server (depWorld d))"
proof (induction rule: deploy_reachable.induct)
  case (deploy_init d)
  then show ?case using jsonRegistry_empty by (auto simp: jsonHeld_def)
next
  case (deploy_next d e)
  from deploy_next(2) show ?case
  proof cases
    case (deploy_request ck rt r i response s)
    then show ?thesis using serve_store [OF _ deploy_request(2)] deploy_next.IH by simp
  next
    case deploy_other
    then show ?thesis using deploy_next.IH by simp
  qed
qed

section \<open>What every reachable deployment serves\<close>

lemma activeIn_activeBids: "holds R st g ps (server w) \<Longrightarrow> activeIn R st w p = activeBids marshalBid g p"
  by (auto simp: activeIn_def activeBids_def holds_def represents_def)

text \<open>
  C10: in every reachable deployment each payload under the active hash of a placement is the JSON of
  a valid bid of that placement with that ID, it decodes to this bid, the version hash holds the
  bid's revision, and the placement is in the index that reconciliations read.
\<close>

theorem deployment_registry_decodes:
  assumes "deploy_reachable R st d" and "HGET R (server (depWorld d)) (activeKey st p) i = Some payload"
  shows "\<exists>b. payload = marshalBid b \<and> unmarshalBid strict payload = Some b
    \<and> bidPlacementID b = p \<and> bidID b = i \<and> Bid_Validate b = None
    \<and> HGET R (server (depWorld d)) (versionKey st p) i = Some (FormatUint (bidRevision b) 10)
    \<and> p \<in> set (SMEMBERS R (server (depWorld d)) (placementsKey st))"
proof -
  obtain g ps where held: "holds R st g ps (server (depWorld d))" and g: "jsonRegistry g ps"
    using deploy_jsonHeld [OF assms(1)] by (auto simp: jsonHeld_def)
  then have active: "regActive g (p, i) = Some payload"
    using assms(2) by (simp add: holds_def represents_def)
  then obtain b where b: "payload = marshalBid b" "Bid_Validate b = None" "bidPlacementID b = p" "bidID b = i"
      "regRevision g (p, i) = Some (bidRevision b)"
    using g unfolding jsonRegistry_def registryOK_def by metis
  moreover have "unmarshalBid strict payload = Some b"
    using jsonRegistry_codec [OF g] active b by (auto simp: activeBids_def)
  moreover have "p \<in> set (SMEMBERS R (server (depWorld d)) (placementsKey st))"
    using held g active by (auto simp: jsonRegistry_def holds_def)
  ultimately show ?thesis using held by (auto simp: holds_def represents_def)
qed

text \<open>A first request: an upsert over an empty Redis, with the payload of a valid bid as its body.\<close>

definition putRequest :: Request where
  "putRequest = exampleHTTP\<lparr>rqBody := marshalBid (storedBid 2)\<rparr>"

definition emptyDeployment :: "memory deployment" where
  "emptyDeployment = \<lparr>depWorld = \<lparr>server = emptyMemory, network = []\<rparr>,
     depServers = (\<lambda>_. NewServer defaultConfig \<lparr>server = emptyMemory, network = []\<rparr> (NewBidCache second))\<rparr>"

abbreviation putResult :: "Response panicking \<times> memory world Server" where
  "putResult \<equiv> serveHTTP memoryRedis exampleStore exampleClock PutBid putRequest
     ((depServers emptyDeployment 0)\<lparr>srvStore := depWorld emptyDeployment\<rparr>)"

definition putDeployment :: "memory deployment" where
  "putDeployment = \<lparr>depWorld = srvStore (snd putResult),
     depServers = (depServers emptyDeployment)(0 := snd putResult)\<rparr>"

lemma putDeployment_reachable: "deploy_reachable memoryRedis exampleStore putDeployment"
proof -
  have "deploy_reachable memoryRedis exampleStore emptyDeployment"
    by (rule deploy_init) (simp add: emptyDeployment_def emptyMemory_holds)
  moreover have "deploy_step memoryRedis exampleStore emptyDeployment putDeployment"
    unfolding putDeployment_def by (rule deploy_request [OF surjective_pairing])
  ultimately show ?thesis by (rule deploy_next)
qed

lemma storedBid_utf8: "utf8Bid (storedBid revision)"
  by (simp add: utf8Bid_def storedBid_def largestBid_def ascii_valid)

lemma plain_strings:
  "appendString [] = []" "appendString ''a'' = ''a''" "appendString ''p'' = ''p''" "appendString ''c'' = ''c''"
  "appendString ''x'' = ''x''"
  "appendString ''id'' = ''id''" "appendString ''revision'' = ''revision''"
  "appendString ''placement_id'' = ''placement_id''" "appendString ''campaign_id'' = ''campaign_id''"
  "appendString ''creative_id'' = ''creative_id''" "appendString ''markup'' = ''markup''"
  "appendString ''click_url'' = ''click_url''" "appendString ''price_micros'' = ''price_micros''"
  "appendString ''pacing_bps'' = ''pacing_bps''"
  by code_simp+

lemma storedBid_payload:
  \<open>marshalBid (storedBid 2) = ''{"id":"a","revision":2,"placement_id":"p","campaign_id":"c","creative_id":"x",'' @
    ''"markup":"","click_url":"","price_micros":9223372036854775807,"pacing_bps":9999}''\<close>
proof -
  have "FormatInt 9223372036854775807 = ''9223372036854775807''" "FormatInt 9999 = ''9999''" "FormatUint 2 10 = ''2''"
    by (simp_all add: FormatInt_def FormatUint_def formatBits.simps digitChar_def char_of_def bit_0 i64_simps)
  then show ?thesis
    by (simp add: marshalBid_def bidFields_def marshalStruct_def encodeMember_def storedBid_def largestBid_def
       stringField_def uint64Field_def int64Field_def stringsField_def quoteString_def plain_strings)
qed

abbreviation jsonWorld :: "memory world" where
  "jsonWorld \<equiv> snd (RedisStore_Upsert memoryRedis marshalBid exampleStore (storedBid 2)
     \<lparr>server = emptyMemory, network = []\<rparr>)"

lemma jsonWorld_upsert:
  "fst (RedisStore_Upsert memoryRedis marshalBid exampleStore (storedBid 2) \<lparr>server = emptyMemory, network = []\<rparr>) = None"
  "network jsonWorld = []"
  using upsert_reliable [of memoryRedis exampleStore emptyRegistry "{}"
      "\<lparr>server = emptyMemory, network = []\<rparr>" "storedBid 2" marshalBid]
  by (simp_all add: emptyMemory_holds storedBid_valid mutate_def)

lemma putDeployment_world:
  "fst putResult = Returns (securityHeaders (writeJSON 200 (BidBody (storedBid 2))))"
  "depWorld putDeployment = jsonWorld"
proof -
  have body: "decodeJSON (unmarshalBid True) putRequest = Some (storedBid 2)"
    using bid_json_roundtrip [OF storedBid_utf8]
    by (simp add: decodeJSON_def putRequest_def) (simp add: storedBid_payload)
  have path: "rqPathID putRequest = ''a''" by (simp add: putRequest_def exampleHTTP_def)
  note [simp] = serveHTTP_def Server_Handler_def Server_upsertBid_def Server_authorized_def emptyDeployment_def
    NewServer_def defaultConfig_def jsonStore_def storedBid_valid
  show "fst putResult = Returns (securityHeaders (writeJSON 200 (BidBody (storedBid 2))))"
    using jsonWorld_upsert(1) by (simp add: body path Let_def split_beta onMetrics_def)
  show "depWorld putDeployment = jsonWorld"
    using jsonWorld_upsert(1) by (simp add: putDeployment_def body path Let_def split_beta onMetrics_def)
qed

lemma jsonWorld_holds:
  "holds memoryRedis exampleStore
     (snd (mutate (''p'', ''a'') 2 (Some (marshalBid (storedBid 2))) emptyRegistry)) {''p''} (server jsonWorld)"
proof -
  have "RedisStore_Upsert memoryRedis marshalBid exampleStore (storedBid 2) \<lparr>server = emptyMemory, network = []\<rparr> =
      (None, jsonWorld)"
    using jsonWorld_upsert(1) by (simp add: prod_eq_iff)
  from RedisStore_Upsert_success(3) [OF _ this, of emptyRegistry "{}"] show ?thesis
    by (simp add: emptyMemory_holds storedBid_valid)
qed

lemma jsonWorld_active:
  "HGET memoryRedis (server jsonWorld) (activeKey exampleStore ''p'') ''a'' = Some (marshalBid (storedBid 2))"
  using jsonWorld_holds by (simp add: holds_def represents_def mutate_def acceptMutation_def)

theorem deployment_registry_decodes_witness:
  "HGET memoryRedis (server (depWorld putDeployment)) (versionKey exampleStore ''p'') ''a'' = Some ''2''
    \<and> unmarshalBid False (marshalBid (storedBid 2)) = Some (storedBid 2)
    \<and> ''p'' \<in> set (SMEMBERS memoryRedis (server (depWorld putDeployment)) (placementsKey exampleStore))"
proof -
  have active: "HGET memoryRedis (server (depWorld putDeployment)) (activeKey exampleStore ''p'') ''a'' =
      Some (marshalBid (storedBid 2))"
    by (simp only: putDeployment_world jsonWorld_active)
  have "FormatUint 2 10 = ''2''"
    by (simp add: FormatUint_def formatBits.simps digitChar_def char_of_def bit_0)
  then show ?thesis
    using deployment_registry_decodes [OF putDeployment_reachable active, of False]
    by (metis marshalBid_inj [OF storedBid_utf8] storedBid_fields(3))
qed

section \<open>Readers of the registry\<close>

lemma deploy_registry:
  assumes "deploy_reachable R st d"
  obtains g where "holds R st g (set (SMEMBERS R (server (depWorld d)) (placementsKey st))) (server (depWorld d))"
    and "registryOK marshalBid g"
    and "\<forall>p. \<forall>b \<in> activeBids marshalBid g p. unmarshalBid False (marshalBid b) = Some b"
    and "\<forall>p. activeIn R st (depWorld d) p = activeBids marshalBid g p"
proof -
  obtain g ps where held: "holds R st g ps (server (depWorld d))" and g: "jsonRegistry g ps"
    using deploy_jsonHeld [OF assms] by (auto simp: jsonHeld_def)
  from held have "holds R st g (set (SMEMBERS R (server (depWorld d)) (placementsKey st))) (server (depWorld d))"
    by (simp add: holds_def)
  moreover have "registryOK marshalBid g" using g by (simp add: jsonRegistry_def)
  moreover note jsonRegistry_codec [OF g, of False]
  moreover have "\<forall>p. activeIn R st (depWorld d) p = activeBids marshalBid g p"
    using activeIn_activeBids [OF held] by blast
  ultimately show ?thesis by (rule that)
qed

text \<open>
  C29: in every reachable deployment a \<open>Fetch\<close> that succeeds returns exactly the active bids of the
  placement, each once, in rank order, and changes nothing in Redis.
\<close>

theorem fetch_returns_active_bids:
  assumes "deploy_reachable R st d"
    and "RedisStore_Fetch R (unmarshalBid False) st p (depWorld d) = (Inr bids, w')"
  shows "set bids = activeIn R st (depWorld d) p \<and> distinct (map bidID bids) \<and> sortBids bids = bids
    \<and> server w' = server (depWorld d)"
proof -
  obtain g where "holds R st g (set (SMEMBERS R (server (depWorld d)) (placementsKey st))) (server (depWorld d))"
    "registryOK marshalBid g" "\<forall>p. \<forall>b \<in> activeBids marshalBid g p. unmarshalBid False (marshalBid b) = Some b"
    "\<forall>p. activeIn R st (depWorld d) p = activeBids marshalBid g p"
    using deploy_registry [OF assms(1)] by blast
  with Fetch_exact [OF this(1,2) _ assms(2)] show ?thesis by simp
qed

lemma jsonWorld_fetch:
  "RedisStore_Fetch memoryRedis (unmarshalBid False) exampleStore ''p'' jsonWorld = (Inr [storedBid 2], jsonWorld)"
  by (simp add: RedisStore_Fetch_def RedisStore_Upsert_def storedBid_valid retryTopology_def command_def
      addPlacement_def publishPlacement_def upsertBidScript_def memoryRedis_def emptyMemory_def
      bid_json_roundtrip storedBid_utf8 sortBids_def)

theorem fetch_returns_active_bids_witness:
  "{storedBid 2} = activeIn memoryRedis exampleStore (depWorld putDeployment) ''p''"
  using fetch_returns_active_bids [OF putDeployment_reachable, of "''p''" "[storedBid 2]" jsonWorld] jsonWorld_fetch
  by (simp add: putDeployment_world(2))

text \<open>
  C16: starting over any reachable registry. With a valid configuration and a working connection, and
  when the DSP IDs differ and their endpoints are HTTP URLs, an instance reaches the listening state
  without changing Redis, and every indexed placement has a snapshot with exactly its active bids. When
  two DSP IDs are equal or an endpoint is no HTTP URL, which \<open>Config.Validate\<close> does not check, \<open>main\<close>
  exits with code 2.
\<close>

theorem startup_serves_registry:
  assumes "deploy_reachable R (redisStoreOf (ConfigFromEnv env)) d"
    and "Config_Validate (ConfigFromEnv env) = None" and "network (depWorld d) = []"
  shows "if endpointsOK parseURI (cfgDSPBidderEndpoints (ConfigFromEnv env))
    then \<exists>srv. main R marshalBid (unmarshalBid False) parseURI env clock (depWorld d) = Serving srv
      \<and> srvStore srv = depWorld d
      \<and> (\<forall>p \<in> set (SMEMBERS R (server (depWorld d)) (placementsKey (redisStoreOf (ConfigFromEnv env)))). \<forall>now.
          set (fst (BidCache_Get (srvCache srv) now p)) = activeIn R (redisStoreOf (ConfigFromEnv env)) (depWorld d) p)
    else main R marshalBid (unmarshalBid False) parseURI env clock (depWorld d) = Exit 2"
proof -
  let ?st = "redisStoreOf (ConfigFromEnv env)"
  obtain g where g: "holds R ?st g (set (SMEMBERS R (server (depWorld d)) (placementsKey ?st))) (server (depWorld d))"
    "registryOK marshalBid g" "\<forall>p. \<forall>b \<in> activeBids marshalBid g p. unmarshalBid False (marshalBid b) = Some b"
    "\<forall>p. activeIn R ?st (depWorld d) p = activeBids marshalBid g p"
    using deploy_registry [OF assms(1)] by blast
  from main_serves [OF assms(2,3) g(1-3), of parseURI clock] show ?thesis by (simp only: g(4))
qed

text \<open>One DSP with an HTTP endpoint and one stored bid; without a parser for its URL the start fails.\<close>

theorem startup_serves_registry_witness:
  "(\<exists>srv. main memoryRedis marshalBid (unmarshalBid False) exampleParseURI exampleEnv (\<lambda>_. 0) (depWorld putDeployment)
      = Serving srv \<and> storedBid 2 \<in> set (fst (BidCache_Get (srvCache srv) 0 ''p'')))
    \<and> main memoryRedis marshalBid (unmarshalBid False) (\<lambda>_. None) exampleEnv (\<lambda>_. 0) (depWorld putDeployment) = Exit 2"
proof -
  have reach: "deploy_reachable memoryRedis (redisStoreOf (ConfigFromEnv exampleEnv)) putDeployment"
    unfolding exampleEnv_store by (rule putDeployment_reachable)
  have net: "network (depWorld putDeployment) = []"
    unfolding putDeployment_world(2) by (rule jsonWorld_upsert(2))
  note serve = startup_serves_registry [OF reach exampleEnv_valid net, unfolded exampleEnv_store, where clock = "\<lambda>_. 0"]
  have "storedBid 2 \<in> activeIn memoryRedis exampleStore (depWorld putDeployment) ''p''"
    unfolding putDeployment_world(2) using jsonWorld_active by (simp add: activeIn_def storedBid_valid)
  moreover have "''p'' \<in> set (SMEMBERS memoryRedis (server (depWorld putDeployment)) (placementsKey exampleStore))"
    unfolding putDeployment_world(2) using jsonWorld_holds by (simp add: holds_def)
  moreover have "\<not> endpointsOK (\<lambda>_. None) (cfgDSPBidderEndpoints (ConfigFromEnv exampleEnv))"
    by (simp add: exampleEnv_config endpointsOK_def httpURL_def)
  ultimately show ?thesis
    using serve [of exampleParseURI] serve [of "\<lambda>_. None"] exampleEnv_endpoints by auto
qed

end
