(* ===== verification/HTTP_Responses.thy ===== *)
theory HTTP_Responses
  imports Deployment
begin

text \<open>
  The bytes of the responses. \<open>encodeBody\<close> is what \<open>json.NewEncoder(w).Encode\<close> writes for the value
  that a handler passes to \<open>writeJSON\<close>, with its line feed. Clients can parse every JSON response, and
  read from it the bid and the decision that the handler reports.
\<close>

section \<open>Definitions\<close>

text \<open>
  The messages of the errors that \<open>deleteBid\<close> passes on; \<open>cause\<close> is the text of the Redis client's error,
  which the store wraps.
\<close>

fun bidErrorText :: "bid_error \<Rightarrow> string" where
  "bidErrorText ErrBidRequired = ''id, revision, placement_id, campaign_id, and creative_id are required''"
| "bidErrorText ErrBidLength = ''bid field exceeds maximum length''"
| "bidErrorText ErrBidPrice = ''price_micros must be positive and meet floor_micros''"
| "bidErrorText ErrBidWindow = ''active_from_unix is after active_to_unix''"
| "bidErrorText ErrBidPriority = ''priority must be 0..1000 and requires deal_id when non-zero''"
| "bidErrorText ErrBidPacing = ''pacing_bps must be 1..10000''"

fun storeErrorText :: "string \<Rightarrow> store_error \<Rightarrow> string" where
  "storeErrorText cause ErrStaleBidRevision = ''stale bid revision''"
| "storeErrorText cause (ErrInvalidBid e) = bidErrorText e"
| "storeErrorText cause ErrDeleteArguments = ''placement_id, bid id, and valid revision are required''"
| "storeErrorText cause ErrRedis = cause"
| "storeErrorText cause ErrUpsertScript = ''versioned bid upsert: '' @ cause"
| "storeErrorText cause ErrDeleteScript = ''versioned bid delete: '' @ cause"
| "storeErrorText cause ErrPublish = ''publish bid invalidation: '' @ cause"
| "storeErrorText cause ErrDecode = ''decode active bid: '' @ cause"

text \<open>The \<open>map[string]string\<close> with one entry of the short answers.\<close>

definition encodePair :: "string \<Rightarrow> string \<Rightarrow> string" where
  "encodePair k v = marshalStruct [encodedString k False id] v"

fun encodeBody :: "string \<Rightarrow> responseBody \<Rightarrow> string" where
  "encodeBody cause (ErrorBody e) = encodePair ''error'' e @ [CHR 0x0A]"
| "encodeBody cause (StatusBody t) = encodePair ''status'' t @ [CHR 0x0A]"
| "encodeBody cause (StoreErrorBody e) = encodePair ''error'' (storeErrorText cause e) @ [CHR 0x0A]"
| "encodeBody cause (AuctionBody response) = marshalResponse response @ [CHR 0x0A]"
| "encodeBody cause (BidBody bid) = marshalBid bid @ [CHR 0x0A]"
| "encodeBody cause (TextBody t) = t"
| "encodeBody cause EmptyBody = []"

section \<open>Scanning encoded values\<close>

text \<open>The value that the text of a field is scanned to.\<close>

definition wireValue :: "('a, 'm) encodedField_scheme \<Rightarrow> 'a \<Rightarrow> json" where
  "wireValue f x = fst (the (parseValue 10000 (fieldEncode f x @ ''}'')))"

lemma scansIn_wireValue: "scansIn n (fieldEncode f x) v \<Longrightarrow> n < 10000 \<Longrightarrow> wireValue f x = v"
  by (simp add: wireValue_def scansIn_def)

definition wireMembers :: "('a, 'm) encodedField_scheme list \<Rightarrow> 'a \<Rightarrow> (string \<times> json) list" where
  "wireMembers fs x = map (\<lambda>f. (fieldName f, wireValue f x)) (filter (\<lambda>f. \<not> fieldOmitted f x) fs)"

definition scannable :: "nat \<Rightarrow> ('a, 'm) encodedField_scheme \<Rightarrow> 'a \<Rightarrow> bool" where
  "scannable n f x \<longleftrightarrow> validUTF8 (fieldName f) \<and> (\<not> fieldOmitted f x \<longrightarrow> (\<exists>v. scansIn n (fieldEncode f x) v))"

lemma scan_wire:
  assumes "\<forall>f \<in> set fs. scannable n f x" and "n < 10000" and "Suc n < depth"
  shows "parseValue depth (marshalStruct fs x @ rest) = Some (JObject (wireMembers fs x), rest)"
proof -
  have "\<forall>f \<in> set fs. validUTF8 (fieldName f) \<and> (\<not> fieldOmitted f x \<longrightarrow> scansIn n (fieldEncode f x) (wireValue f x))"
    using assms(1,2) by (auto simp: scannable_def scansIn_wireValue)
  from scan_struct [OF this assms(3)] show ?thesis by (simp add: wireMembers_def)
qed

lemma document_line:
  "parseValue 10000 (t @ [CHR 0x0A]) = Some (v, [CHR 0x0A]) \<Longrightarrow> parseDocument (t @ [CHR 0x0A]) = Some v"
  by (simp add: parseDocument_def skipSpace_def isSpace_def)

lemma scans_quoteString: "scansIn n (quoteString t) (JString (coerceUTF8 t))"
  by (simp add: scansIn_def parse_quoteString)

lemma scans_FormatInt: "scansIn n (FormatInt i) (JNumber (FormatInt i))"
  by (simp add: scansIn_def parse_FormatInt)

lemma scans_bool: "scansIn n (if b then ''true'' else ''false'') (JBool b)"
  by (simp add: scansIn_def parseValue.simps skipSpace_stop isSpace_def parseLiteral_def)

lemma scannable_encoded [simp]:
  "validUTF8 k \<Longrightarrow> scannable n (encodedString k om get) x" "validUTF8 k \<Longrightarrow> scannable n (encodedInt64 k om geti) x"
  by (auto simp: scannable_def encodedString_def encodedInt64_def intro: scans_quoteString scans_FormatInt)

lemma scannable_struct [simp]:
  "validUTF8 k \<Longrightarrow> scannable n (stringField k om get put) x"
  "validUTF8 k \<Longrightarrow> scannable n (int64Field k om geti puti) x"
  "validUTF8 k \<Longrightarrow> scannable n (uint64Field k om getu putu) x"
  "validUTF8 k \<Longrightarrow> scannable n (stringsField k gets puts) x"
  by (auto simp: scannable_def stringField_def int64Field_def uint64Field_def stringsField_def scansIn_def
      parse_quoteString parse_FormatInt parse_FormatUint parse_encodeStrings)

lemma scan_bid: "1 < depth \<Longrightarrow>
  parseValue depth (marshalBid b @ rest) = Some (JObject (wireMembers bidFields (b, bidCountries b, bidDevices b)), rest)"
  unfolding marshalBid_def by (rule scan_wire [where n = 0]) (simp_all add: bidFields_def ascii_valid)

lemma scannable_response: "\<forall>f \<in> set responseFields. scannable 1 f x"
  using scans_bool [of 1 True]
  by (auto simp: responseFields_def ascii_valid) (auto simp: scannable_def ascii_valid scansIn_def scan_bid)

lemma scan_response:
  "2 < depth \<Longrightarrow> parseValue depth (marshalResponse r @ rest) = Some (JObject (wireMembers responseFields r), rest)"
  unfolding marshalResponse_def by (rule scan_wire [OF scannable_response]) simp_all

lemma scan_pair:
  assumes "validUTF8 k"
  shows "parseDocument (encodePair k v @ [CHR 0x0A]) = Some (JObject [(k, JString (coerceUTF8 v))])"
proof -
  have "wireValue (encodedString k False id) v = JString (coerceUTF8 v)"
    using scansIn_wireValue [of 0 "encodedString k False id" v] scans_quoteString by (simp add: encodedString_def)
  moreover have "parseValue 10000 (encodePair k v @ [CHR 0x0A])
      = Some (JObject (wireMembers [encodedString k False id] v), [CHR 0x0A])"
    unfolding encodePair_def using assms by (intro scan_wire [where n = 0]) simp_all
  ultimately show ?thesis by (simp add: document_line wireMembers_def encodedString_def)
qed

section \<open>Every JSON response is a JSON object\<close>

definition jsonBody :: "responseBody \<Rightarrow> bool" where
  "jsonBody b \<longleftrightarrow> (case b of TextBody t \<Rightarrow> False | EmptyBody \<Rightarrow> False | _ \<Rightarrow> True)"

lemma encodeBody_json: "jsonBody b \<Longrightarrow> \<exists>ms. parseDocument (encodeBody cause b) = Some (JObject ms)"
  using document_line [OF scan_bid] document_line [OF scan_response]
  by (cases b) (simp_all add: jsonBody_def scan_pair ascii_valid)

lemma handler_bodies:
  assumes "serveHTTP R st ck rt r s = (Returns response, s')"
  shows "jsonBody (rsBody response) \<longleftrightarrow> (''Content-Type'', ''application/json'') \<in> set (rsHeaders response)"
    and "rsBody response = BidBody bid \<Longrightarrow> utf8Bid bid"
proof -
  note defs = serveHTTP_def Server_Handler_def Server_health_def Server_metricsEndpoint_def Server_ready_def
    Server_auction_def Server_upsertBid_def Server_deleteBid_def securityHeaders_def writeJSON_def
  have utf8: "utf8Bid (Bid_Normalize b)" if "unmarshalBid True t = Some b" for t b
    using unmarshalBid_utf8 [OF that] by (simp add: utf8Bid_def Bid_Normalize_def)
  show "jsonBody (rsBody response) \<longleftrightarrow> (''Content-Type'', ''application/json'') \<in> set (rsHeaders response)"
    using assms
    by (cases rt) (auto simp: defs jsonBody_def Let_def split: if_splits option.splits prod.splits panicking.splits)
  show "utf8Bid bid" if "rsBody response = BidBody bid"
    using assms that
    by (cases rt) (auto simp: defs decodeJSON_def Let_def intro: utf8
        split: if_splits option.splits prod.splits panicking.splits)
qed

text \<open>
  C19: every answer that is declared as JSON is one JSON object, whatever bytes the request or Redis put
  into it, and the bid in the answer to an upsert is read back as the bid the handler reports.
\<close>

theorem http_responses_are_json:
  assumes "serveHTTP R st ck rt r s = (Returns response, s')"
  shows "((''Content-Type'', ''application/json'') \<in> set (rsHeaders response) \<longrightarrow>
      (\<exists>ms. parseDocument (encodeBody cause (rsBody response)) = Some (JObject ms)))
    \<and> (\<forall>bid. rsBody response = BidBody bid \<longrightarrow>
      unmarshalBid True (encodeBody cause (rsBody response)) = Some bid)"
  using handler_bodies [OF assms] encodeBody_json [of "rsBody response" cause]
  by (auto intro!: bid_json_space simp: skipSpace_def isSpace_def)

theorem http_responses_are_json_witness:
  "unmarshalBid True (encodeBody [] (BidBody (storedBid 2))) = Some (storedBid 2)"
proof -
  have "putResult = (Returns (securityHeaders (writeJSON 200 (BidBody (storedBid 2)))), snd putResult)"
    using putDeployment_world(1) by (metis prod.collapse)
  from http_responses_are_json [OF this, of "[]"] show ?thesis by (simp add: securityHeaders_def writeJSON_def)
qed

section \<open>What the client of an auction reads\<close>

text \<open>A client that reads the members of an answer as Go's decoder does; a missing number is zero.\<close>

definition readBid :: "(string \<times> json) list \<Rightarrow> Bid option" where
  "readBid ms =
    (case map_of ms ''bid'' of
       None \<Rightarrow> None
     | Some v \<Rightarrow> map_option fst (decodeStruct True bidFields v zeroBidState))"

definition readInt64 :: "string \<Rightarrow> (string \<times> json) list \<Rightarrow> int64 option" where
  "readInt64 k ms = (case map_of ms k of None \<Rightarrow> Some 0 | Some v \<Rightarrow> decodeInt64 v 0)"

lemma map_of_wireMembers:
  assumes "distinct (map fieldName fs)" and "f \<in> set fs"
  shows "map_of (wireMembers fs x) (fieldName f) = (if fieldOmitted f x then None else Some (wireValue f x))"
proof -
  have names: "map fst (wireMembers fs x) = map fieldName (filter (\<lambda>f. \<not> fieldOmitted f x) fs)"
    by (simp add: wireMembers_def)
  have inj: "inj_on fieldName (set fs)" using assms(1) by (simp add: distinct_map)
  show ?thesis
  proof (cases "fieldOmitted f x")
    case True
    then have "fieldName f \<notin> set (map fst (wireMembers fs x))"
      unfolding names using inj assms(2) by (auto dest: inj_onD)
    with True show ?thesis by (simp add: map_of_eq_None_iff)
  next
    case False
    have "distinct (map fst (wireMembers fs x))"
      unfolding names using assms(1) by (rule distinct_map_filter)
    moreover have "(fieldName f, wireValue f x) \<in> set (wireMembers fs x)"
      using False assms(2) by (auto simp: wireMembers_def)
    ultimately show ?thesis using False by simp
  qed
qed

lemma responseFields_distinct: "distinct (map fieldName responseFields)"
  by (simp add: responseFields_def encodedString_def encodedInt64_def)

lemma response_member:
  "f \<in> set responseFields \<Longrightarrow>
    map_of (wireMembers responseFields r) (fieldName f) = (if fieldOmitted f r then None else Some (wireValue f r))"
  by (rule map_of_wireMembers [OF responseFields_distinct])

lemma response_strings:
  assumes "encodedString k False get \<in> set responseFields"
  shows "map_of (wireMembers responseFields r) k = Some (JString (coerceUTF8 (get r)))"
  using response_member [OF assms, of r] scansIn_wireValue [of 0 "encodedString k False get" r] scans_quoteString
  by (simp add: encodedString_def)

lemma response_int64:
  assumes "encodedInt64 k om get \<in> set responseFields"
  shows "readInt64 k (wireMembers responseFields r) = Some (get r)"
proof -
  have "wireValue (encodedInt64 k om get) r = JNumber (FormatInt (get r))"
    by (rule scansIn_wireValue [where n = 0]) (simp_all add: encodedInt64_def scans_FormatInt)
  with response_member [OF assms, of r] show ?thesis
    by (auto simp: readInt64_def encodedInt64_def decodeInt64_def ParseInt_FormatInt)
qed

text \<open>
  What a client reads of a bid whose strings are not UTF-8: the encoder replaces their bytes. A bid that
  was decoded from JSON has no such strings.
\<close>

definition coerceBid :: "Bid \<Rightarrow> Bid" where
  "coerceBid b =
    b\<lparr>bidID := coerceUTF8 (bidID b), bidPlacementID := coerceUTF8 (bidPlacementID b),
      bidCampaignID := coerceUTF8 (bidCampaignID b), bidCreativeID := coerceUTF8 (bidCreativeID b),
      bidMarkup := coerceUTF8 (bidMarkup b), bidClickURL := coerceUTF8 (bidClickURL b),
      bidDealID := coerceUTF8 (bidDealID b), bidCountries := map coerceUTF8 (bidCountries b),
      bidDevices := map coerceUTF8 (bidDevices b)\<rparr>"

lemma coerceUTF8_utf8: "validUTF8 (coerceUTF8 s)"
  using parse_coerced [of s "[]"] by (rule parseString_valid)

lemma coerceUTF8_again [simp]: "coerceUTF8 (coerceUTF8 s) = coerceUTF8 s"
  by (rule coerceUTF8_valid [OF coerceUTF8_utf8])

lemma coerceUTF8_Nil [simp]: "coerceUTF8 s = [] \<longleftrightarrow> s = []"
  by (cases s; subst coerceUTF8.simps) (simp_all add: runeError_def)

lemma coerceBid_utf8: "utf8Bid (coerceBid b)"
  by (simp add: utf8Bid_def coerceBid_def coerceUTF8_utf8 list_all_iff)

lemma coerceBid_id: "utf8Bid b \<Longrightarrow> coerceBid b = b"
  by (simp add: utf8Bid_def coerceBid_def coerceUTF8_valid list_all_iff map_idI)

lemma wireValue_fields:
  "wireValue (stringField k om get put) x = JString (coerceUTF8 (get x))"
  "wireValue (int64Field k om geti puti) x = JNumber (FormatInt (geti x))"
  "wireValue (uint64Field k om getu putu) x = JNumber (FormatUint (getu x) 10)"
  "wireValue (stringsField k gets puts) x = JArray (map (JString \<circ> coerceUTF8) (fst (gets x)))"
  by (simp_all add: wireValue_def stringField_def int64Field_def uint64Field_def stringsField_def
      parse_quoteString parse_FormatInt parse_FormatUint parse_encodeStrings)

lemma wireMembers_cong:
  "\<forall>f \<in> set fs. fieldOmitted f x = fieldOmitted f y \<and> wireValue f x = wireValue f y \<Longrightarrow>
    wireMembers fs x = wireMembers fs y"
  by (induction fs) (auto simp: wireMembers_def)

lemma wireMembers_coerce:
  "wireMembers bidFields (coerceBid b, bidCountries (coerceBid b), bidDevices (coerceBid b)) =
    wireMembers bidFields (b, bidCountries b, bidDevices b)"
  by (rule wireMembers_cong)
    (simp add: bidFields_def wireValue_fields,
     simp add: coerceBid_def stringField_def int64Field_def uint64Field_def stringsField_def)

lemma bid_wire_decode:
  "map_option fst (decodeStruct True bidFields (JObject (wireMembers bidFields (b, bidCountries b, bidDevices b))) zeroBidState) =
    Some (coerceBid b)"
proof -
  obtain v where v: "\<forall>depth rest. 1 < depth \<longrightarrow> parseValue depth (marshalBid (coerceBid b) @ rest) = Some (v, rest)"
    "map_option fst (decodeStruct True bidFields v zeroBidState) = Some (coerceBid b)"
    using bid_json_decode [OF coerceBid_utf8] by blast
  have "v = JObject (wireMembers bidFields (b, bidCountries b, bidDevices b))"
    using v(1) [rule_format, of 2 "[]"] scan_bid [of 2 "coerceBid b" "[]"] by (simp add: wireMembers_coerce)
  with v(2) show ?thesis by simp
qed

lemma response_bid: "readBid (wireMembers responseFields r) = map_option coerceBid (respBid r)"
proof -
  let ?f = "\<lparr>fieldName = ''bid'', fieldOmitted = (\<lambda>r. respBid r = None),
      fieldEncode = (\<lambda>r. case respBid r of None \<Rightarrow> ''null'' | Some b \<Rightarrow> marshalBid b)\<rparr>"
  have f: "?f \<in> set responseFields" by (simp add: responseFields_def)
  show ?thesis
  proof (cases "respBid r")
    case None
    with response_member [OF f, of r] show ?thesis by (simp add: readBid_def)
  next
    case (Some b)
    then have "wireValue ?f r = JObject (wireMembers bidFields (b, bidCountries b, bidDevices b))"
      by (simp add: wireValue_def scan_bid)
    with Some bid_wire_decode [of b] response_member [OF f, of r] show ?thesis by (simp add: readBid_def)
  qed
qed

end
