(* ===== verification/Go_URL.thy ===== *)
theory Go_URL
  imports Go_Text JSON_Strings
begin

text \<open>
  What the server relies on of \<open>net/url\<close> and \<open>path\<close>: percent-decoding, the query string behind
  \<open>r.URL.Query().Get\<close>, and the canonical form of a path. \<open>percentEncode\<close> is a client's encoding, every
  byte as an escape.
\<close>

section \<open>Definitions\<close>

text \<open>\<open>url.unescape\<close>: in a query, \<open>inQuery\<close>, the sign \<open>+\<close> is a space. \<open>None\<close> is a malformed escape.\<close>

fun unescape :: "bool \<Rightarrow> string \<Rightarrow> string option" where
  "unescape inQuery [] = Some []"
| "unescape inQuery (c # s) =
    (if c = CHR ''%'' then
       (case s of
          a # b # rest \<Rightarrow>
            (case (hexVal a, hexVal b) of
               (Some x, Some y) \<Rightarrow> map_option (Cons (char_of (16 * x + y))) (unescape inQuery rest)
             | _ \<Rightarrow> None)
        | _ \<Rightarrow> None)
     else map_option (Cons (if inQuery \<and> c = CHR ''+'' then CHR '' '' else c)) (unescape inQuery s))"

definition percentByte :: "char \<Rightarrow> string" where
  "percentByte c = [CHR ''%'', digitChar (byte c div 16), digitChar (byte c mod 16)]"

definition percentEncode :: "string \<Rightarrow> string" where
  "percentEncode s = concat (map percentByte s)"

text \<open>
  \<open>url.ParseQuery\<close> as \<open>URL.Query\<close> uses it: pairs that hold a semicolon or a malformed escape are left
  out. \<open>Values.Get\<close> takes the first value of a key.
\<close>

definition queryPair :: "string \<Rightarrow> (string \<times> string) option" where
  "queryPair part =
    (if CHR '';'' \<in> set part \<or> part = [] then None
     else
       let cut = SplitN2 (CHR ''='') part in
       case (unescape True (hd cut), unescape True (concat (tl cut))) of
         (Some key, Some v) \<Rightarrow> Some (key, v)
       | _ \<Rightarrow> None)"

definition queryGet :: "string \<Rightarrow> string \<Rightarrow> string" where
  "queryGet query key =
    (case map_of (List.map_filter queryPair (Split (CHR ''&'') query)) key of None \<Rightarrow> [] | Some v \<Rightarrow> v)"

text \<open>\<open>path.Clean\<close> of a rooted path, on its segments; the result is kept in reverse.\<close>

fun cleanSegments :: "string list \<Rightarrow> string list \<Rightarrow> string list" where
  "cleanSegments out [] = rev out"
| "cleanSegments out (seg # segs) =
    (if seg = [] \<or> seg = ''.'' then cleanSegments out segs
     else if seg = ''..'' then cleanSegments (tl out) segs
     else cleanSegments (seg # out) segs)"

definition rooted :: "string list \<Rightarrow> string" where
  "rooted segs = (if segs = [] then ''/'' else concat (map (Cons (CHR ''/'')) segs))"

text \<open>\<open>cleanPath\<close> of \<open>net/http\<close>: a trailing slash is kept.\<close>

definition cleanPath :: "string \<Rightarrow> string" where
  "cleanPath p =
    (if p = [] then ''/''
     else
       let q = (if hd p \<noteq> CHR ''/'' then CHR ''/'' # p else p);
           np = rooted (cleanSegments [] (Split (CHR ''/'') q))
       in if last q = CHR ''/'' \<and> np \<noteq> ''/'' then np @ ''/'' else np)"

section \<open>Escapes\<close>

lemma byte_nibbles: "char_of (16 * (byte c div 16) + byte c mod 16) = c"
  by (simp add: mult_div_mod_eq)

lemma unescape_percentByte: "unescape inQuery (percentByte c @ s) = map_option (Cons c) (unescape inQuery s)"
proof -
  have "hexVal (digitChar (byte c div 16)) = Some (byte c div 16)" "hexVal (digitChar (byte c mod 16)) = Some (byte c mod 16)"
    by (simp_all add: hexVal_digitChar less_mult_imp_div_less)
  then show ?thesis by (simp add: percentByte_def byte_nibbles)
qed

lemma unescape_percentEncode [simp]: "unescape inQuery (percentEncode s) = Some s"
  by (induction s) (simp_all add: percentEncode_def unescape_percentByte)

lemma unescape_Nil [simp]: "unescape inQuery s = Some [] \<longleftrightarrow> s = []"
  by (cases s) (auto split: list.splits option.splits)

lemma unescape_plain:
  "CHR ''%'' \<notin> set s \<Longrightarrow> CHR ''+'' \<notin> set s \<Longrightarrow> unescape inQuery s = Some s"
  by (induction s) auto

lemma digitChar_hex: "d < 16 \<Longrightarrow> digitChar d \<in> set ''0123456789abcdef''"
proof -
  assume "d < 16"
  then have "d \<in> set [0..<16]" by simp
  moreover have "\<forall>d \<in> set [0..<16]. digitChar d \<in> set ''0123456789abcdef''" by code_simp
  ultimately show ?thesis by blast
qed

lemma percentByte_plain: "set (percentByte c) \<subseteq> set ''%0123456789abcdef''"
  using digitChar_hex [of "byte c div 16"] digitChar_hex [of "byte c mod 16"]
  by (auto simp: percentByte_def less_mult_imp_div_less)

lemma percentEncode_plain: "set (percentEncode s) \<subseteq> set ''%0123456789abcdef''"
  using percentByte_plain by (fastforce simp: percentEncode_def)

end
