(* ===== verification/Go_ServeMux.thy ===== *)
theory Go_ServeMux
  imports Go_URL
begin

text \<open>
  The request multiplexer of \<open>net/http\<close> for patterns with a method and no host, as the program registers
  them. A path is matched segment by segment: a literal segment goes before a wildcard, a wildcard
  before a trailing slash, with backtracking. The patterns whose segments up to a node agree with the path
  stand for that node of the routing tree. The target of a redirect is not modelled.
\<close>

section \<open>Patterns\<close>

datatype segment = Lit string | Wild string | TrailingSlash

record 'h pattern =
  patMethod :: string
  patSegments :: "segment list"
  patHandler :: 'h

text \<open>\<open>pathUnescape\<close>: a malformed escape is left as it is.\<close>

definition pathUnescape :: "string \<Rightarrow> string" where
  "pathUnescape s = (case unescape False s of None \<Rightarrow> s | Some t \<Rightarrow> t)"

definition patternSegment :: "string \<Rightarrow> segment" where
  "patternSegment seg =
    (if CHR ''{'' \<in> set seg then Wild (butlast (tl seg)) else Lit (pathUnescape seg))"

function patternSegments :: "string \<Rightarrow> segment list" where
  "patternSegments rest =
    (if rest = [] then []
     else if tl rest = [] then [TrailingSlash]
     else patternSegment (takeWhile (\<lambda>c. c \<noteq> CHR ''/'') (tl rest))
       # patternSegments (dropWhile (\<lambda>c. c \<noteq> CHR ''/'') (tl rest)))"
  by auto
termination
  by (relation "measure length")
    (auto simp: length_greater_0_conv [symmetric] simp del: length_greater_0_conv
      intro!: le_less_trans [OF length_dropWhile_le])

text \<open>\<open>parsePattern\<close> of a method, a space and a path.\<close>

definition parsePattern :: "string \<Rightarrow> 'h \<Rightarrow> 'h pattern" where
  "parsePattern s h =
    (case SplitN2 (CHR '' '') s of
       [m, p] \<Rightarrow> \<lparr>patMethod = m, patSegments = patternSegments p, patHandler = h\<rparr>
     | _ \<Rightarrow> \<lparr>patMethod = [], patSegments = patternSegments s, patHandler = h\<rparr>)"

section \<open>Matching\<close>

definition firstSegment :: "string \<Rightarrow> string \<times> string" where
  "firstSegment p =
    (if p = ''/'' then (''/'', [])
     else (pathUnescape (takeWhile (\<lambda>c. c \<noteq> CHR ''/'') (tl p)), dropWhile (\<lambda>c. c \<noteq> CHR ''/'') (tl p)))"

type_synonym 'h node = "(segment list \<times> 'h pattern) list"

fun childLit :: "string \<Rightarrow> 'h node \<Rightarrow> 'h node" where
  "childLit seg [] = []"
| "childLit seg ((ss, p) # ps) =
    (case ss of
       Lit s # ss' \<Rightarrow> if s = seg then (ss', p) # childLit seg ps else childLit seg ps
     | _ \<Rightarrow> childLit seg ps)"

fun childWild :: "'h node \<Rightarrow> 'h node" where
  "childWild [] = []"
| "childWild ((ss, p) # ps) = (case ss of Wild x # ss' \<Rightarrow> (ss', p) # childWild ps | _ \<Rightarrow> childWild ps)"

fun endingWith :: "segment list \<Rightarrow> 'h node \<Rightarrow> ('h pattern \<times> string list) option" where
  "endingWith rest [] = None"
| "endingWith rest ((ss, p) # ps) = (if ss = rest then Some (p, []) else endingWith rest ps)"

lemma firstSegment_shorter: "p \<noteq> [] \<Longrightarrow> length (snd (firstSegment p)) < length p"
  by (cases p) (auto simp: firstSegment_def le_imp_less_Suc length_dropWhile_le)

function matchPath :: "'h node \<Rightarrow> string \<Rightarrow> ('h pattern \<times> string list) option" where
  "matchPath n p =
    (if p = [] then endingWith [] n
     else
       let seg = fst (firstSegment p); rest = snd (firstSegment p) in
       case matchPath (childLit seg n) rest of
         Some found \<Rightarrow> Some found
       | None \<Rightarrow>
           (case if seg \<noteq> ''/'' then map_option (map_prod id (Cons seg)) (matchPath (childWild n) rest) else None of
              Some found \<Rightarrow> Some found
            | None \<Rightarrow> endingWith [TrailingSlash] n))"
  by auto
termination
  by (relation "measure (length \<circ> snd)") (simp_all add: firstSegment_shorter)

type_synonym 'h mux = "'h pattern list"

definition methodNode :: "'h mux \<Rightarrow> string \<Rightarrow> 'h node" where
  "methodNode mux m = map (\<lambda>p. (patSegments p, p)) (filter (\<lambda>p. patMethod p = m) mux)"

definition muxMatch :: "'h mux \<Rightarrow> string \<Rightarrow> string \<Rightarrow> ('h pattern \<times> string list) option" where
  "muxMatch mux m p =
    (case matchPath (methodNode mux m) p of
       Some found \<Rightarrow> Some found
     | None \<Rightarrow>
         (case if m = ''HEAD'' then matchPath (methodNode mux ''GET'') p else None of
            Some found \<Rightarrow> Some found
          | None \<Rightarrow> matchPath (methodNode mux []) p))"

definition exactMatch :: "('h pattern \<times> string list) option \<Rightarrow> string \<Rightarrow> bool" where
  "exactMatch found p =
    (case found of
       None \<Rightarrow> False
     | Some (pat, _) \<Rightarrow>
         if last (patSegments pat) \<noteq> TrailingSlash then True
         else if 0 < length p \<and> last p \<noteq> CHR ''/'' then False
         else length (patSegments pat) = count_list p (CHR ''/''))"

text \<open>\<open>matchOrRedirect\<close>; \<open>True\<close> is a redirect to the path with a trailing slash.\<close>

definition slashRedirect :: "'h mux \<Rightarrow> string \<Rightarrow> string \<Rightarrow> bool" where
  "slashRedirect mux m p \<longleftrightarrow>
    \<not> exactMatch (muxMatch mux m p) p \<and> \<not> (p \<noteq> [] \<and> last p = CHR ''/'')
    \<and> exactMatch (muxMatch mux m (p @ ''/'')) (p @ ''/'')"

definition methodsAt :: "'h mux \<Rightarrow> string \<Rightarrow> string set" where
  "methodsAt mux p =
    (let ms = {m \<in> set (map patMethod mux). matchPath (methodNode mux m) p \<noteq> None} in
     if ''GET'' \<in> ms then insert ''HEAD'' ms else ms)"

definition matchingMethods :: "'h mux \<Rightarrow> string \<Rightarrow> string list" where
  "matchingMethods mux p =
    sorted_list_of_set (methodsAt mux p
      \<union> (if p \<noteq> [] \<and> last p = CHR ''/'' then {} else methodsAt mux (p @ ''/'')))"

section \<open>Serving\<close>

datatype 'h muxResult =
    BadRequest | Redirect | NotFound | MethodNotAllowed "string list" | Found 'h "string list"

definition findHandler :: "'h mux \<Rightarrow> string \<Rightarrow> string \<Rightarrow> 'h muxResult" where
  "findHandler mux m escapedPath =
    (let p = (if m = ''CONNECT'' then escapedPath else cleanPath escapedPath) in
     if slashRedirect mux m p then Redirect
     else if p \<noteq> escapedPath then Redirect
     else
       case muxMatch mux m p of
         Some (pat, ms) \<Rightarrow> Found (patHandler pat) ms
       | None \<Rightarrow>
           let allowed = matchingMethods mux p in
           if 0 < length allowed then MethodNotAllowed allowed else NotFound)"

text \<open>\<open>ServeMux.ServeHTTP\<close>; the path is \<open>*\<close> only when the request URI is.\<close>

definition muxServe :: "'h mux \<Rightarrow> string \<Rightarrow> string \<Rightarrow> 'h muxResult" where
  "muxServe mux m escapedPath = (if escapedPath = ''*'' then BadRequest else findHandler mux m escapedPath)"

section \<open>Matching on segments\<close>

text \<open>The segments of a path, decoded; a trailing slash is a segment of its own.\<close>

function pathSegments :: "string \<Rightarrow> string list" where
  "pathSegments p = (if p = [] then [] else fst (firstSegment p) # pathSegments (snd (firstSegment p)))"
  by auto
termination
  by (relation "measure length") (simp_all add: firstSegment_shorter)

fun matchSegments :: "'h node \<Rightarrow> string list \<Rightarrow> ('h pattern \<times> string list) option" where
  "matchSegments n [] = endingWith [] n"
| "matchSegments n (seg # segs) =
    (case matchSegments (childLit seg n) segs of
       Some found \<Rightarrow> Some found
     | None \<Rightarrow>
         (case if seg \<noteq> ''/'' then map_option (map_prod id (Cons seg)) (matchSegments (childWild n) segs) else None of
            Some found \<Rightarrow> Some found
          | None \<Rightarrow> endingWith [TrailingSlash] n))"

declare patternSegments.simps [simp del] matchPath.simps [simp del] pathSegments.simps [simp del]

lemma matchPath_segments: "matchPath n p = matchSegments n (pathSegments p)"
proof (induction n p rule: matchPath.induct)
  case (1 n p)
  show ?case
  proof (cases "p = []")
    case False
    with 1 show ?thesis
      by (simp add: matchPath.simps [of n p] pathSegments.simps [of p] Let_def split: option.split)
  qed (simp add: matchPath.simps pathSegments.simps)
qed

lemma matchSegments_Nil [simp]: "matchSegments [] segs = None"
  by (induction segs) simp_all

lemma takeWhile_slash: "takeWhile (\<lambda>c. c \<noteq> x) (s @ [x]) = takeWhile (\<lambda>c. c \<noteq> x) s"
  by (induction s) simp_all

lemma dropWhile_slash: "dropWhile (\<lambda>c. c \<noteq> x) (s @ [x]) = dropWhile (\<lambda>c. c \<noteq> x) s @ [x]"
  by (induction s) simp_all

lemma dropWhile_last: "dropWhile P s \<noteq> [] \<Longrightarrow> last (dropWhile P s) = last s"
  by (induction s) (auto split: if_splits)

lemma pathSegments_slash: "p \<noteq> [] \<Longrightarrow> last p \<noteq> CHR ''/'' \<Longrightarrow> pathSegments (p @ ''/'') = pathSegments p @ [''/'']"
proof (induction p rule: pathSegments.induct)
  case (1 p)
  let ?rest = "snd (firstSegment p)"
  have slash: "pathSegments ''/'' = [''/'']" by (simp add: pathSegments.simps firstSegment_def)
  have neq: "p \<noteq> ''/''" "p @ ''/'' \<noteq> ''/''" using 1 by auto
  have first: "firstSegment (p @ ''/'') = (fst (firstSegment p), ?rest @ ''/'')"
    using 1(2) neq by (simp add: firstSegment_def takeWhile_slash dropWhile_slash)
  show ?case
  proof (cases "?rest = []")
    case True
    then show ?thesis
      using 1(2) by (simp add: pathSegments.simps [of "p @ ''/''"] pathSegments.simps [of p]
          pathSegments.simps [of "[]"] first slash)
  next
    case False
    then have "last ?rest = last (tl p)" "tl p \<noteq> []" using 1(2) neq(1)
      by (auto simp: firstSegment_def dropWhile_last)
    then have "last ?rest = last p" by (simp add: last_tl)
    with 1 False show ?thesis
      by (simp add: pathSegments.simps [of "p @ ''/''"] pathSegments.simps [of p] first)
  qed
qed

section \<open>Canonical paths\<close>

definition plainSegment :: "string \<Rightarrow> bool" where
  "plainSegment seg \<longleftrightarrow> CHR ''/'' \<notin> set seg \<and> seg \<notin> {[], ''.'', ''..''}"

lemma Split_segments: "x \<notin> set seg \<Longrightarrow> Split x (seg @ x # s) = seg # Split x s" "x \<notin> set seg \<Longrightarrow> Split x seg = [seg]"
  by (induction seg) auto

lemma Split_parts: "part \<in> set (Split x s) \<Longrightarrow> x \<notin> set part"
  by (induction s arbitrary: part) (auto split: list.splits if_splits)

lemma cleanSegments_plain:
  "list_all plainSegment out \<Longrightarrow> \<forall>seg \<in> set segs. CHR ''/'' \<notin> set seg \<Longrightarrow> list_all plainSegment (cleanSegments out segs)"
proof (induction out segs rule: cleanSegments.induct)
  case (2 out seg segs)
  have "list_all plainSegment (tl out)" using 2(4) by (cases out) simp_all
  moreover have "plainSegment seg" if "seg \<noteq> []" "seg \<noteq> ''.''" "seg \<noteq> ''..''"
    using 2(5) that by (simp add: plainSegment_def)
  ultimately show ?case using 2 by simp
qed (simp add: list_all_iff)

lemma cleanSegments_id: "list_all plainSegment segs \<Longrightarrow> cleanSegments out segs = rev out @ segs"
  by (induction segs arbitrary: out) (auto simp: plainSegment_def)

lemma rooted_Nil: "rooted segs = ''/'' \<longleftrightarrow> segs = [] \<or> segs = [[]]"
proof (cases segs)
  case (Cons seg rest)
  then show ?thesis by (cases rest) (simp_all add: rooted_def)
qed (simp add: rooted_def)

lemma cleanPath_form:
  "\<exists>segs. list_all plainSegment segs
    \<and> (cleanPath p = rooted segs \<or> cleanPath p = rooted segs @ ''/'' \<and> segs \<noteq> [])"
proof (cases "p = []")
  case True
  then have "cleanPath p = rooted []" by (simp add: cleanPath_def rooted_def)
  then show ?thesis by (intro exI [of _ "[]"]) simp
next
  case False
  define q where "q = (if hd p \<noteq> CHR ''/'' then CHR ''/'' # p else p)"
  define segs where "segs = cleanSegments [] (Split (CHR ''/'') q)"
  have plain: "list_all plainSegment segs"
    unfolding segs_def by (rule cleanSegments_plain) (auto dest: Split_parts)
  have "cleanPath p = (if last q = CHR ''/'' \<and> rooted segs \<noteq> ''/'' then rooted segs @ ''/'' else rooted segs)"
    using False by (simp only: cleanPath_def Let_def if_False q_def segs_def)
  then have "cleanPath p = rooted segs \<or> cleanPath p = rooted segs @ ''/'' \<and> segs \<noteq> []"
    using rooted_Nil [of segs] by metis
  with plain show ?thesis by blast
qed

lemma Split_rooted:
  "list_all plainSegment segs \<Longrightarrow> segs \<noteq> [] \<Longrightarrow> Split (CHR ''/'') (concat (map (Cons (CHR ''/'')) segs)) = [] # segs"
proof (induction segs)
  case (Cons seg segs)
  then have seg: "CHR ''/'' \<notin> set seg" by (simp add: plainSegment_def)
  show ?case
  proof (cases segs)
    case (Cons seg' rest)
    then show ?thesis using Cons.IH Cons.prems seg by (simp add: Split_segments)
  qed (use seg in \<open>simp add: Split_segments\<close>)
qed simp

lemma rooted_last:
  assumes "list_all plainSegment segs" and "segs \<noteq> []"
  shows "last (concat (map (Cons (CHR ''/'')) segs)) \<noteq> CHR ''/''"
proof (cases segs rule: rev_cases)
  case (snoc ys y)
  then have "plainSegment y" using assms(1) by simp
  then have "y \<noteq> []" "last y \<noteq> CHR ''/''" by (auto simp: plainSegment_def dest: last_in_set)
  then show ?thesis using snoc by simp
qed (use assms in simp)

lemma cleanPath_rooted:
  assumes "list_all plainSegment segs" and "segs \<noteq> []"
  shows "cleanPath (rooted segs) = rooted segs"
proof -
  let ?p = "concat (map (Cons (CHR ''/'')) segs)"
  have p: "rooted segs = ?p" "?p \<noteq> []" "hd ?p = CHR ''/''" using assms(2) by (cases segs; simp add: rooted_def)+
  then show ?thesis
    using rooted_last [OF assms] Split_rooted [OF assms] cleanSegments_id [OF assms(1), of "[]"]
    by (simp add: cleanPath_def Let_def)
qed

lemma pathSegments_Cons:
  assumes "CHR ''/'' \<notin> set seg" and "seg \<noteq> []" and "rest = [] \<or> hd rest = CHR ''/''"
  shows "pathSegments (CHR ''/'' # seg @ rest) = pathUnescape seg # pathSegments rest"
proof -
  have seg: "\<forall>c \<in> set seg. c \<noteq> CHR ''/''" using assms(1) by auto
  have "takeWhile (\<lambda>c. c \<noteq> CHR ''/'') rest = []" "dropWhile (\<lambda>c. c \<noteq> CHR ''/'') rest = rest"
    using assms(3) by (cases rest; simp)+
  then have "firstSegment (CHR ''/'' # seg @ rest) = (pathUnescape seg, rest)"
    using seg assms(2) by (simp add: firstSegment_def takeWhile_append2 dropWhile_append2)
  then show ?thesis by (simp add: pathSegments.simps)
qed

lemma pathSegments_rooted:
  "list_all plainSegment segs \<Longrightarrow> segs \<noteq> [] \<Longrightarrow> rest = [] \<or> hd rest = CHR ''/'' \<Longrightarrow>
    pathSegments (rooted segs @ rest) = map pathUnescape segs @ pathSegments rest"
proof (induction segs)
  case (Cons seg segs)
  have seg: "CHR ''/'' \<notin> set seg" "seg \<noteq> []" using Cons.prems by (auto simp: plainSegment_def)
  show ?case
  proof (cases segs)
    case Nil
    then show ?thesis using pathSegments_Cons [OF seg Cons.prems(3)] by (simp add: rooted_def)
  next
    case (Cons seg' ss)
    then have "rooted (seg # segs) @ rest = CHR ''/'' # seg @ rooted segs @ rest" "hd (rooted segs @ rest) = CHR ''/''"
      by (simp_all add: rooted_def)
    with Cons.IH Cons.prems Cons pathSegments_Cons [OF seg, of "rooted segs @ rest"] show ?thesis by simp
  qed
qed simp

lemma pathUnescape_Nil [simp]: "pathUnescape s = [] \<longleftrightarrow> s = []"
  by (auto simp: pathUnescape_def split: option.splits)

lemma clean_segments_nonempty:
  assumes "cleanPath p = p"
  shows "[] \<notin> set (pathSegments p)"
proof -
  obtain segs where segs: "list_all plainSegment segs" "p = rooted segs \<or> p = rooted segs @ ''/'' \<and> segs \<noteq> []"
    using cleanPath_form [of p] unfolding assms by blast
  have slash: "pathSegments ''/'' = [''/'']" "pathSegments [] = []"
    by (simp_all add: pathSegments.simps firstSegment_def)
  have "\<forall>seg \<in> set segs. pathUnescape seg \<noteq> []" using segs(1) by (simp add: list_all_iff plainSegment_def)
  then have decoded: "[] \<notin> set (map pathUnescape segs)" by (metis imageE set_map)
  show ?thesis
  proof (cases "segs = []")
    case True
    then show ?thesis using segs(2) slash(1) by (simp add: rooted_def)
  next
    case False
    note at = pathSegments_rooted [OF segs(1) False]
    have "pathSegments p = map pathUnescape segs \<or> pathSegments p = map pathUnescape segs @ [''/'']"
      using segs(2) at [of "[]"] at [of "''/''"] slash by (elim disjE conjE) simp_all
    with decoded show ?thesis by (elim disjE) simp_all
  qed
qed

end
