(* ===== verification/Routing.thy ===== *)
theory Routing
  imports Deployment Go_ServeMux
begin

text \<open>
  \<open>Server.Handler\<close> with its multiplexer, and the two listeners of \<open>main\<close>: which requests reach which
  handler, with which identifier, and which are answered by the multiplexer. A \<open>rawRequest\<close> holds the
  method, the escaped path and the query as \<open>net/http\<close> passes them on.
\<close>

section \<open>Definitions\<close>

definition serverMux :: "route mux" where
  "serverMux =
    [parsePattern ''POST /v1/auction'' PostAuction,
     parsePattern ''PUT /v1/bids/{id}'' PutBid,
     parsePattern ''DELETE /v1/bids/{id}'' DeleteBid,
     parsePattern ''GET /healthz'' GetHealthz,
     parsePattern ''GET /readyz'' GetReadyz,
     parsePattern ''GET /metrics'' GetMetrics]"

record rawRequest =
  rrMethod :: string
  rrPath :: string
  rrQuery :: string
  rrBody :: string
  rrAuthorization :: string
  rrXRequestID :: string

text \<open>What the handlers read of a request; \<open>r.PathValue("id")\<close> is the match of the only wildcard.\<close>

definition requestOf :: "rawRequest \<Rightarrow> string list \<Rightarrow> Request" where
  "requestOf r ms =
    \<lparr>rqBody = rrBody r, rqAuthorization = rrAuthorization r, rqXRequestID = rrXRequestID r,
     rqPathID = (case ms of [] \<Rightarrow> [] | i # _ \<Rightarrow> i),
     rqPlacement = queryGet (rrQuery r) ''placement_id'', rqRevision = queryGet (rrQuery r) ''revision''\<rparr>"

datatype answer = Handled "Response panicking" | ByMux "route muxResult"

definition handleHTTP ::
    "'r redis \<Rightarrow> RedisStore \<Rightarrow> auctionClock \<Rightarrow> rawRequest \<Rightarrow> 'r world Server \<Rightarrow> answer \<times> 'r world Server" where
  "handleHTTP R st ck r s =
    (case muxServe serverMux (rrMethod r) (rrPath r) of
       Found rt ms \<Rightarrow> map_prod Handled id (serveHTTP R st ck rt (requestOf r ms) s)
     | other \<Rightarrow> (ByMux other, s))"

text \<open>The profiler's listener, which \<open>main\<close> starts when its address is configured.\<close>

datatype pprof = Index | Cmdline | Profile | Symbol | Trace

definition debugMux :: "pprof mux" where
  "debugMux =
    [parsePattern ''GET /debug/pprof/'' Index,
     parsePattern ''GET /debug/pprof/cmdline'' Cmdline,
     parsePattern ''GET /debug/pprof/profile'' Profile,
     parsePattern ''GET /debug/pprof/symbol'' Symbol,
     parsePattern ''GET /debug/pprof/trace'' Trace]"

record 'h httpServer =
  hsAddr :: string
  hsHandler :: "'h mux"
  hsReadHeaderTimeout :: duration
  hsReadTimeout :: duration
  hsWriteTimeout :: duration
  hsIdleTimeout :: duration
  hsMaxHeaderBytes :: int64

definition httpServerOf :: "Config \<Rightarrow> route httpServer" where
  "httpServerOf config =
    \<lparr>hsAddr = cfgHTTPAddr config, hsHandler = serverMux, hsReadHeaderTimeout = 2 * second,
     hsReadTimeout = 3 * second, hsWriteTimeout = 3 * second, hsIdleTimeout = 60 * second,
     hsMaxHeaderBytes = push_bit 10 16\<rparr>"

definition debugServerOf :: "Config \<Rightarrow> pprof httpServer option" where
  "debugServerOf config =
    (if cfgDebugAddr config \<noteq> []
     then Some \<lparr>hsAddr = cfgDebugAddr config, hsHandler = debugMux, hsReadHeaderTimeout = second,
       hsReadTimeout = 0, hsWriteTimeout = 0, hsIdleTimeout = 0, hsMaxHeaderBytes = 0\<rparr>
     else None)"

section \<open>The resources\<close>

text \<open>A reference table: the methods of each resource, by the segments of its path.\<close>

definition resource :: "string list \<Rightarrow> ((string \<times> route) list \<times> string list) option" where
  "resource segs =
    (if segs = [''v1'', ''auction''] then Some ([(''POST'', PostAuction)], [])
     else if segs = [''healthz''] then Some ([(''GET'', GetHealthz), (''HEAD'', GetHealthz)], [])
     else if segs = [''readyz''] then Some ([(''GET'', GetReadyz), (''HEAD'', GetReadyz)], [])
     else if segs = [''metrics''] then Some ([(''GET'', GetMetrics), (''HEAD'', GetMetrics)], [])
     else
       case segs of
         [a, b, i] \<Rightarrow>
           if a = ''v1'' \<and> b = ''bids'' \<and> i \<noteq> ''/'' then Some ([(''DELETE'', DeleteBid), (''PUT'', PutBid)], [i])
           else None
       | _ \<Rightarrow> None)"

lemma serverMux_patterns:
  "serverMux =
    [\<lparr>patMethod = ''POST'', patSegments = [Lit ''v1'', Lit ''auction''], patHandler = PostAuction\<rparr>,
     \<lparr>patMethod = ''PUT'', patSegments = [Lit ''v1'', Lit ''bids'', Wild ''id''], patHandler = PutBid\<rparr>,
     \<lparr>patMethod = ''DELETE'', patSegments = [Lit ''v1'', Lit ''bids'', Wild ''id''], patHandler = DeleteBid\<rparr>,
     \<lparr>patMethod = ''GET'', patSegments = [Lit ''healthz''], patHandler = GetHealthz\<rparr>,
     \<lparr>patMethod = ''GET'', patSegments = [Lit ''readyz''], patHandler = GetReadyz\<rparr>,
     \<lparr>patMethod = ''GET'', patSegments = [Lit ''metrics''], patHandler = GetMetrics\<rparr>]"
  by code_simp

lemma server_nodes:
  "methodNode serverMux ''POST'' = [([Lit ''v1'', Lit ''auction''], serverMux ! 0)]"
  "methodNode serverMux ''PUT'' = [([Lit ''v1'', Lit ''bids'', Wild ''id''], serverMux ! 1)]"
  "methodNode serverMux ''DELETE'' = [([Lit ''v1'', Lit ''bids'', Wild ''id''], serverMux ! 2)]"
  "methodNode serverMux ''GET'' = [([Lit ''healthz''], serverMux ! 3), ([Lit ''readyz''], serverMux ! 4),
     ([Lit ''metrics''], serverMux ! 5)]"
  "m \<notin> {''POST'', ''PUT'', ''DELETE'', ''GET''} \<Longrightarrow> methodNode serverMux m = []"
  by (auto simp: methodNode_def serverMux_patterns)

lemma server_handlers:
  "map patHandler serverMux = [PostAuction, PutBid, DeleteBid, GetHealthz, GetReadyz, GetMetrics]"
  by (simp add: serverMux_patterns)

text \<open>Matching against one pattern of literals, and against one that ends in a wildcard.\<close>

lemma match_literals:
  "matchSegments [(map Lit ls, pat)] segs = (if segs = ls then Some (pat, []) else None)"
proof (induction segs arbitrary: ls)
  case (Cons seg segs)
  then show ?case by (cases ls) auto
qed simp

lemma match_wildcard:
  "matchSegments [(map Lit ls @ [Wild x], pat)] segs =
    (if butlast segs = ls \<and> segs \<noteq> [] \<and> last segs \<noteq> ''/'' then Some (pat, [last segs]) else None)"
proof (induction segs arbitrary: ls)
  case (Cons seg segs)
  then show ?case using match_literals [of "[]" pat segs] by (cases ls) auto
qed simp

lemma match_finished:
  "matchSegments (map (\<lambda>t. ([], snd t)) ts) segs =
    (if segs = [] then case ts of [] \<Rightarrow> None | t # _ \<Rightarrow> Some (snd t, []) else None)"
proof (cases segs)
  case (Cons seg rest)
  have "childLit seg (map (\<lambda>t. ([], snd t)) ts) = []" "childWild (map (\<lambda>t. ([], snd t)) ts) = []"
    "endingWith [TrailingSlash] (map (\<lambda>t. ([], snd t)) ts) = None"
    by (induction ts) simp_all
  then show ?thesis using Cons by simp
qed (cases ts; simp)

lemma match_singles:
  "matchSegments (map (\<lambda>t. ([Lit (fst t)], snd t)) ts) segs =
    (case segs of [a] \<Rightarrow> map_option (\<lambda>p. (p, [])) (map_of ts a) | _ \<Rightarrow> None)"
proof (cases segs)
  case Nil
  then show ?thesis by (induction ts) simp_all
next
  case (Cons seg rest)
  let ?n = "map (\<lambda>t. ([Lit (fst t)], snd t)) ts"
  have "childLit seg ?n = map (\<lambda>t. ([], snd t)) (filter (\<lambda>t. fst t = seg) ts)"
    "childWild ?n = []" "endingWith [TrailingSlash] ?n = None"
    by (induction ts) simp_all
  moreover have "(case filter (\<lambda>t. fst t = seg) ts of [] \<Rightarrow> None | t # _ \<Rightarrow> Some (snd t, [])) =
      map_option (\<lambda>p. (p, [])) (map_of ts seg)"
    by (induction ts) auto
  moreover have "matchSegments ?n (seg # rest) = matchSegments (childLit seg ?n) rest"
    using calculation(2,3) by (simp split: option.split)
  ultimately show ?thesis using Cons by (cases rest) (simp_all add: match_finished del: matchSegments.simps)
qed

lemma server_matches:
  "matchSegments (methodNode serverMux ''POST'') segs =
    (if segs = [''v1'', ''auction''] then Some (serverMux ! 0, []) else None)"
  "matchSegments (methodNode serverMux ''PUT'') segs =
    (if butlast segs = [''v1'', ''bids''] \<and> last segs \<noteq> ''/'' then Some (serverMux ! 1, [last segs]) else None)"
  "matchSegments (methodNode serverMux ''DELETE'') segs =
    (if butlast segs = [''v1'', ''bids''] \<and> last segs \<noteq> ''/'' then Some (serverMux ! 2, [last segs]) else None)"
  "matchSegments (methodNode serverMux ''GET'') segs =
    (if segs = [''healthz''] then Some (serverMux ! 3, []) else if segs = [''readyz''] then Some (serverMux ! 4, [])
     else if segs = [''metrics''] then Some (serverMux ! 5, []) else None)"
  "m \<notin> {''POST'', ''PUT'', ''DELETE'', ''GET''} \<Longrightarrow> matchSegments (methodNode serverMux m) segs = None"
proof -
  show "matchSegments (methodNode serverMux ''POST'') segs =
      (if segs = [''v1'', ''auction''] then Some (serverMux ! 0, []) else None)"
    using match_literals [of "[''v1'', ''auction'']" "serverMux ! 0" segs] by (simp only: server_nodes list.map)
  show "matchSegments (methodNode serverMux ''PUT'') segs =
      (if butlast segs = [''v1'', ''bids''] \<and> last segs \<noteq> ''/'' then Some (serverMux ! 1, [last segs]) else None)"
    "matchSegments (methodNode serverMux ''DELETE'') segs =
      (if butlast segs = [''v1'', ''bids''] \<and> last segs \<noteq> ''/'' then Some (serverMux ! 2, [last segs]) else None)"
    using match_wildcard [of "[''v1'', ''bids'']" "''id''" "serverMux ! 1" segs]
      match_wildcard [of "[''v1'', ''bids'']" "''id''" "serverMux ! 2" segs]
    by (auto simp: server_nodes)
  show "matchSegments (methodNode serverMux ''GET'') segs =
      (if segs = [''healthz''] then Some (serverMux ! 3, []) else if segs = [''readyz''] then Some (serverMux ! 4, [])
       else if segs = [''metrics''] then Some (serverMux ! 5, []) else None)"
    using match_singles [of "[(''healthz'', serverMux ! 3), (''readyz'', serverMux ! 4), (''metrics'', serverMux ! 5)]" segs]
    by (auto simp: server_nodes split: list.splits)
qed (simp add: server_nodes)

lemma resource_cases:
  "resource segs =
    (if segs = [''v1'', ''auction''] then Some ([(''POST'', PostAuction)], [])
     else if segs = [''healthz''] then Some ([(''GET'', GetHealthz), (''HEAD'', GetHealthz)], [])
     else if segs = [''readyz''] then Some ([(''GET'', GetReadyz), (''HEAD'', GetReadyz)], [])
     else if segs = [''metrics''] then Some ([(''GET'', GetMetrics), (''HEAD'', GetMetrics)], [])
     else if butlast segs = [''v1'', ''bids''] \<and> last segs \<noteq> ''/''
     then Some ([(''DELETE'', DeleteBid), (''PUT'', PutBid)], [last segs])
     else None)"
proof -
  have "butlast segs = [a, b] \<longleftrightarrow> (\<exists>i. segs = [a, b, i])" for a b
    by (cases segs rule: rev_cases) auto
  then show ?thesis by (auto simp: resource_def split: list.splits)
qed

text \<open>The multiplexer of the server agrees with the table.\<close>

definition routeOf :: "string \<Rightarrow> string list \<Rightarrow> (route \<times> string list) option" where
  "routeOf m segs =
    (case resource segs of None \<Rightarrow> None | Some (hs, ms) \<Rightarrow> map_option (\<lambda>h. (h, ms)) (map_of hs m))"

lemma server_handler_at:
  "patHandler (serverMux ! 0) = PostAuction" "patHandler (serverMux ! Suc 0) = PutBid"
  "patHandler (serverMux ! 2) = DeleteBid" "patHandler (serverMux ! 3) = GetHealthz"
  "patHandler (serverMux ! 4) = GetReadyz" "patHandler (serverMux ! 5) = GetMetrics"
  by (simp_all add: serverMux_patterns)

lemma server_match_route:
  "m \<noteq> ''HEAD'' \<Longrightarrow>
    map_option (map_prod patHandler id) (matchSegments (methodNode serverMux m) segs) = routeOf m segs"
proof (cases "m \<in> {''POST'', ''PUT'', ''DELETE'', ''GET''}")
  case True
  then show ?thesis
    by (elim insertE emptyE)
      (simp_all add: server_matches server_handler_at routeOf_def resource_cases del: matchSegments.simps)
qed (simp add: server_matches routeOf_def resource_cases del: matchSegments.simps)

lemma routeOf_HEAD: "routeOf ''HEAD'' segs = routeOf ''GET'' segs" "routeOf [] segs = None"
  by (simp_all add: routeOf_def resource_cases)

lemma server_muxMatch:
  "map_option (map_prod patHandler id) (muxMatch serverMux m p) = routeOf m (pathSegments p)"
proof -
  have "matchSegments (methodNode serverMux []) segs = None" "matchSegments (methodNode serverMux ''HEAD'') segs = None" for segs
    by (simp_all add: server_matches del: matchSegments.simps)
  then show ?thesis
    using server_match_route [of m "pathSegments p"] server_match_route [of "''GET''" "pathSegments p"]
    by (cases "m = ''HEAD''")
      (auto simp: muxMatch_def matchPath_segments routeOf_HEAD option.case_eq_if simp del: matchSegments.simps)
qed

lemma server_muxMatch_None: "muxMatch serverMux m p = None \<longleftrightarrow> routeOf m (pathSegments p) = None"
  unfolding server_muxMatch [symmetric] by simp

lemma resource_kinds:
  obtains "resource segs = None" | "resource segs = Some ([(''POST'', PostAuction)], [])"
  | h where "resource segs = Some ([(''GET'', h), (''HEAD'', h)], [])" "h \<in> {GetHealthz, GetReadyz, GetMetrics}"
  | i where "resource segs = Some ([(''DELETE'', DeleteBid), (''PUT'', PutBid)], [i])"
    "segs = [''v1'', ''bids'', i]" "i \<noteq> ''/''"
proof -
  have none: "resource segs = None"
    if "segs \<noteq> [''v1'', ''auction'']" "segs \<noteq> [''healthz'']" "segs \<noteq> [''readyz'']" "segs \<noteq> [''metrics'']"
      "\<not> (butlast segs = [''v1'', ''bids''] \<and> last segs \<noteq> ''/'')"
    using that by (simp only: resource_cases if_False)
  consider "segs = [''v1'', ''auction'']" | "segs = [''healthz'']" | "segs = [''readyz'']" | "segs = [''metrics'']"
    | "butlast segs = [''v1'', ''bids'']" "last segs \<noteq> ''/''" | "resource segs = None"
    by (metis none)
  then show thesis
  proof cases
    case 5
    then have segs: "segs = [''v1'', ''bids'', last segs]"
      by (metis append.simps append_butlast_last_id butlast.simps(1) list.distinct(1))
    have "resource [''v1'', ''bids'', i] = Some ([(''DELETE'', DeleteBid), (''PUT'', PutBid)], [i])" if "i \<noteq> ''/''" for i
      using that by (simp add: resource_def)
    from this [OF 5(2)] segs 5(2) show thesis using that(4) [of "last segs"] by simp
  qed (use that in \<open>simp_all add: resource_cases\<close>)
qed

lemma server_methodsAt:
  "methodsAt serverMux p =
    (case resource (pathSegments p) of None \<Rightarrow> {} | Some (hs, ms) \<Rightarrow> set (map fst hs))"
proof -
  let ?methods = "[''POST'', ''PUT'', ''DELETE'', ''GET'']"
  have methods: "set (map patMethod serverMux) = set ?methods"
    by (auto simp: serverMux_patterns)
  have route: "matchPath (methodNode serverMux m) p \<noteq> None \<longleftrightarrow> routeOf m (pathSegments p) \<noteq> None"
    if "m \<in> set ?methods" for m
  proof -
    have "m \<noteq> ''HEAD''" using that by auto
    from server_match_route [OF this, of "pathSegments p"] show ?thesis
      by (metis matchPath_segments map_option_is_None)
  qed
  have "{m \<in> set (map patMethod serverMux). matchPath (methodNode serverMux m) p \<noteq> None} =
      set (filter (\<lambda>m. routeOf m (pathSegments p) \<noteq> None) ?methods)"
    unfolding set_filter methods by (intro Collect_cong conj_cong refl route)
  note at = methodsAt_def [of serverMux p, unfolded this Let_def]
  show ?thesis
    by (cases "pathSegments p" rule: resource_kinds) (simp_all add: at routeOf_def insert_commute)
qed

lemma resource_slash: "resource (segs @ [''/'']) = None"
  by (simp add: resource_cases)

lemma segments_slash:
  "\<not> (p \<noteq> [] \<and> last p = CHR ''/'') \<Longrightarrow> resource (pathSegments (p @ ''/'')) = None"
  using resource_slash [of "[]"] resource_slash [of "pathSegments p"] pathSegments_slash [of p]
  by (cases "p = []") (simp_all add: pathSegments.simps firstSegment_def)

lemma server_slashRedirect: "\<not> slashRedirect serverMux m p"
proof (cases "p \<noteq> [] \<and> last p = CHR ''/''")
  case False
  then have "muxMatch serverMux m (p @ ''/'') = None"
    by (simp add: server_muxMatch_None routeOf_def segments_slash)
  then show ?thesis by (simp add: slashRedirect_def exactMatch_def)
qed (simp add: slashRedirect_def)

lemma server_matchingMethods:
  "matchingMethods serverMux p =
    (case resource (pathSegments p) of None \<Rightarrow> [] | Some (hs, ms) \<Rightarrow> map fst hs)"
proof -
  have "(if p \<noteq> [] \<and> last p = CHR ''/'' then {} else methodsAt serverMux (p @ ''/'')) = {}"
    using segments_slash [of p] by (auto simp: server_methodsAt)
  then have "matchingMethods serverMux p = sorted_list_of_set (methodsAt serverMux p)"
    by (simp only: matchingMethods_def Un_empty_right)
  moreover have "sorted_list_of_set {''DELETE'', ''PUT''} = [''DELETE'', ''PUT'']"
    "sorted_list_of_set {''GET'', ''HEAD''} = [''GET'', ''HEAD'']" "sorted_list_of_set {''POST''} = [''POST'']"
    by code_simp+
  ultimately show ?thesis
    by (cases "pathSegments p" rule: resource_kinds) (simp_all add: server_methodsAt)
qed

lemma server_found:
  "(case muxMatch serverMux m p of None \<Rightarrow> d | Some (pat, ms) \<Rightarrow> Found (patHandler pat) ms) =
    (case routeOf m (pathSegments p) of None \<Rightarrow> d | Some (rt, ms) \<Rightarrow> Found rt ms)"
  unfolding server_muxMatch [symmetric] by (simp split: option.split)

lemma server_findHandler:
  assumes "m = ''CONNECT'' \<or> cleanPath p = p"
  shows "findHandler serverMux m p =
    (case resource (pathSegments p) of
       None \<Rightarrow> NotFound
     | Some (hs, ms) \<Rightarrow>
         (case map_of hs m of None \<Rightarrow> MethodNotAllowed (map fst hs) | Some rt \<Rightarrow> Found rt ms))"
proof -
  have "(if m = ''CONNECT'' then p else cleanPath p) = p" using assms by auto
  then have "findHandler serverMux m p =
      (case routeOf m (pathSegments p) of
         None \<Rightarrow> (let allowed = matchingMethods serverMux p in
                  if 0 < length allowed then MethodNotAllowed allowed else NotFound)
       | Some (rt, ms) \<Rightarrow> Found rt ms)"
    by (simp only: findHandler_def Let_def server_slashRedirect server_found if_False if_True simp_thms)
  also have "\<dots> = (case resource (pathSegments p) of
       None \<Rightarrow> NotFound
     | Some (hs, ms) \<Rightarrow>
         (case map_of hs m of None \<Rightarrow> MethodNotAllowed (map fst hs) | Some rt \<Rightarrow> Found rt ms))"
    by (cases "pathSegments p" rule: resource_kinds) (simp_all add: routeOf_def server_matchingMethods)
  finally show ?thesis .
qed

lemma server_redirect: "m \<noteq> ''CONNECT'' \<Longrightarrow> cleanPath p \<noteq> p \<Longrightarrow> findHandler serverMux m p = Redirect"
  by (simp add: findHandler_def Let_def)

section \<open>The paths of bids\<close>

definition bidPath :: "string \<Rightarrow> string" where
  "bidPath i = ''/v1/bids/'' @ percentEncode i"

lemma bidPath_segments:
  assumes "i \<noteq> []"
  shows "cleanPath (bidPath i) = bidPath i" "pathSegments (bidPath i) = [''v1'', ''bids'', i]"
proof -
  let ?segs = "[''v1'', ''bids'', percentEncode i]"
  have "CHR ''/'' \<notin> set (percentEncode i)" "CHR ''.'' \<notin> set (percentEncode i)"
    using percentEncode_plain [of i] by auto
  moreover have "percentEncode i \<noteq> []" using assms by (auto simp: percentEncode_def percentByte_def)
  ultimately have plain: "list_all plainSegment ?segs" by (auto simp: plainSegment_def)
  have path: "bidPath i = rooted ?segs" by (simp add: bidPath_def rooted_def)
  show "cleanPath (bidPath i) = bidPath i" unfolding path using plain by (rule cleanPath_rooted) simp
  have "pathSegments (rooted ?segs @ []) = map pathUnescape ?segs @ pathSegments []"
    using plain by (rule pathSegments_rooted) simp_all
  moreover have "map pathUnescape ?segs = [''v1'', ''bids'', i]" by (simp add: pathUnescape_def)
  ultimately show "pathSegments (bidPath i) = [''v1'', ''bids'', i]"
    unfolding path by (simp add: pathSegments.simps [of "[]"])
qed

lemma bidPath_found:
  assumes "i \<noteq> []" and "i \<noteq> ''/''"
  shows "muxServe serverMux ''PUT'' (bidPath i) = Found PutBid [i]"
    "muxServe serverMux ''DELETE'' (bidPath i) = Found DeleteBid [i]"
proof -
  have "bidPath i \<noteq> ''*''" by (simp add: bidPath_def)
  moreover have "resource [''v1'', ''bids'', i] = Some ([(''DELETE'', DeleteBid), (''PUT'', PutBid)], [i])"
    using assms(2) by (simp add: resource_def)
  ultimately show "muxServe serverMux ''PUT'' (bidPath i) = Found PutBid [i]"
    "muxServe serverMux ''DELETE'' (bidPath i) = Found DeleteBid [i]"
    using bidPath_segments [OF assms(1)] by (simp_all add: muxServe_def server_findHandler)
qed

lemma server_muxServe:
  "muxServe serverMux m p =
    (if p = ''*'' then BadRequest
     else if m \<noteq> ''CONNECT'' \<and> cleanPath p \<noteq> p then Redirect
     else
       case resource (pathSegments p) of
         None \<Rightarrow> NotFound
       | Some (hs, ms) \<Rightarrow>
           (case map_of hs m of None \<Rightarrow> MethodNotAllowed (map fst hs) | Some rt \<Rightarrow> Found rt ms))"
  using server_findHandler [of m p] server_redirect [of m p]
  by (cases "m \<noteq> ''CONNECT'' \<and> cleanPath p \<noteq> p") (auto simp: muxServe_def)

text \<open>What is known of a request that reaches a handler.\<close>

lemma found_bid:
  assumes "muxServe serverMux m p = Found rt ms" and "rt = PutBid \<or> rt = DeleteBid"
  obtains i where "pathSegments p = [''v1'', ''bids'', i]" "ms = [i]" "i \<noteq> []" "i \<noteq> ''/''"
    "m = (if rt = PutBid then ''PUT'' else ''DELETE'')"
proof -
  have clean: "m = ''CONNECT'' \<or> cleanPath p = p" and table: "routeOf m (pathSegments p) = Some (rt, ms)"
    using assms(1) by (auto simp: server_muxServe routeOf_def split: if_splits option.splits)
  show ?thesis
  proof (cases "pathSegments p" rule: resource_kinds)
    case (4 i)
    then have m: "m = (if rt = PutBid then ''PUT'' else ''DELETE'')" and ms: "ms = [i]"
      using table by (auto simp: routeOf_def split: if_splits)
    with clean have "cleanPath p = p" by (auto split: if_splits)
    from clean_segments_nonempty [OF this] have "i \<noteq> []" unfolding 4(2) by auto
    with 4 ms m show ?thesis by (intro that)
  qed (use table assms(2) in \<open>auto simp: routeOf_def split: if_splits\<close>)
qed

section \<open>What a request changes\<close>

text \<open>Two states of Redis agree on every bid but those with the given ID.\<close>

definition agreeExcept :: "'r redis \<Rightarrow> RedisStore \<Rightarrow> string \<Rightarrow> 'r \<Rightarrow> 'r \<Rightarrow> bool" where
  "agreeExcept R st i x y \<longleftrightarrow>
    (\<forall>p j. j \<noteq> i \<longrightarrow> HGET R y (activeKey st p) j = HGET R x (activeKey st p) j
      \<and> HGET R y (versionKey st p) j = HGET R x (versionKey st p) j)"

lemma agreeExcept_refl [simp]: "agreeExcept R st i x x"
  by (simp add: agreeExcept_def)

lemma agreeExcept_outcome:
  assumes "holds R st g ps x" and "mutationOutcome R st g ps p (mutate (p, i) rv pl g) e err y"
  shows "agreeExcept R st i x y"
  using mutationOutcome_state [OF assms(2)] assms(1)
  by (auto simp: agreeExcept_def holds_def represents_def mutate_def acceptMutation_def
      split: option.splits if_splits)

lemma Upsert_agree:
  assumes "holds R st g ps (server w)" and "bidID b = i"
  shows "agreeExcept R st i (server w) (server (snd (RedisStore_Upsert R enc st b w)))"
proof (cases "Bid_Validate (Bid_Normalize b)")
  case None
  from RedisStore_Upsert_outcome [OF assms(1) surjective_pairing None, of enc]
  show ?thesis unfolding assms(2) by (rule agreeExcept_outcome [OF assms(1)])
qed (simp add: RedisStore_Upsert_def Let_def)

lemma Delete_agree:
  assumes "holds R st g ps (server w)"
  shows "agreeExcept R st i (server w) (server (snd (RedisStore_Delete R st p i rv w)))"
proof (cases "p = [] \<or> i = [] \<or> rv = 0 \<or> word_of_int maxInt64 < rv")
  case False
  from RedisStore_Delete_outcome [OF assms surjective_pairing False]
  show ?thesis by (rule agreeExcept_outcome [OF assms])
qed (simp add: RedisStore_Delete_def)

lemma upsert_handler_store:
  "srvStore (snd (Server_upsertBid S decodeBid r s)) = srvStore s
    \<or> Server_authorized r s \<and> (\<exists>bid. decodeJSON decodeBid r = Some bid \<and> bidID (Bid_Normalize bid) = rqPathID r
        \<and> srvStore (snd (Server_upsertBid S decodeBid r s)) = snd (storeUpsert S (Bid_Normalize bid) (srvStore s)))"
  by (auto simp: Server_upsertBid_def Let_def split: option.splits prod.splits if_splits)

lemma delete_handler_store:
  "srvStore (snd (Server_deleteBid S r s)) = srvStore s
    \<or> Server_authorized r s
      \<and> (\<exists>rv. srvStore (snd (Server_deleteBid S r s)) = snd (storeDelete S (rqPlacement r) (rqPathID r) rv (srvStore s)))"
  by (cases "ParseUint (rqRevision r)")
    (auto simp: Server_deleteBid_def Let_def split_beta split: option.splits)

lemma serve_agree:
  assumes held: "holds R st g ps (server (srvStore s))" and run: "serveHTTP R st ck rt r s = (response, s')"
  shows "server (srvStore s') = server (srvStore s)
    \<or> (rt = PutBid \<or> rt = DeleteBid) \<and> Server_authorized r s
      \<and> agreeExcept R st (rqPathID r) (server (srvStore s)) (server (srvStore s'))"
proof -
  have s': "s' = snd (serveHTTP R st ck rt r s)" using run by simp
  note serve = serveHTTP_def Server_Handler_def Let_def split_beta
  show ?thesis
  proof (cases rt)
    case PostAuction
    then show ?thesis using auction_store [of unmarshalRequest ck r s] by (simp add: s' serve)
  next
    case PutBid
    then have "srvStore s' = srvStore (snd (Server_upsertBid (jsonStore R st) (unmarshalBid True) r s))"
      by (simp add: s' serve)
    with upsert_handler_store [of "jsonStore R st" "unmarshalBid True" r s] PutBid show ?thesis
      by (auto simp: jsonStore_def intro!: Upsert_agree [OF held])
  next
    case DeleteBid
    then have "srvStore s' = srvStore (snd (Server_deleteBid (jsonStore R st) r s))" by (simp add: s' serve)
    with delete_handler_store [of "jsonStore R st" r s] DeleteBid show ?thesis
      by (auto simp: jsonStore_def intro: Delete_agree [OF held])
  next
    case GetReadyz
    then have "srvStore s' = snd (RedisStore_Ping (srvStore s))"
      using ready_store [of "jsonStore R st" s] by (simp add: s' serve jsonStore_def)
    then show ?thesis by (simp add: Ping_server)
  qed (simp_all add: s' serve Server_health_def Server_metricsEndpoint_def)
qed

section \<open>Properties\<close>

text \<open>
  C38: routing. The multiplexer answers exactly as the table \<open>resource\<close> says: a path that is not
  canonical is redirected, an unknown one is not found, a known one with a foreign method is
  refused with the allowed methods, and everything else reaches its handler, with \<open>HEAD\<close> as \<open>GET\<close>.
  A bid can be addressed exactly when its ID is neither empty nor a single slash.
\<close>

theorem routes_exact:
  "muxServe serverMux m p =
    (if p = ''*'' then BadRequest
     else if m \<noteq> ''CONNECT'' \<and> cleanPath p \<noteq> p then Redirect
     else
       case resource (pathSegments p) of
         None \<Rightarrow> NotFound
       | Some (hs, ms) \<Rightarrow>
           (case map_of hs m of None \<Rightarrow> MethodNotAllowed (map fst hs) | Some rt \<Rightarrow> Found rt ms))
    \<and> (muxServe serverMux ''PUT'' (bidPath i) = Found PutBid [i] \<longleftrightarrow> i \<noteq> [] \<and> i \<noteq> ''/'')
    \<and> ((\<exists>q. muxServe serverMux ''PUT'' q = Found PutBid [i]) \<longleftrightarrow> i \<noteq> [] \<and> i \<noteq> ''/'')
    \<and> ((\<exists>q. muxServe serverMux ''DELETE'' q = Found DeleteBid [i]) \<longleftrightarrow> i \<noteq> [] \<and> i \<noteq> ''/'')"
proof -
  have "i \<noteq> [] \<and> i \<noteq> ''/''" if "muxServe serverMux m q = Found rt [i]" "rt = PutBid \<or> rt = DeleteBid" for m q rt
    using found_bid [OF that] by (metis list.inject)
  then show ?thesis using bidPath_found [of i] server_muxServe [of m p] by blast
qed

text \<open>
  C32: a bid changes only by its administrator. Whatever request an instance serves, whatever the
  network does to it, when the payload or the revision of a bid in the shared Redis differs
  afterwards, the request was a \<open>PUT\<close> or \<open>DELETE\<close> of the path of that bid and carried the admin token,
  if one is configured.
\<close>

theorem bid_changes_only_by_admin:
  assumes reach: "deploy_reachable R st d"
    and run: "handleHTTP R st ck r ((depServers d n)\<lparr>srvStore := depWorld d\<rparr>) = (a, s')"
    and change: "HGET R (server (srvStore s')) (activeKey st p) i \<noteq> HGET R (server (depWorld d)) (activeKey st p) i
      \<or> HGET R (server (srvStore s')) (versionKey st p) i \<noteq> HGET R (server (depWorld d)) (versionKey st p) i"
  shows "rrMethod r \<in> {''PUT'', ''DELETE''} \<and> pathSegments (rrPath r) = [''v1'', ''bids'', i]
    \<and> (cfgAdminToken (srvConfig (depServers d n)) = []
      \<or> rrAuthorization r \<in> {cfgAdminToken (srvConfig (depServers d n)),
          ''Bearer '' @ cfgAdminToken (srvConfig (depServers d n))})"
proof -
  let ?s = "(depServers d n)\<lparr>srvStore := depWorld d\<rparr>"
  obtain g ps where held: "holds R st g ps (server (srvStore ?s))"
    using deploy_jsonHeld [OF reach] by (auto simp: jsonHeld_def)
  have "server (srvStore s') \<noteq> server (srvStore ?s)" using change by auto
  then obtain rt ms where found: "muxServe serverMux (rrMethod r) (rrPath r) = Found rt ms"
    and "serveHTTP R st ck rt (requestOf r ms) ?s = (fst (serveHTTP R st ck rt (requestOf r ms) ?s), s')"
    using run by (auto simp: handleHTTP_def prod_eq_iff split: muxResult.splits)
  from serve_agree [OF held this(2)] \<open>server (srvStore s') \<noteq> server (srvStore ?s)\<close>
  have rt: "rt = PutBid \<or> rt = DeleteBid" and auth: "Server_authorized (requestOf r ms) ?s"
    and agree: "agreeExcept R st (rqPathID (requestOf r ms)) (server (depWorld d)) (server (srvStore s'))" by auto
  obtain j where j: "pathSegments (rrPath r) = [''v1'', ''bids'', j]" "ms = [j]"
    "rrMethod r = (if rt = PutBid then ''PUT'' else ''DELETE'')"
    using found_bid [OF found rt] by metis
  have "rqPathID (requestOf r ms) = j" by (simp add: requestOf_def j(2))
  then have "i = j" using agree change unfolding agreeExcept_def by metis
  then show ?thesis using j rt authorized_header [OF auth] by (auto simp: requestOf_def)
qed

definition rawPut :: rawRequest where
  "rawPut = \<lparr>rrMethod = ''PUT'', rrPath = ''/v1/bids/a'', rrQuery = ''placement_id=p&revision=3'',
     rrBody = marshalBid (storedBid 2), rrAuthorization = ''Bearer secret'', rrXRequestID = []\<rparr>"

lemma rawPut_handled:
  "handleHTTP memoryRedis exampleStore exampleClock rawPut
     ((depServers emptyDeployment 0)\<lparr>srvStore := depWorld emptyDeployment\<rparr>) = (Handled (fst putResult), snd putResult)"
proof -
  have "muxServe serverMux ''PUT'' ''/v1/bids/a'' = Found PutBid [''a'']" by code_simp
  moreover have "queryGet ''placement_id=p&revision=3'' ''placement_id'' = ''p''"
    "queryGet ''placement_id=p&revision=3'' ''revision'' = ''3''" by code_simp+
  then have "requestOf rawPut [''a''] = putRequest"
    by (simp add: requestOf_def rawPut_def putRequest_def exampleHTTP_def)
  moreover have "rrMethod rawPut = ''PUT''" "rrPath rawPut = ''/v1/bids/a''" by (simp_all add: rawPut_def)
  ultimately show ?thesis by (simp add: handleHTTP_def map_prod_def split_beta)
qed

theorem bid_changes_only_by_admin_witness:
  "rrMethod rawPut \<in> {''PUT'', ''DELETE''} \<and> pathSegments (rrPath rawPut) = [''v1'', ''bids'', ''a'']"
proof -
  have reach: "deploy_reachable memoryRedis exampleStore emptyDeployment"
    by (rule deploy_init) (simp add: emptyDeployment_def emptyMemory_holds)
  have "srvStore (snd putResult) = jsonWorld" using putDeployment_world(2) by (simp add: putDeployment_def)
  moreover have "HGET memoryRedis (server (depWorld emptyDeployment)) (activeKey exampleStore ''p'') ''a'' = None"
    using emptyMemory_holds [of exampleStore] by (simp add: emptyDeployment_def holds_def represents_def)
  ultimately have "HGET memoryRedis (server (srvStore (snd putResult))) (activeKey exampleStore ''p'') ''a''
      \<noteq> HGET memoryRedis (server (depWorld emptyDeployment)) (activeKey exampleStore ''p'') ''a''"
    using jsonWorld_active by simp
  then show ?thesis using bid_changes_only_by_admin [OF reach rawPut_handled, of "''p''" "''a''"] by blast
qed

text \<open>
  The profiler is not on the public listener: there a path below \<open>/debug\<close> is redirected to its canonical
  form or not found.
\<close>

theorem profiler_is_private:
  assumes "pathSegments p = ''debug'' # segs"
  shows "muxServe (hsHandler (httpServerOf config)) m p \<in> {BadRequest, Redirect, NotFound}"
proof -
  have "resource (pathSegments p) = None" unfolding assms resource_def by (auto split: list.split)
  then show ?thesis by (auto simp: httpServerOf_def server_muxServe)
qed

text \<open>The profiler's own listener, with the trailing slash of its index.\<close>

lemma debugMux_routes:
  "muxServe debugMux ''GET'' ''/debug/pprof/'' = Found Index []"
  "muxServe debugMux ''GET'' ''/debug/pprof/heap'' = Found Index []"
  "muxServe debugMux ''HEAD'' ''/debug/pprof/trace'' = Found Trace []"
  "muxServe debugMux ''GET'' ''/debug/pprof'' = Redirect"
  "muxServe debugMux ''POST'' ''/debug/pprof/symbol'' = MethodNotAllowed [''GET'', ''HEAD'']"
  "muxServe debugMux ''GET'' ''/v1/auction'' = NotFound"
  by code_simp+

end
