(* ===== verification/Subscription.thy ===== *)
theory Subscription
  imports Redis_Cache
begin

text \<open>
  \<open>RedisStore.Subscribe\<close> of \<open>internal/ads/store.go\<close> and \<open>BidCache.subscribeLoop\<close> of \<open>cache.go\<close>: the
  goroutine that forwards invalidations from the Redis client through a channel of 128 messages, and
  the loop that reads this channel and subscribes again when it ends. \<open>cache_step\<close> keeps one list of
  undelivered invalidations that arrive in order or are lost; here that list is shown to be what the
  goroutines implement.
\<close>

section \<open>Definitions\<close>

text \<open>
  One subscription: the messages the Redis client will yield, the message in the hand of the
  forwarder, which it has received and not yet sent, the channel \<open>out\<close>, and whether the forwarder has
  closed it and returned.
\<close>

record subscription =
  subRemote :: "string list"
  subHand :: "string option"
  subOut :: "string list"
  subClosed :: bool

definition newSubscription :: subscription where
  "newSubscription = \<lparr>subRemote = [], subHand = None, subOut = [], subClosed = False\<rparr>"

definition outCapacity :: nat where
  "outCapacity = 128"

text \<open>Where \<open>subscribeLoop\<close> is: at the loop condition, in the pause after a failure, in the inner loop, or past the end.\<close>

datatype subLoop = Checking | Pausing | Reading subscription | Ended

text \<open>The system of \<open>cache_step\<close>, whose own list of events is not used, the context and the loop.\<close>

record 's subSystem =
  ssSystem :: "'s cacheSystem"
  ssDone :: bool
  ssLoop :: subLoop

fun publishTo :: "string \<Rightarrow> subLoop \<Rightarrow> subLoop" where
  "publishTo p (Reading c) = Reading (c\<lparr>subRemote := subRemote c @ [p]\<rparr>)"
| "publishTo p l = l"

text \<open>The messages on their way to the cache, and the system with them as its events.\<close>

fun pending :: "subLoop \<Rightarrow> string list" where
  "pending (Reading c) = subOut c @ (case subHand c of None \<Rightarrow> [] | Some p \<Rightarrow> [p]) @ subRemote c"
| "pending l = []"

definition absSystem :: "'s subSystem \<Rightarrow> 's cacheSystem" where
  "absSystem x = (ssSystem x)\<lparr>sysEvents := pending (ssLoop x)\<rparr>"

text \<open>
  \<open>sub_ends\<close> is the end of the client's channel, which the forwarder's loop is over; without it the
  forwarder looks at the context only while it holds a message.
\<close>

inductive sub_step ::
    "'s BidStore \<Rightarrow> ('s \<Rightarrow> 's \<Rightarrow> string \<Rightarrow> bool) \<Rightarrow> 's subSystem \<Rightarrow> 's subSystem \<Rightarrow> bool"
  for S :: "'s BidStore" and mut :: "'s \<Rightarrow> 's \<Rightarrow> string \<Rightarrow> bool" where
  sub_cache: "cache_step S mut (absSystem x) y \<Longrightarrow> sysEvents y = pending (ssLoop x) \<Longrightarrow>
    cntSubscriptionFailures (cacheStats (sysCache y)) = cntSubscriptionFailures (cacheStats (sysCache (ssSystem x))) \<Longrightarrow>
    sub_step S mut x (x\<lparr>ssSystem := y\<rparr>)"
| sub_mutate: "mut (sysStore (ssSystem x)) s' p \<Longrightarrow>
    sub_step S mut x (x\<lparr>ssSystem := (ssSystem x)\<lparr>sysStore := s'\<rparr>, ssLoop := publishTo p (ssLoop x)\<rparr>)"
| sub_cancel: "sub_step S mut x (x\<lparr>ssDone := True\<rparr>)"
| sub_lose: "ssLoop x = Reading c \<Longrightarrow> subRemote c = pre @ p # post \<Longrightarrow>
    sub_step S mut x (x\<lparr>ssLoop := Reading (c\<lparr>subRemote := pre @ post\<rparr>)\<rparr>)"
| sub_receive: "ssLoop x = Reading c \<Longrightarrow> \<not> subClosed c \<Longrightarrow> subHand c = None \<Longrightarrow> subRemote c = p # ps \<Longrightarrow>
    sub_step S mut x (x\<lparr>ssLoop := Reading (c\<lparr>subRemote := ps, subHand := Some p\<rparr>)\<rparr>)"
| sub_send: "ssLoop x = Reading c \<Longrightarrow> subHand c = Some p \<Longrightarrow> length (subOut c) < outCapacity \<Longrightarrow>
    sub_step S mut x (x\<lparr>ssLoop := Reading (c\<lparr>subHand := None, subOut := subOut c @ [p]\<rparr>)\<rparr>)"
| sub_return: "ssLoop x = Reading c \<Longrightarrow> subHand c = Some p \<Longrightarrow> ssDone x \<Longrightarrow>
    sub_step S mut x (x\<lparr>ssLoop := Reading (c\<lparr>subHand := None, subClosed := True\<rparr>)\<rparr>)"
| sub_ends: "ssLoop x = Reading c \<Longrightarrow> subHand c = None \<Longrightarrow>
    sub_step S mut x (x\<lparr>ssLoop := Reading (c\<lparr>subClosed := True\<rparr>)\<rparr>)"
| sub_deliver: "ssLoop x = Reading c \<Longrightarrow> subOut c = p # ps \<Longrightarrow>
    sub_step S mut x (x\<lparr>ssSystem := (ssSystem x)\<lparr>sysCache := BidCache_RefreshAsync p (sysCache (ssSystem x))\<rparr>,
      ssLoop := Reading (c\<lparr>subOut := ps\<rparr>)\<rparr>)"
| sub_close: "ssLoop x = Reading c \<Longrightarrow> subOut c = [] \<Longrightarrow> subClosed c \<Longrightarrow>
    sub_step S mut x (x\<lparr>ssLoop := Checking\<rparr>)"
| sub_subscribe: "ssLoop x = Checking \<Longrightarrow> \<not> ssDone x \<Longrightarrow>
    sub_step S mut x (x\<lparr>ssLoop := Reading newSubscription\<rparr>)"
| sub_fail: "ssLoop x = Checking \<Longrightarrow> \<not> ssDone x \<Longrightarrow>
    sub_step S mut x (x\<lparr>ssSystem := (ssSystem x)\<lparr>sysCache := countSubscriptionFailure (sysCache (ssSystem x))\<rparr>,
      ssLoop := Pausing\<rparr>)"
| sub_timer: "ssLoop x = Pausing \<Longrightarrow> sub_step S mut x (x\<lparr>ssLoop := Checking\<rparr>)"
| sub_end: "ssLoop x = Checking \<or> ssLoop x = Pausing \<Longrightarrow> ssDone x \<Longrightarrow>
    sub_step S mut x (x\<lparr>ssLoop := Ended\<rparr>)"

definition initSubSystem :: "CachePolicy \<Rightarrow> 's \<Rightarrow> 's subSystem" where
  "initSubSystem policy s = \<lparr>ssSystem = initCacheSystem policy s, ssDone = False, ssLoop = Checking\<rparr>"

inductive sub_reachable ::
    "'s BidStore \<Rightarrow> ('s \<Rightarrow> 's \<Rightarrow> string \<Rightarrow> bool) \<Rightarrow> CachePolicy \<Rightarrow> 's \<Rightarrow> 's subSystem \<Rightarrow> bool"
  for S :: "'s BidStore" and mut :: "'s \<Rightarrow> 's \<Rightarrow> string \<Rightarrow> bool" and policy :: CachePolicy and s0 :: 's where
  sub_init: "sub_reachable S mut policy s0 (initSubSystem policy s0)"
| sub_next: "sub_reachable S mut policy s0 x \<Longrightarrow> sub_step S mut x z \<Longrightarrow> sub_reachable S mut policy s0 z"

section \<open>The loop implements the list of events\<close>

lemma absSystem_sel [simp]:
  "sysStore (absSystem x) = sysStore (ssSystem x)" "sysCache (absSystem x) = sysCache (ssSystem x)"
  "sysRunning (absSystem x) = sysRunning (ssSystem x)" "sysReconcile (absSystem x) = sysReconcile (ssSystem x)"
  "sysEvents (absSystem x) = pending (ssLoop x)"
  by (simp_all add: absSystem_def)

lemma same_events: "sysEvents y = es \<Longrightarrow> y\<lparr>sysEvents := es\<rparr> = y"
  by (cases y) auto

lemma events_then_cache: "y\<lparr>sysEvents := es, sysCache := c\<rparr> = y\<lparr>sysCache := c, sysEvents := es\<rparr>"
  by (cases y) simp

lemma lose_all:
  assumes "cache_reachable S mut policy s0 y"
  shows "cache_reachable S mut policy s0 (y\<lparr>sysEvents := []\<rparr>)"
  using assms
proof (induction "sysEvents y" arbitrary: y)
  case Nil
  then have "y\<lparr>sysEvents := []\<rparr> = y" by (intro same_events) simp
  then show ?case using Nil(2) by (simp only:)
next
  case (Cons p es)
  have "cache_step S mut y (y\<lparr>sysEvents := [] @ es\<rparr>)"
    using Cons(2) by (intro step_lose [where p = p]) simp
  with Cons.prems have "cache_reachable S mut policy s0 (y\<lparr>sysEvents := es\<rparr>)" by (auto intro: reach_step)
  from Cons(1) [OF _ this] show ?case by simp
qed

lemma sub_step_simulates:
  assumes "sub_step S mut x z" and reach: "cache_reachable S mut policy s0 (absSystem x)"
  shows "cache_reachable S mut policy s0 (absSystem z)"
  using assms(1)
proof cases
  case (sub_cache y)
  then have "absSystem z = y" by (simp add: absSystem_def same_events)
  then show ?thesis using reach_step [OF reach sub_cache(2)] by simp
next
  case (sub_mutate s' p)
  let ?y = "(absSystem x)\<lparr>sysStore := s', sysEvents := pending (ssLoop x) @ [p]\<rparr>"
  have y: "cache_reachable S mut policy s0 ?y"
    using reach_step [OF reach step_mutate [of mut "absSystem x" s' p]] sub_mutate by simp
  show ?thesis
  proof (cases "ssLoop x")
    case (Reading c)
    with sub_mutate y show ?thesis by (simp add: absSystem_def)
  qed (use sub_mutate lose_all [OF y] in \<open>simp_all add: absSystem_def\<close>)
next
  case (sub_lose c pre p post)
  then show ?thesis
    using reach_step [OF reach step_lose [of "absSystem x" "subOut c @ (case subHand c of None \<Rightarrow> [] | Some p \<Rightarrow> [p]) @ pre" p post]]
    by (simp add: absSystem_def)
next
  case (sub_return c p)
  then show ?thesis
    using reach_step [OF reach step_lose [of "absSystem x" "subOut c" p "subRemote c"]] by (simp add: absSystem_def)
next
  case (sub_deliver c p ps)
  then show ?thesis
    using reach_step [OF reach step_event [of "absSystem x" p]] by (simp add: absSystem_def events_then_cache)
next
  case (sub_close c)
  then show ?thesis using lose_all [OF reach] by (simp add: absSystem_def)
next
  case sub_fail
  then show ?thesis
    using reach_step [OF reach step_subscribe_fails [of S mut "absSystem x"]] by (simp add: absSystem_def events_then_cache)
qed (use reach in \<open>auto simp: absSystem_def newSubscription_def\<close>)

definition goodLoop :: "'s subSystem \<Rightarrow> bool" where
  "goodLoop x \<longleftrightarrow> (case ssLoop x of
     Reading c \<Rightarrow> length (subOut c) \<le> outCapacity \<and> (subClosed c \<longrightarrow> subHand c = None)
   | Ended \<Rightarrow> ssDone x
   | _ \<Rightarrow> True)"

lemma goodLoop_step: "sub_step S mut x z \<Longrightarrow> goodLoop x \<Longrightarrow> goodLoop z"
proof (induction rule: sub_step.induct)
  case (sub_mutate x s' p)
  then show ?case by (cases "ssLoop x") (simp_all add: goodLoop_def)
qed (auto simp: goodLoop_def newSubscription_def split: subLoop.splits)

section \<open>Properties\<close>

text \<open>
  C26: the goroutines implement the list of events. Whatever Redis, the network, the forwarder, the loop
  and the rest of the cache do, the cache is in a state that is reachable when invalidations arrive
  one by one in the order of their publication or are lost; the channel never holds more than 128
  messages, the forwarder has nothing to send once it is closed, and the loop ends only with the
  context.
\<close>

theorem subscription_refines_events:
  assumes "sub_reachable S mut policy s0 x"
  shows "cache_reachable S mut policy s0 (absSystem x)
    \<and> (\<forall>c. ssLoop x = Reading c \<longrightarrow> length (subOut c) \<le> 128 \<and> (subClosed c \<longrightarrow> subHand c = None))
    \<and> (ssLoop x = Ended \<longrightarrow> ssDone x)"
proof -
  from assms have "cache_reachable S mut policy s0 (absSystem x) \<and> goodLoop x"
  proof (induction rule: sub_reachable.induct)
    case sub_init
    have "absSystem (initSubSystem policy s0) = initCacheSystem policy s0"
      by (simp add: absSystem_def initSubSystem_def initCacheSystem_def)
    then show ?case using reach_init [of S mut policy s0] by (simp add: goodLoop_def initSubSystem_def)
  next
    case (sub_next x z)
    then show ?case using sub_step_simulates [of S mut x z] goodLoop_step [of S mut x z] by blast
  qed
  then show ?thesis by (auto simp: goodLoop_def outCapacity_def)
qed

text \<open>A message on its way through the loop.\<close>

abbreviation exampleMutation :: "memory world \<Rightarrow> memory world \<Rightarrow> string \<Rightarrow> bool" where
  "exampleMutation \<equiv> redisMutation memoryRedis exampleEnc exampleStore"

definition deliveredSystem :: "memory world subSystem" where
  "deliveredSystem =
    \<lparr>ssSystem = exampleInit\<lparr>sysStore := writtenWorld, sysCache := BidCache_RefreshAsync ''p'' (sysCache exampleInit)\<rparr>,
     ssDone = False, ssLoop = Reading newSubscription\<rparr>"

lemma deliveredSystem_reachable:
  "sub_reachable exampleRedisStore exampleMutation (DefaultCachePolicy second) exampleWorld deliveredSystem"
proof -
  let ?at = "\<lambda>y c. \<lparr>ssSystem = y, ssDone = False, ssLoop = Reading c\<rparr>"
  let ?y = "exampleInit\<lparr>sysStore := writtenWorld\<rparr>"
  let ?step = "sub_step exampleRedisStore exampleMutation"
  have mutation: "exampleMutation exampleWorld writtenWorld ''p''"
    unfolding redisMutation_def by (intro disjI1 exI [of _ "storedBid 2"]) simp
  have "?step (initSubSystem (DefaultCachePolicy second) exampleWorld) (?at exampleInit newSubscription)"
    using sub_subscribe [of "initSubSystem (DefaultCachePolicy second) exampleWorld"] by (simp add: initSubSystem_def)
  moreover have "?step (?at exampleInit newSubscription) (?at ?y (newSubscription\<lparr>subRemote := [''p'']\<rparr>))"
    using sub_mutate [of exampleMutation "?at exampleInit newSubscription" writtenWorld "''p''"] mutation
    by (simp add: newSubscription_def initCacheSystem_def)
  moreover have "?step (?at ?y (newSubscription\<lparr>subRemote := [''p'']\<rparr>)) (?at ?y (newSubscription\<lparr>subHand := Some ''p''\<rparr>))"
    using sub_receive [of "?at ?y (newSubscription\<lparr>subRemote := [''p'']\<rparr>)" "newSubscription\<lparr>subRemote := [''p'']\<rparr>" "''p''" "[]"]
    by (simp add: newSubscription_def)
  moreover have "?step (?at ?y (newSubscription\<lparr>subHand := Some ''p''\<rparr>)) (?at ?y (newSubscription\<lparr>subOut := [''p'']\<rparr>))"
    using sub_send [of "?at ?y (newSubscription\<lparr>subHand := Some ''p''\<rparr>)" "newSubscription\<lparr>subHand := Some ''p''\<rparr>" "''p''"]
    by (simp add: newSubscription_def outCapacity_def)
  moreover have "?step (?at ?y (newSubscription\<lparr>subOut := [''p'']\<rparr>)) deliveredSystem"
    using sub_deliver [of "?at ?y (newSubscription\<lparr>subOut := [''p'']\<rparr>)" "newSubscription\<lparr>subOut := [''p'']\<rparr>" "''p''" "[]"]
    by (simp add: newSubscription_def deliveredSystem_def)
  ultimately show ?thesis by (meson sub_init sub_next)
qed

theorem subscription_refines_events_witness:
  "cache_reachable exampleRedisStore exampleMutation (DefaultCachePolicy second) exampleWorld (absSystem deliveredSystem)
    \<and> cacheStarted (sysCache (absSystem deliveredSystem)) = [''p'']"
proof -
  have "cacheStarted (sysCache (absSystem deliveredSystem)) = [''p'']"
    by (simp add: deliveredSystem_def initCacheSystem_def NewBidCacheWithPolicy_def BidCache_RefreshAsync_def)
  then show ?thesis using subscription_refines_events [OF deliveredSystem_reachable] by blast
qed

end
