(* ===== verification/Shutdown.thy ===== *)
theory Shutdown
  imports Startup
begin

text \<open>
  \<open>main\<close> of \<open>cmd/adserver/main.go\<close> from the listeners to its return: after the signal it shuts down the
  HTTP server with a deadline, then the profiler's server, closes the store, and the deferred call
  closes the decision logger. Connections that are still active at the deadline are left running.
  Handlers are \<open>Server_Handler\<close>; the writer of the decision log takes its turns in between.
\<close>

section \<open>Definitions\<close>

datatype phase = Listening | Draining | HTTPStopped | DebugStopped | StoreClosed | LogClosed | Exited

text \<open>\<open>prActive\<close> counts the connections that may still hand a request to the handlers.\<close>

record 's process =
  prServer :: "'s Server"
  prPhase :: phase
  prActive :: nat
  prTimedOut :: bool
  prPanicked :: bool

fun panicked :: "'a panicking \<Rightarrow> bool" where
  "panicked Panics \<longleftrightarrow> True"
| "panicked (Returns a) \<longleftrightarrow> False"

inductive main_step ::
    "'s BidStore \<Rightarrow> (string \<Rightarrow> AuctionRequest option) \<Rightarrow> (string \<Rightarrow> Bid option) \<Rightarrow> 's process \<Rightarrow> 's process \<Rightarrow> bool"
  for S :: "'s BidStore" and decodeRequest :: "string \<Rightarrow> AuctionRequest option" and decodeBid :: "string \<Rightarrow> Bid option"
  where
  main_connect: "prPhase x = Listening \<Longrightarrow>
    main_step S decodeRequest decodeBid x (x\<lparr>prActive := prActive x + 1\<rparr>)"
| main_disconnect: "0 < prActive x \<Longrightarrow>
    main_step S decodeRequest decodeBid x (x\<lparr>prActive := prActive x - 1\<rparr>)"
| main_request: "0 < prActive x \<Longrightarrow> prPhase x \<noteq> Exited \<Longrightarrow>
    Server_Handler S decodeRequest decodeBid ck rt r (prServer x) = (response, s) \<Longrightarrow>
    main_step S decodeRequest decodeBid x
      (x\<lparr>prServer := s, prPanicked := prPanicked x \<or> panicked response\<rparr>)"
| main_write: "srvDecisionLogger (prServer x) = Some l \<Longrightarrow> prPhase x \<noteq> Exited \<Longrightarrow>
    main_step S decodeRequest decodeBid x
      (x\<lparr>prServer := (prServer x)\<lparr>srvDecisionLogger := Some (DecisionLogger_run l)\<rparr>\<rparr>)"
| main_signal: "prPhase x = Listening \<Longrightarrow> main_step S decodeRequest decodeBid x (x\<lparr>prPhase := Draining\<rparr>)"
| main_drained: "prPhase x = Draining \<Longrightarrow> prActive x = 0 \<Longrightarrow>
    main_step S decodeRequest decodeBid x (x\<lparr>prPhase := HTTPStopped\<rparr>)"
| main_deadline: "prPhase x = Draining \<Longrightarrow>
    main_step S decodeRequest decodeBid x (x\<lparr>prPhase := HTTPStopped, prTimedOut := True\<rparr>)"
| main_debug: "prPhase x = HTTPStopped \<Longrightarrow>
    main_step S decodeRequest decodeBid x (x\<lparr>prPhase := DebugStopped\<rparr>)"
| main_store: "prPhase x = DebugStopped \<Longrightarrow>
    main_step S decodeRequest decodeBid x (x\<lparr>prPhase := StoreClosed\<rparr>)"
| main_log: "prPhase x = StoreClosed \<Longrightarrow>
    main_step S decodeRequest decodeBid x (x\<lparr>prPhase := LogClosed, prServer := Server_Close (prServer x)\<rparr>)"
| main_exit: "prPhase x = LogClosed \<Longrightarrow> main_step S decodeRequest decodeBid x (x\<lparr>prPhase := Exited\<rparr>)"

definition initProcess :: "'s Server \<Rightarrow> 's process" where
  "initProcess s = \<lparr>prServer = s, prPhase = Listening, prActive = 0, prTimedOut = False, prPanicked = False\<rparr>"

inductive main_reachable ::
    "'s BidStore \<Rightarrow> (string \<Rightarrow> AuctionRequest option) \<Rightarrow> (string \<Rightarrow> Bid option) \<Rightarrow> 's Server \<Rightarrow> 's process \<Rightarrow> bool"
  for S :: "'s BidStore" and decodeRequest :: "string \<Rightarrow> AuctionRequest option" and decodeBid :: "string \<Rightarrow> Bid option"
    and s0 :: "'s Server" where
  main_init: "main_reachable S decodeRequest decodeBid s0 (initProcess s0)"
| main_next: "main_reachable S decodeRequest decodeBid s0 x \<Longrightarrow> main_step S decodeRequest decodeBid x z \<Longrightarrow>
    main_reachable S decodeRequest decodeBid s0 z"

section \<open>Handlers on an open logger\<close>

lemma auction_open:
  assumes "loggerOpen s"
  shows "\<not> panicked (fst (Server_auction decodeRequest ck r s)) \<and> loggerOpen (snd (Server_auction decodeRequest ck r s))"
proof (cases "decodeJSON decodeRequest r")
  case (Some request)
  then show ?thesis
  proof (cases "AuctionRequest_Validate request")
    case True
    from auction_valid_request [OF Some True assms, of ck] show ?thesis by auto
  qed (use assms in \<open>simp add: Server_auction_def loggerOpen_def\<close>)
qed (use assms in \<open>simp add: Server_auction_def loggerOpen_def\<close>)

lemma other_handlers_logger:
  "srvDecisionLogger (snd (Server_upsertBid S decodeBid r s)) = srvDecisionLogger s"
  "srvDecisionLogger (snd (Server_deleteBid S r s)) = srvDecisionLogger s"
  "srvDecisionLogger (snd (Server_health s)) = srvDecisionLogger s"
  "srvDecisionLogger (snd (Server_ready S s)) = srvDecisionLogger s"
  "srvDecisionLogger (snd (Server_metricsEndpoint s)) = srvDecisionLogger s"
  by (auto simp: Server_upsertBid_def Server_deleteBid_def Server_health_def Server_ready_def
      Server_metricsEndpoint_def Let_def split_beta split: option.split)

lemma handler_open:
  assumes "loggerOpen s" and "Server_Handler S decodeRequest decodeBid ck rt r s = (response, s')"
  shows "\<not> panicked response \<and> loggerOpen s'"
proof -
  have s': "s' = snd (Server_Handler S decodeRequest decodeBid ck rt r s)"
    and response: "response = fst (Server_Handler S decodeRequest decodeBid ck rt r s)" using assms(2) by simp_all
  show ?thesis
  proof (cases rt)
    case PostAuction
    then show ?thesis
      using auction_open [OF assms(1), of decodeRequest ck r]
      by (cases "fst (Server_auction decodeRequest ck r s)") (simp_all add: s' response Server_Handler_def Let_def split_beta)
  qed (use assms(1) in \<open>simp_all add: s' response Server_Handler_def loggerOpen_def other_handlers_logger Let_def split_beta\<close>)
qed

section \<open>The invariant\<close>

definition beforeClose :: "phase \<Rightarrow> bool" where
  "beforeClose p \<longleftrightarrow> p \<notin> {LogClosed, Exited}"

definition orderly :: "'s process \<Rightarrow> bool" where
  "orderly x \<longleftrightarrow> \<not> prTimedOut x \<longrightarrow>
    \<not> prPanicked x
    \<and> (prPhase x \<notin> {Listening, Draining} \<longrightarrow> prActive x = 0)
    \<and> (beforeClose (prPhase x) \<longrightarrow> loggerOpen (prServer x))
    \<and> (\<not> beforeClose (prPhase x) \<longrightarrow>
        (\<forall>l. srvDecisionLogger (prServer x) = Some l \<longrightarrow> dlClosed l \<and> dlEntries l = []))"

lemma orderly_step: "main_step S decodeRequest decodeBid x z \<Longrightarrow> orderly x \<Longrightarrow> orderly z"
proof (induction rule: main_step.induct)
  case (main_request x ck rt r response s)
  then show ?case
    using handler_open [of "prServer x"] by (auto simp: orderly_def beforeClose_def)
next
  case (main_log x)
  then show ?case
    by (auto simp: orderly_def beforeClose_def Server_Close_def DecisionLogger_Close_def loggerOpen_def drain_sel
        split: option.splits if_splits)
qed (auto simp: orderly_def beforeClose_def loggerOpen_def DecisionLogger_run_def split: list.splits option.splits)

section \<open>Nothing accepted is lost\<close>

text \<open>The decisions the logger has accepted: those written and those in its queue.\<close>

definition logged :: "'s Server \<Rightarrow> DecisionLog list" where
  "logged s = (case srvDecisionLogger s of None \<Rightarrow> [] | Some l \<Rightarrow> dlWritten l @ dlEntries l)"

lemma recordDecision_logged:
  assumes "Server_recordDecision i p d s = Returns s'"
  shows "(srvDecisionLogger s' = None \<longleftrightarrow> srvDecisionLogger s = None) \<and> (\<exists>new. logged s' = logged s @ new)"
  using assms
  by (auto simp: Server_recordDecision_def DecisionLogger_Record_def logged_def Let_def
      split: if_splits option.splits panicking.splits)

lemma auction_logged:
  "(srvDecisionLogger (snd (Server_auction decodeRequest ck r s)) = None \<longleftrightarrow> srvDecisionLogger s = None)
    \<and> (\<exists>new. logged (snd (Server_auction decodeRequest ck r s)) = logged s @ new)"
  by (auto simp: Server_auction_def logged_def Let_def split_beta dest!: recordDecision_logged
      split: option.split panicking.split)

lemma handler_logged:
  assumes "Server_Handler S decodeRequest decodeBid ck rt r s = (response, s')"
  shows "(srvDecisionLogger s' = None \<longleftrightarrow> srvDecisionLogger s = None) \<and> (\<exists>new. logged s' = logged s @ new)"
proof -
  have s': "s' = snd (Server_Handler S decodeRequest decodeBid ck rt r s)" using assms by simp
  show ?thesis
  proof (cases rt)
    case PostAuction
    then show ?thesis
      using auction_logged [of decodeRequest ck r s] by (simp add: s' Server_Handler_def Let_def split_beta)
  qed (simp_all add: s' Server_Handler_def logged_def other_handlers_logger Let_def split_beta)
qed

lemma step_logged:
  "main_step S decodeRequest decodeBid x z \<Longrightarrow>
    (srvDecisionLogger (prServer z) = None \<longleftrightarrow> srvDecisionLogger (prServer x) = None)
    \<and> (\<exists>new. logged (prServer z) = logged (prServer x) @ new)"
proof (induction rule: main_step.induct)
  case (main_request x ck rt r response s)
  then show ?case using handler_logged [of S decodeRequest decodeBid ck rt r "prServer x"] by simp
next
  case (main_write x l)
  then show ?case by (simp add: logged_def DecisionLogger_run_def split: list.split)
next
  case (main_log x)
  then show ?case
    by (auto simp: logged_def Server_Close_def DecisionLogger_Close_def drain_sel split: option.splits)
qed simp_all

lemma steps_logged:
  assumes "(main_step S decodeRequest decodeBid)\<^sup>*\<^sup>* x z"
  shows "(srvDecisionLogger (prServer z) = None \<longleftrightarrow> srvDecisionLogger (prServer x) = None)
    \<and> (\<exists>new. logged (prServer z) = logged (prServer x) @ new)"
  using assms
proof induction
  case (step y z)
  then show ?case using step_logged [of S decodeRequest decodeBid y z] by (metis append.assoc)
qed simp

lemma orderly_reachable:
  assumes "main_reachable S decodeRequest decodeBid s0 x" and "loggerOpen s0"
  shows "orderly x"
  using assms
proof (induction rule: main_reachable.induct)
  case main_init
  then show ?case by (simp add: orderly_def beforeClose_def initProcess_def)
next
  case (main_next x z)
  then show ?case using orderly_step by blast
qed

section \<open>Properties\<close>

text \<open>
  C27: an orderly shutdown loses nothing. When all connections end before the deadline of the HTTP
  server's shutdown, no handler ever panics, and every decision that the logger had accepted at any
  point, before or after the signal, has been written when \<open>main\<close> returns.
\<close>

theorem graceful_shutdown:
  assumes "loggerOpen s0" and "main_reachable S decodeRequest decodeBid s0 x"
    and steps: "(main_step S decodeRequest decodeBid)\<^sup>*\<^sup>* x z" and "\<not> prTimedOut z" and "prPhase z = Exited"
    and "srvDecisionLogger (prServer x) = Some l"
  shows "\<not> prPanicked z \<and> prActive z = 0
    \<and> (\<exists>l' later. srvDecisionLogger (prServer z) = Some l' \<and> dlWritten l' = dlWritten l @ dlEntries l @ later)"
proof -
  have "main_reachable S decodeRequest decodeBid s0 z"
    using steps assms(2) by induction (auto intro: main_next)
  then have "orderly z" using orderly_reachable assms(1) by blast
  then have z: "\<not> prPanicked z" "prActive z = 0"
    "\<forall>l. srvDecisionLogger (prServer z) = Some l \<longrightarrow> dlEntries l = []"
    using assms(4,5) by (auto simp: orderly_def beforeClose_def)
  obtain l' where l': "srvDecisionLogger (prServer z) = Some l'"
    using steps_logged [OF steps] assms(6) by auto
  obtain later where "logged (prServer z) = logged (prServer x) @ later" using steps_logged [OF steps] by blast
  with z l' assms(6) show ?thesis by (auto simp: logged_def)
qed

text \<open>A server that still has a decision in its queue when the signal comes.\<close>

definition queuedEntry :: DecisionLog where
  "queuedEntry = decisionEntry ''a-1'' ''p'' (emptyDecision\<lparr>decNoBidReason := ''cold_cache''\<rparr>) FirstPrice"

definition queuedLogger :: DecisionLogger where
  "queuedLogger = \<lparr>dlEntries = [queuedEntry], dlBuffer = 8, dlClosed = False, dlDropped = 0, dlWritten = []\<rparr>"

definition queuedServer :: "memory world Server" where
  "queuedServer = (NewServer defaultConfig exampleWorld (NewBidCache second))\<lparr>srvDecisionLogger := Some queuedLogger\<rparr>"

abbreviation exampleRun :: "memory world process \<Rightarrow> memory world process \<Rightarrow> bool" where
  "exampleRun \<equiv> main_step exampleRedisStore (\<lambda>_. Some (plainRequest ''p'' ''US'')) (\<lambda>_. None)"

lemma phases_run:
  assumes "prPhase x = HTTPStopped"
  shows "(main_step S decodeRequest decodeBid)\<^sup>*\<^sup>* x (x\<lparr>prPhase := LogClosed, prServer := Server_Close (prServer x)\<rparr>)"
proof -
  have "main_step S decodeRequest decodeBid x (x\<lparr>prPhase := DebugStopped\<rparr>)" using assms by (rule main_debug)
  moreover have "main_step S decodeRequest decodeBid (x\<lparr>prPhase := DebugStopped\<rparr>) (x\<lparr>prPhase := StoreClosed\<rparr>)"
    using main_store [of "x\<lparr>prPhase := DebugStopped\<rparr>"] by simp
  moreover have "main_step S decodeRequest decodeBid (x\<lparr>prPhase := StoreClosed\<rparr>)
      (x\<lparr>prPhase := LogClosed, prServer := Server_Close (prServer x)\<rparr>)"
    using main_log [of "x\<lparr>prPhase := StoreClosed\<rparr>"] by simp
  ultimately show ?thesis by (meson converse_rtranclp_into_rtranclp r_into_rtranclp)
qed

theorem graceful_shutdown_witness:
  "\<exists>z l' later. exampleRun\<^sup>*\<^sup>* (initProcess queuedServer) z \<and> prPhase z = Exited \<and> \<not> prPanicked z
    \<and> srvDecisionLogger (prServer z) = Some l' \<and> dlWritten l' = queuedEntry # later"
proof -
  let ?x = "initProcess queuedServer"
  let ?h = "?x\<lparr>prPhase := HTTPStopped\<rparr>"
  let ?c = "?h\<lparr>prPhase := LogClosed, prServer := Server_Close (prServer ?h)\<rparr>"
  let ?z = "?c\<lparr>prPhase := Exited\<rparr>"
  have "exampleRun ?x (?x\<lparr>prPhase := Draining\<rparr>)" by (rule main_signal) (simp add: initProcess_def)
  moreover have "exampleRun (?x\<lparr>prPhase := Draining\<rparr>) ?h"
    using main_drained [of "?x\<lparr>prPhase := Draining\<rparr>"] by (simp add: initProcess_def)
  moreover have "exampleRun\<^sup>*\<^sup>* ?h ?c" by (rule phases_run) simp
  moreover have "exampleRun ?c ?z" by (rule main_exit) simp
  ultimately have steps: "exampleRun\<^sup>*\<^sup>* ?x ?z"
    by (meson converse_rtranclp_into_rtranclp rtranclp.rtrancl_into_rtrancl)
  have "loggerOpen queuedServer" "srvDecisionLogger (prServer ?x) = Some queuedLogger" "\<not> prTimedOut ?z"
    by (simp_all add: loggerOpen_def queuedServer_def queuedLogger_def initProcess_def)
  from graceful_shutdown [OF this(1) main_init steps this(3) _ this(2)] steps show ?thesis
    by (fastforce simp: queuedLogger_def)
qed

text \<open>
  Without the hypothesis on the deadline this fails: a handler that outlives it sends to the closed
  channel of the logger.
\<close>

lemma auction_closed_panics:
  assumes "decodeJSON decodeRequest r = Some request" and "AuctionRequest_Validate request"
    and "srvDecisionLogger s = Some l" and "dlClosed l"
  shows "fst (Server_auction decodeRequest ck r s) = Panics"
  using assms by (simp add: Server_auction_def Server_recordDecision_def DecisionLogger_Record_def Let_def split_beta)

theorem late_handler_panics:
  "\<exists>z. main_reachable exampleRedisStore (\<lambda>_. Some (plainRequest ''p'' ''US'')) (\<lambda>_. None) queuedServer z
    \<and> prTimedOut z \<and> prPanicked z"
proof -
  let ?reach = "main_reachable exampleRedisStore (\<lambda>_. Some (plainRequest ''p'' ''US'')) (\<lambda>_. None) queuedServer"
  let ?x = "(initProcess queuedServer)\<lparr>prActive := 1\<rparr>"
  let ?h = "?x\<lparr>prPhase := HTTPStopped, prTimedOut := True\<rparr>"
  let ?c = "?h\<lparr>prPhase := LogClosed, prServer := Server_Close (prServer ?h)\<rparr>"
  have "exampleRun (initProcess queuedServer) ?x"
    using main_connect [of "initProcess queuedServer"] by (simp add: initProcess_def)
  moreover have "exampleRun ?x (?x\<lparr>prPhase := Draining\<rparr>)" by (rule main_signal) (simp add: initProcess_def)
  moreover have "exampleRun (?x\<lparr>prPhase := Draining\<rparr>) ?h"
    using main_deadline [of "?x\<lparr>prPhase := Draining\<rparr>"] by simp
  ultimately have "?reach ?h" by (meson main_init main_next)
  moreover have "exampleRun\<^sup>*\<^sup>* ?h ?c" by (rule phases_run) simp
  then have "?reach ?c" if "?reach ?h" using that by induction (auto intro: main_next)
  ultimately have c: "?reach ?c" by blast
  let ?out = "Server_Handler exampleRedisStore (\<lambda>_. Some (plainRequest ''p'' ''US'')) (\<lambda>_. None) exampleClock
    PostAuction exampleHTTP (prServer ?c)"
  have "srvDecisionLogger (prServer ?c) = Some (drain (queuedLogger\<lparr>dlClosed := True\<rparr>))"
    by (simp add: Server_Close_def DecisionLogger_Close_def initProcess_def queuedServer_def queuedLogger_def)
  moreover have "dlClosed (drain (queuedLogger\<lparr>dlClosed := True\<rparr>))" by (simp add: drain_sel)
  moreover have "decodeJSON (\<lambda>_. Some (plainRequest ''p'' ''US'')) exampleHTTP = Some (plainRequest ''p'' ''US'')"
    "AuctionRequest_Validate (plainRequest ''p'' ''US'')"
    by (simp_all add: decodeJSON_def exampleHTTP_def AuctionRequest_Validate_def plainRequest_def i64_simps)
  ultimately have "fst ?out = Panics"
    by (simp add: Server_Handler_def Let_def split_beta auction_closed_panics)
  then have panic: "panicked (fst ?out)" by simp
  let ?z = "?c\<lparr>prServer := snd ?out, prPanicked := prPanicked ?c \<or> panicked (fst ?out)\<rparr>"
  have "exampleRun ?c ?z" by (rule main_request [OF _ _ surjective_pairing]) simp_all
  with c have "?reach ?z" by (rule main_next)
  moreover have "prTimedOut ?z" by simp
  moreover have "prPanicked ?z" using panic by simp
  ultimately show ?thesis by blast
qed

end
