(* ===== verification/Load_Test.thy ===== *)
theory Load_Test
  imports Doubles
begin

text \<open>
  The command \<open>cmd/loadtest\<close>: concurrent clients send auction requests until a deadline, one collector
  takes their latencies from a channel, and \<open>main\<close> reports counters and percentiles. The outcome of a
  request is the environment's. Of the report the model leaves out the rate, a quotient of doubles
  that is only printed.
\<close>

section \<open>Definitions\<close>

record loadFlags =
  flConcurrency :: int64
  flDuration :: duration

definition flagsValid :: "loadFlags \<Rightarrow> bool" where
  "flagsValid f \<longleftrightarrow> \<not> (flConcurrency f <s 1 \<or> flDuration f \<le>s 0)"

text \<open>A client: at the loop condition, waiting for its response, sending a latency, or done.\<close>

datatype client = Polling | Requesting | Sending duration | Finished

text \<open>
  \<open>percentile\<close> computes its index in doubles. The fractions are given by their 53-bit significand; they
  lie between one half and one, so the product of a double \<open>x\<close> with such a fraction is the rounded
  product of \<open>x\<close> and the significand, shifted by 53 bits. \<open>None\<close> is an index out of range.
\<close>

definition p50 :: nat where "p50 = 4503599627370496"

definition p95 :: nat where "p95 = 8556839292003942"

definition p99 :: nat where "p99 = 8917127262193582"

definition percentileIndex :: "nat \<Rightarrow> nat \<Rightarrow> nat" where
  "percentileIndex n p = doubleOfNat (doubleOfNat (n - 1) * p) div 2 ^ 53"

definition percentile :: "duration list \<Rightarrow> nat \<Rightarrow> duration option" where
  "percentile samples p =
    (let index = percentileIndex (length samples) p in
     if index < length samples then Some (samples ! index) else None)"

definition sortSamples :: "duration list \<Rightarrow> duration list" where
  "sortSamples samples = sort_key sint samples"

record measurement =
  msRequests :: uint64
  msFailures :: uint64
  msP50 :: "duration option"
  msP95 :: "duration option"
  msP99 :: "duration option"
  msMax :: duration

datatype report = NoSuccess | Measured measurement

record loadTest =
  ltClients :: "client list"
  ltChannel :: "duration list"
  ltCapacity :: nat
  ltClosed :: bool
  ltSamples :: "duration list"
  ltCollected :: bool
  ltCompleted :: uint64
  ltFailures :: uint64
  ltNow :: time
  ltDeadline :: time
  ltReport :: "report option"

text \<open>
  The sizes of the channel and of the slice are products that wrap around; \<open>make\<close> panics when one is
  negative (\<open>None\<close>). A channel of size zero is unbuffered: the collector, which is at its receive until
  the channel is closed, takes the value from the sender (\<open>load_handover\<close>).
\<close>

definition startLoad :: "loadFlags \<Rightarrow> time \<Rightarrow> loadTest option" where
  "startLoad f now =
    (if flConcurrency f * 16 <s 0 \<or> flConcurrency f * 1024 <s 0 then None
     else Some \<lparr>ltClients = replicate (nat (sint (flConcurrency f))) Polling, ltChannel = [],
     ltCapacity = nat (sint (flConcurrency f * 16)), ltClosed = False, ltSamples = [], ltCollected = False,
     ltCompleted = 0, ltFailures = 0, ltNow = now, ltDeadline = time_Add now (flDuration f), ltReport = None\<rparr>)"

definition makeReport :: "loadTest \<Rightarrow> report" where
  "makeReport x =
    (if length (ltSamples x) = 0 then NoSuccess
     else
       let samples = sortSamples (ltSamples x) in
       Measured \<lparr>msRequests = ltCompleted x, msFailures = ltFailures x, msP50 = percentile samples p50,
         msP95 = percentile samples p95, msP99 = percentile samples p99,
         msMax = samples ! (length samples - 1)\<rparr>)"

inductive load_step :: "loadTest \<Rightarrow> loadTest \<Rightarrow> bool" where
  load_tick: "ltNow x \<le> t \<Longrightarrow> load_step x (x\<lparr>ltNow := t\<rparr>)"
| load_request: "i < length (ltClients x) \<Longrightarrow> ltClients x ! i = Polling \<Longrightarrow> ltNow x < ltDeadline x \<Longrightarrow>
    load_step x (x\<lparr>ltClients := (ltClients x)[i := Requesting]\<rparr>)"
| load_stop: "i < length (ltClients x) \<Longrightarrow> ltClients x ! i = Polling \<Longrightarrow> \<not> ltNow x < ltDeadline x \<Longrightarrow>
    load_step x (x\<lparr>ltClients := (ltClients x)[i := Finished]\<rparr>)"
| load_failed: "i < length (ltClients x) \<Longrightarrow> ltClients x ! i = Requesting \<Longrightarrow>
    load_step x (x\<lparr>ltClients := (ltClients x)[i := Polling], ltFailures := ltFailures x + 1\<rparr>)"
| load_completed: "i < length (ltClients x) \<Longrightarrow> ltClients x ! i = Requesting \<Longrightarrow>
    load_step x (x\<lparr>ltClients := (ltClients x)[i := Sending d], ltCompleted := ltCompleted x + 1\<rparr>)"
| load_send: "i < length (ltClients x) \<Longrightarrow> ltClients x ! i = Sending d \<Longrightarrow> length (ltChannel x) < ltCapacity x \<Longrightarrow>
    load_step x (x\<lparr>ltClients := (ltClients x)[i := Polling], ltChannel := ltChannel x @ [d]\<rparr>)"
| load_handover: "i < length (ltClients x) \<Longrightarrow> ltClients x ! i = Sending d \<Longrightarrow> ltCapacity x = 0 \<Longrightarrow>
    load_step x (x\<lparr>ltClients := (ltClients x)[i := Polling], ltSamples := ltSamples x @ [d]\<rparr>)"
| load_collect: "ltChannel x = d # ds \<Longrightarrow>
    load_step x (x\<lparr>ltChannel := ds, ltSamples := ltSamples x @ [d]\<rparr>)"
| load_close: "\<forall>c \<in> set (ltClients x). c = Finished \<Longrightarrow> \<not> ltClosed x \<Longrightarrow> load_step x (x\<lparr>ltClosed := True\<rparr>)"
| load_collected: "ltClosed x \<Longrightarrow> ltChannel x = [] \<Longrightarrow> \<not> ltCollected x \<Longrightarrow> load_step x (x\<lparr>ltCollected := True\<rparr>)"
| load_report: "ltCollected x \<Longrightarrow> ltReport x = None \<Longrightarrow> load_step x (x\<lparr>ltReport := Some (makeReport x)\<rparr>)"

inductive load_reachable :: "loadFlags \<Rightarrow> loadTest \<Rightarrow> bool" for f :: loadFlags where
  load_init: "flagsValid f \<Longrightarrow> startLoad f now = Some x \<Longrightarrow> load_reachable f x"
| load_next: "load_reachable f x \<Longrightarrow> load_step x y \<Longrightarrow> load_reachable f y"

section \<open>Percentiles\<close>

lemma fractions: "p50 \<le> p95" "p95 \<le> p99" "p99 \<le> 2 ^ 53"
  by (simp_all add: p50_def p95_def p99_def)

text \<open>The significands are those of the doubles nearest to 0.50, 0.95 and 0.99.\<close>

lemma fractions_nearest:
  "100 * p50 = 50 * 2 ^ 53"
  "2 * \<bar>100 * int p95 - 95 * 2 ^ 53\<bar> < 100"
  "2 * \<bar>100 * int p99 - 99 * 2 ^ 53\<bar> < 100"
  by (simp_all add: p50_def p95_def p99_def)

lemma percentileIndex_mono: "p \<le> q \<Longrightarrow> percentileIndex n p \<le> percentileIndex n q"
  by (simp add: percentileIndex_def div_le_mono doubleOfNat_mono)

lemma percentileIndex_le:
  assumes "p \<le> 2 ^ 53" and "n \<le> 9007199254740992"
  shows "percentileIndex n p \<le> n - 1"
proof -
  have "doubleOfNat ((n - 1) * p) \<le> doubleOfNat ((n - 1) * 2 ^ 53)"
    using assms(1) by (intro doubleOfNat_mono mult_le_mono) simp_all
  also have "\<dots> = (n - 1) * 2 ^ 53" using assms(2) by (intro doubleOfNat_shift) simp
  finally have "doubleOfNat ((n - 1) * p) div 2 ^ 53 \<le> (n - 1) * 2 ^ 53 div 2 ^ 53" by (rule div_le_mono)
  then show ?thesis using assms(2) by (simp add: percentileIndex_def doubleOfNat_exact)
qed

lemma percentile_order:
  assumes "samples \<noteq> []" and "length samples \<le> 9007199254740992"
  shows "\<exists>a b c. percentile (sortSamples samples) p50 = Some a \<and> percentile (sortSamples samples) p95 = Some b
    \<and> percentile (sortSamples samples) p99 = Some c \<and> {a, b, c} \<subseteq> set samples
    \<and> sint a \<le> sint b \<and> sint b \<le> sint c
    \<and> sint c \<le> sint (sortSamples samples ! (length samples - 1))"
proof -
  let ?s = "sortSamples samples" and ?n = "length samples"
  let ?i = "percentileIndex ?n"
  have len: "length ?s = ?n" and set: "set ?s = set samples" by (simp_all add: sortSamples_def)
  have "?i p50 \<le> ?i p95" "?i p95 \<le> ?i p99" "?i p99 \<le> ?n - 1" "0 < ?n"
    using assms fractions percentileIndex_le [of p99 ?n] by (auto intro: percentileIndex_mono)
  moreover from this have "?i p50 < ?n" "?i p95 < ?n" "?i p99 < ?n" by linarith+
  moreover have "sint (?s ! i) \<le> sint (?s ! j)" if "i \<le> j" "j < ?n" for i j
  proof -
    have "sorted (map sint ?s)" by (simp add: sortSamples_def)
    from sorted_nth_mono [OF this that(1)] that len show ?thesis by simp
  qed
  moreover have "?s ! i \<in> set samples" if "i < ?n" for i using that len set nth_mem by metis
  ultimately show ?thesis by (auto simp: percentile_def len)
qed

section \<open>Every completed request is a sample\<close>

definition held :: "client \<Rightarrow> nat" where
  "held c = (case c of Sending d \<Rightarrow> 1 | _ \<Rightarrow> 0)"

definition inHand :: "client list \<Rightarrow> nat" where
  "inHand cs = sum_list (map held cs)"

definition accounted :: "loadTest \<Rightarrow> bool" where
  "accounted x \<longleftrightarrow>
    ltCompleted x = of_nat (length (ltSamples x) + length (ltChannel x) + inHand (ltClients x))
    \<and> length (ltChannel x) \<le> ltCapacity x
    \<and> (ltClosed x \<longrightarrow> (\<forall>c \<in> set (ltClients x). c = Finished))
    \<and> (ltCollected x \<longrightarrow> ltClosed x \<and> ltChannel x = [])
    \<and> (\<forall>r. ltReport x = Some r \<longrightarrow> ltCollected x \<and> r = makeReport x)"

lemma held_simps [simp]: "held Polling = 0" "held Requesting = 0" "held (Sending d) = 1" "held Finished = 0"
  by (simp_all add: held_def)

lemma inHand_update:
  "i < length cs \<Longrightarrow> inHand (cs[i := c]) + held (cs ! i) = inHand cs + held c"
  unfolding inHand_def
  by (induction cs arbitrary: i) (auto split: nat.split simp: less_Suc_eq_0_disj)

lemma accounted_init: "startLoad f now = Some x \<Longrightarrow> accounted x"
  by (auto simp: accounted_def startLoad_def inHand_def sum_list_replicate split: if_splits)

lemma makeReport_frame:
  "makeReport (x\<lparr>ltNow := t\<rparr>) = makeReport x" "makeReport (x\<lparr>ltReport := r\<rparr>) = makeReport x"
  by (simp_all add: makeReport_def Let_def)

text \<open>While a client is at work nothing is closed and nothing reported.\<close>

lemma working_open:
  assumes "accounted x" and "i < length (ltClients x)" and "ltClients x ! i \<noteq> Finished"
  shows "\<not> ltClosed x \<and> \<not> ltCollected x \<and> ltReport x = None"
proof -
  have "\<not> (\<forall>c \<in> set (ltClients x). c = Finished)" using assms(2,3) nth_mem by blast
  with assms(1) show ?thesis unfolding accounted_def by (metis not_None_eq)
qed

lemma accounted_step: "load_step x y \<Longrightarrow> accounted x \<Longrightarrow> accounted y"
proof (induction rule: load_step.induct)
  case (load_request i x)
  have "inHand ((ltClients x)[i := Requesting]) + held (ltClients x ! i) = inHand (ltClients x) + held (Requesting)"
    using load_request(1) by (rule inHand_update)
  with load_request working_open [OF load_request.prems load_request(1)] show ?case by (simp add: accounted_def)
next
  case (load_stop i x)
  have "inHand ((ltClients x)[i := Finished]) + held (ltClients x ! i) = inHand (ltClients x) + held (Finished)"
    using load_stop(1) by (rule inHand_update)
  with load_stop working_open [OF load_stop.prems load_stop(1)] show ?case by (simp add: accounted_def)
next
  case (load_failed i x)
  have "inHand ((ltClients x)[i := Polling]) + held (ltClients x ! i) = inHand (ltClients x) + held (Polling)"
    using load_failed(1) by (rule inHand_update)
  with load_failed working_open [OF load_failed.prems load_failed(1)] show ?case by (simp add: accounted_def)
next
  case (load_completed i x d)
  have "inHand ((ltClients x)[i := Sending d]) + held (ltClients x ! i) = inHand (ltClients x) + held (Sending d)"
    using load_completed(1) by (rule inHand_update)
  with load_completed working_open [OF load_completed.prems load_completed(1)] show ?case by (simp add: accounted_def)
next
  case (load_send i x d)
  have "inHand ((ltClients x)[i := Polling]) + held (ltClients x ! i) = inHand (ltClients x) + held (Polling)"
    using load_send(1) by (rule inHand_update)
  then have "inHand (ltClients x) = 1 + inHand ((ltClients x)[i := Polling])" using load_send(2) by simp
  with load_send working_open [OF load_send.prems load_send(1)] show ?case by (simp add: accounted_def)
next
  case (load_handover i x d)
  have "inHand ((ltClients x)[i := Polling]) + held (ltClients x ! i) = inHand (ltClients x) + held (Polling)"
    using load_handover(1) by (rule inHand_update)
  then have "inHand (ltClients x) = 1 + inHand ((ltClients x)[i := Polling])" using load_handover(2) by simp
  with load_handover working_open [OF load_handover.prems load_handover(1)] show ?case by (simp add: accounted_def)
qed (auto simp: accounted_def makeReport_frame)

lemma accounted_reachable: "load_reachable f x \<Longrightarrow> accounted x"
  by (induction rule: load_reachable.induct) (auto intro: accounted_init accounted_step)

section \<open>The test ends\<close>

fun clientWork :: "client \<Rightarrow> nat" where
  "clientWork Finished = 0"
| "clientWork Polling = 1"
| "clientWork (Sending d) = 4"
| "clientWork Requesting = 5"

definition clientsWork :: "client list \<Rightarrow> nat" where
  "clientsWork cs = sum_list (map clientWork cs)"

definition work :: "loadTest \<Rightarrow> nat" where
  "work x = clientsWork (ltClients x) + 2 * length (ltChannel x) + (if ltClosed x then 0 else 1)
    + (if ltCollected x then 0 else 1) + (if ltReport x = None then 1 else 0)"

lemma clientsWork_update:
  "i < length cs \<Longrightarrow> clientsWork (cs[i := c]) + clientWork (cs ! i) = clientsWork cs + clientWork c"
  unfolding clientsWork_def
  by (induction cs arbitrary: i) (auto split: nat.split simp: less_Suc_eq_0_disj)

lemma step_work:
  assumes "load_step x y" and "ltDeadline x \<le> ltNow x"
  shows "work y < work x \<or> y = x\<lparr>ltNow := ltNow y\<rparr>"
  using assms(1)
proof cases
  case (load_request i)
  with assms(2) show ?thesis by simp
next
  case (load_stop i)
  with clientsWork_update [OF load_stop(2), of Finished] show ?thesis by (simp add: work_def)
next
  case (load_failed i)
  with clientsWork_update [OF load_failed(2), of Polling] show ?thesis by (simp add: work_def)
next
  case (load_completed i d)
  with clientsWork_update [OF load_completed(2), of "Sending d"] show ?thesis by (simp add: work_def)
next
  case (load_send i d)
  with clientsWork_update [OF load_send(2), of Polling] show ?thesis by (simp add: work_def)
next
  case (load_handover i d)
  with clientsWork_update [OF load_handover(2), of Polling] show ?thesis by (simp add: work_def)
qed (auto simp: work_def)

lemma collect_progress:
  assumes "ltChannel x \<noteq> []"
  shows "\<exists>y. load_step x y \<and> work y < work x"
proof -
  obtain d ds where "ltChannel x = d # ds" using assms by (cases "ltChannel x") simp_all
  from load_collect [OF this] this show ?thesis by (intro exI conjI) (assumption | simp add: work_def)+
qed

lemma client_progress:
  assumes late: "ltDeadline x \<le> ltNow x" and i: "i < length (ltClients x)" and "ltClients x ! i \<noteq> Finished"
  shows "\<exists>y. load_step x y \<and> work y < work x"
proof (cases "ltClients x ! i")
  case Polling
  with late load_stop [OF i] clientsWork_update [OF i, of Finished] show ?thesis
    by (intro exI conjI) (assumption | simp add: work_def)+
next
  case Requesting
  with load_failed [OF i] clientsWork_update [OF i, of Polling] show ?thesis
    by (intro exI conjI) (assumption | simp add: work_def)+
next
  case (Sending d)
  consider "ltCapacity x = 0" | "ltChannel x \<noteq> []" | "length (ltChannel x) < ltCapacity x" by fastforce
  then show ?thesis
  proof cases
    case 1
    with Sending load_handover [OF i Sending 1] clientsWork_update [OF i, of Polling] show ?thesis
      by (intro exI conjI) (assumption | simp add: work_def)+
  next
    case 2
    then show ?thesis by (rule collect_progress)
  next
    case 3
    with Sending load_send [OF i Sending 3] clientsWork_update [OF i, of Polling] show ?thesis
      by (intro exI conjI) (assumption | simp add: work_def)+
  qed
qed (use assms in simp)

lemma load_progress:
  assumes late: "ltDeadline x \<le> ltNow x" and "ltReport x = None"
  shows "\<exists>y. load_step x y \<and> work y < work x"
proof (cases "\<forall>c \<in> set (ltClients x). c = Finished")
  case True
  consider "\<not> ltClosed x" | "ltChannel x \<noteq> []" | "ltClosed x" "ltChannel x = []" "\<not> ltCollected x" | "ltCollected x"
    by blast
  then show ?thesis
  proof cases
    case 1
    with load_close [OF True 1] show ?thesis by (intro exI conjI) (assumption | simp add: work_def)+
  next
    case 2
    then show ?thesis by (rule collect_progress)
  next
    case 3
    with load_collected [OF 3] show ?thesis by (intro exI conjI) (assumption | simp add: work_def)+
  next
    case 4
    with load_report [OF 4 assms(2)] assms(2) show ?thesis by (intro exI conjI) (assumption | simp add: work_def)+
  qed
next
  case False
  then obtain i where "i < length (ltClients x)" "ltClients x ! i \<noteq> Finished" by (metis in_set_conv_nth)
  then show ?thesis using client_progress [OF late] by blast
qed

lemma step_time: "load_step x y \<Longrightarrow> ltDeadline y = ltDeadline x \<and> ltNow x \<le> ltNow y"
  by (induction rule: load_step.induct) simp_all

lemma reported_complete:
  assumes "accounted x" and "ltReport x = Some r"
  shows "r = makeReport x" "\<forall>c \<in> set (ltClients x). c = Finished" "ltCompleted x = of_nat (length (ltSamples x))"
proof -
  show "r = makeReport x" and ended: "\<forall>c \<in> set (ltClients x). c = Finished"
    using assms by (auto simp: accounted_def)
  have "inHand (ltClients x) = 0" using ended by (auto simp: inHand_def)
  then show "ltCompleted x = of_nat (length (ltSamples x))" using assms by (auto simp: accounted_def)
qed

lemma load_finishes:
  assumes "load_reachable f x" and "ltDeadline x \<le> ltNow x"
  shows "\<exists>y. load_step\<^sup>*\<^sup>* x y \<and> ltReport y = Some (makeReport y) \<and> ltCompleted y = of_nat (length (ltSamples y))"
  using assms
proof (induction "work x" arbitrary: x rule: less_induct)
  case less
  show ?case
  proof (cases "ltReport x")
    case None
    from load_progress [OF less.prems(2) None] obtain z where z: "load_step x z" "work z < work x" by blast
    from step_time [OF z(1)] less.prems(2) have "ltDeadline z \<le> ltNow z" by linarith
    from less.hyps [OF z(2) load_next [OF less.prems(1) z(1)] this] z(1) show ?thesis
      by (meson converse_rtranclp_into_rtranclp)
  next
    case (Some r)
    from reported_complete [OF accounted_reachable [OF less.prems(1)] Some] Some show ?thesis by blast
  qed
qed

section \<open>Properties\<close>

text \<open>
  C39: the load test ends. After the deadline every step but the passing of time lowers the remaining
  work, and until the report is there some step does, so a report is reached; it counts the samples
  that were collected, all of which come from completed requests.
\<close>

theorem load_test_terminates:
  assumes "load_reachable f x" and late: "ltDeadline x \<le> ltNow x"
  shows "(\<forall>y. load_step x y \<longrightarrow> work y < work x \<or> y = x\<lparr>ltNow := ltNow y\<rparr>)
    \<and> (ltReport x = None \<longrightarrow> (\<exists>y. load_step x y \<and> work y < work x))
    \<and> (\<exists>y. load_step\<^sup>*\<^sup>* x y \<and> ltReport y = Some (makeReport y)
        \<and> ltCompleted y = of_nat (length (ltSamples y)))"
  using step_work [OF _ late] load_progress [OF late] load_finishes [OF assms] by blast

definition lateTest :: loadTest where
  "lateTest = \<lparr>ltClients = [Polling], ltChannel = [], ltCapacity = 16, ltClosed = False, ltSamples = [],
     ltCollected = False, ltCompleted = 0, ltFailures = 0, ltNow = 5, ltDeadline = 1, ltReport = None\<rparr>"

lemma lateTest_reachable: "load_reachable \<lparr>flConcurrency = 1, flDuration = 1\<rparr> lateTest"
proof -
  let ?f = "\<lparr>flConcurrency = 1, flDuration = 1\<rparr>"
  have "startLoad ?f 0 = Some (lateTest\<lparr>ltNow := 0\<rparr>)"
    by (simp add: startLoad_def lateTest_def time_Add_def i64_simps)
  then have "load_reachable ?f (lateTest\<lparr>ltNow := 0\<rparr>)"
    by (intro load_init) (simp_all add: flagsValid_def i64_simps)
  from load_next [OF this load_tick [where t = 5]] show ?thesis by (simp add: lateTest_def)
qed

theorem load_test_terminates_witness: "\<exists>y. load_step lateTest y \<and> work y < work lateTest"
proof -
  have "ltDeadline lateTest \<le> ltNow lateTest" "ltReport lateTest = None" by (simp_all add: lateTest_def)
  then show ?thesis using load_test_terminates [OF lateTest_reachable] by blast
qed

text \<open>
  The report is right. When \<open>main\<close> prints a measurement, all clients have finished, every completed
  request is one of the samples, no index is out of range, and the percentiles are samples in
  increasing order up to the maximum.
\<close>

theorem load_report_exact:
  assumes "load_reachable f x" and "ltReport x = Some (Measured m)" and "length (ltSamples x) \<le> 2 ^ 53"
  shows "(\<forall>c \<in> set (ltClients x). c = Finished) \<and> msRequests m = of_nat (length (ltSamples x))
    \<and> (\<exists>a b c. msP50 m = Some a \<and> msP95 m = Some b \<and> msP99 m = Some c \<and> {a, b, c} \<subseteq> set (ltSamples x)
        \<and> sint a \<le> sint b \<and> sint b \<le> sint c \<and> sint c \<le> sint (msMax m))"
proof -
  note ended = reported_complete [OF accounted_reachable [OF assms(1)] assms(2)]
  have "ltSamples x \<noteq> []" using ended(1) by (auto simp: makeReport_def)
  then show ?thesis
    using ended percentile_order [of "ltSamples x"] assms(3)
    by (auto simp: makeReport_def sortSamples_def Let_def)
qed

end
