(* ===== verification/Engine_Guarantees.thy ===== *)
theory Engine_Guarantees
  imports Bidder_Engine
begin

text \<open>
  What the running \<open>BidderEngine\<close> guarantees: concurrency limits, the content of the DSP cache, and
  that every refresh can run to its end. The invariants are in \<open>Bidder_Engine\<close>; this theory adds the
  content of the cache and the progress argument and states the properties.
\<close>

section \<open>What sanitising establishes\<close>

definition openMarketBid :: "string set \<Rightarrow> DSPRequest \<Rightarrow> DynamicBid \<Rightarrow> bool" where
  "openMarketBid ids request d \<longleftrightarrow>
     dynBidderID d \<in> ids \<and> prefix (dynBidderID d @ '':'') (bidID (dynBid d))
     \<and> Bid_ValidateDynamic (dynBid d) = None \<and> bidPriority (dynBid d) = 0 \<and> bidDealID (dynBid d) = []
     \<and> bidRevision (dynBid d) = 0 \<and> bidPlacementID (dynBid d) = dspPlacementID request"

lemma set_map_filter: "set (List.map_filter f xs) = {y. \<exists>x \<in> set xs. f x = Some y}"
  by (force simp: List.map_filter_def)

lemma sanitizeBid_Some:
  "sanitizeBid bidder request b = Some d \<Longrightarrow> openMarketBid {bidder} request d"
  by (auto simp: sanitizeBid_def openMarketBid_def Let_def prefix_def split: if_splits)

lemma sanitizeDynamicBids_open:
  "d \<in> set (sanitizeDynamicBids bidder request bids) \<Longrightarrow> openMarketBid {bidder} request d"
  using sanitizeBid_Some by (auto simp: sanitizeDynamicBids_def set_map_filter)

lemma openMarketBid_mono: "openMarketBid ids request d \<Longrightarrow> ids \<subseteq> ids' \<Longrightarrow> openMarketBid ids' request d"
  by (auto simp: openMarketBid_def)

section \<open>The content of the cache\<close>

abbreviation engineIDs :: "BidderEngine \<Rightarrow> string set" where
  "engineIDs e \<equiv> brID ` set (beBidders e)"

definition entryOK :: "(AuctionRequest \<Rightarrow> bool) \<Rightarrow> string set \<Rightarrow> string \<Rightarrow> DynamicBid list \<Rightarrow> bool" where
  "entryOK allowed ids k bids \<longleftrightarrow>
     (\<exists>request. allowed request \<and> dynamicCacheKey request = k
        \<and> (\<forall>d \<in> set bids. openMarketBid ids (dspRequestOf request) d))"

definition contentOK :: "(AuctionRequest \<Rightarrow> bool) \<Rightarrow> string set \<Rightarrow> BidderEngine \<Rightarrow> bool" where
  "contentOK allowed ids e \<longleftrightarrow>
     (\<forall>k l. dcEntries (beCache e) k = Some l \<longrightarrow> entryOK allowed ids k (dlBids l))"

definition resultsOK :: "(AuctionRequest \<Rightarrow> bool) \<Rightarrow> string set \<Rightarrow> string \<Rightarrow> fanoutTask \<Rightarrow> bool" where
  "resultsOK allowed ids k t \<longleftrightarrow>
     (\<exists>request. allowed request \<and> dynamicCacheKey request = k \<and> ftRequest t = dspRequestOf request
        \<and> (\<forall>r \<in> set (ftResults t). \<forall>d \<in> set (resBids r). openMarketBid ids (ftRequest t) d))"

definition contentInv :: "(AuctionRequest \<Rightarrow> bool) \<Rightarrow> engineSystem \<Rightarrow> bool" where
  "contentInv allowed y \<longleftrightarrow>
     contentOK allowed (engineIDs (esEngine y)) (esEngine y)
     \<and> (\<forall>k t. esTasks y k = Some (Fanning t) \<longrightarrow> resultsOK allowed (engineIDs (esEngine y)) k t)"

lemma sameBidders_ids:
  assumes "sameBidders e e'"
  shows "engineIDs e' = engineIDs e"
proof -
  have "map brID (beBidders e') = map brID (beBidders e)"
    using assms by (intro nth_equalityI) (simp_all add: sameBidders_def)
  then show ?thesis by (metis list.set_map)
qed

lemma contentInv_setTask:
  assumes "contentInv allowed y" and "engineIDs (snd te) = engineIDs (esEngine y)"
    and "beCache (snd te) = beCache (esEngine y)" and "resultsOK allowed (engineIDs (esEngine y)) k (fst te)"
  shows "contentInv allowed (setTask k te y)"
  using assms by (simp add: contentInv_def contentOK_def)

lemma Put_content:
  assumes "dcEntries (snd (DynamicBidCache_Put order now1 now2 k bids ttl c)) j = Some l"
  shows "dcEntries c j = Some l \<or> (j = k \<and> dlBids l = bids)"
  using assms evictExpired_entries [of "time_UnixNano now2" order c j]
  by (auto simp: DynamicBidCache_Put_def Let_def split: if_splits)

lemma storeResults_cache:
  "beCache (storeResults order now1 now2 k t e) =
    snd (DynamicBidCache_Put order now1 now2 k (fst (collectResults (ftResults t)))
      (if snd (collectResults (ftResults t)) then engCacheTTL (beConfig e) else engFailureTTL (beConfig e))
      (beCache e))"
  by (simp add: storeResults_def Let_def split: prod.split)

lemma storeResults_content:
  assumes "contentOK allowed ids e" and "resultsOK allowed ids k t"
  shows "contentOK allowed ids (storeResults order now1 now2 k t e)"
  unfolding contentOK_def
proof (intro allI impI)
  fix j l assume "dcEntries (beCache (storeResults order now1 now2 k t e)) j = Some l"
  then have "dcEntries (beCache e) j = Some l \<or> (j = k \<and> dlBids l = fst (collectResults (ftResults t)))"
    unfolding storeResults_cache by (rule Put_content)
  with assms show "entryOK allowed ids j (dlBids l)"
    by (fastforce simp: contentOK_def resultsOK_def entryOK_def collectResults_def)
qed

lemma workerReport_results:
  assumes "resultsOK allowed (engineIDs e) k t" and "i < length (beBidders e)"
  shows "resultsOK allowed (engineIDs e) k (fst (workerReport i now outcome t e))"
proof -
  have "openMarketBid (engineIDs e) (ftRequest t) d"
    if "d \<in> set (sanitizeDynamicBids (brID (beBidders e ! i)) (ftRequest t) bids)" for d bids
    using openMarketBid_mono [OF sanitizeDynamicBids_open [OF that], of "engineIDs e"] assms(2) by simp
  with assms(1) show ?thesis
    by (auto simp: resultsOK_def workerReport_def Let_def split: fetchOutcome.split)
qed

lemma refresh_ops_results:
  "resultsOK allowed ids k t \<Longrightarrow> resultsOK allowed ids k (fst (tryAcquire i rest t e))"
  "resultsOK allowed ids k t \<Longrightarrow> resultsOK allowed ids k (fst (askBreaker i now t e))"
  "resultsOK allowed ids k t \<Longrightarrow> resultsOK allowed ids k (fst (workerRelease i t e))"
  by (simp_all add: resultsOK_def refresh_op_defs Let_def split: prod.split)

lemma contentInv_results:
  "contentInv allowed y \<Longrightarrow> esTasks y k = Some (Fanning t) \<Longrightarrow>
    resultsOK allowed (engineIDs (esEngine y)) k t"
  by (simp add: contentInv_def)

lemma contentInv_op:
  assumes "contentInv allowed y" and "sameBidders (esEngine y) (snd te)"
    and "beCache (snd te) = beCache (esEngine y)" and "resultsOK allowed (engineIDs (esEngine y)) k (fst te)"
  shows "contentInv allowed (setTask k te y)"
  using contentInv_setTask [OF assms(1) sameBidders_ids [OF assms(2)] assms(3,4)] .

lemma contentInv_step:
  assumes "engine_step allowed y z" and "tasksOK y" and inv: "contentInv allowed y"
  shows "contentInv allowed z"
  using assms(1)
proof (cases rule: engine_step.cases)
  case (step_trigger request now k dsp e)
  have "resultsOK allowed ids k (fst (startRefresh dsp e))" for ids
    using step_trigger Trigger_frame(5) [OF step_trigger(3) refl] by (auto simp: resultsOK_def)
  then show ?thesis
    using step_trigger Trigger_frame(1,3) [OF step_trigger(3)] inv by (simp add: contentInv_setTask)
next
  case (step_trigger_nothing now request e)
  with inv Trigger_frame [OF step_trigger_nothing(2)] show ?thesis
    by (simp add: contentInv_def contentOK_def)
next
  case (step_report k t i now outcome)
  then have "i < length (beBidders (esEngine y))" using assms(2) taskOK_running
    unfolding tasksOK_def by blast
  with step_report(1,2) inv show ?thesis
    by (simp add: contentInv_op [OF inv] refresh_ops_same workerReport_results contentInv_results)
next
  case (step_acquire k t i rest)
  then show ?thesis
    by (simp add: contentInv_op [OF inv] refresh_ops_same refresh_ops_results contentInv_results [OF inv])
next
  case (step_allow k t i now)
  then show ?thesis
    by (simp add: contentInv_op [OF inv] refresh_ops_same refresh_ops_results contentInv_results [OF inv])
next
  case (step_worker_release k t i)
  then show ?thesis
    by (simp add: contentInv_op [OF inv] refresh_ops_same refresh_ops_results contentInv_results [OF inv])
next
  case (step_store k t order now1 now2)
  with inv storeResults_content show ?thesis by (auto simp: contentInv_def)
qed (use inv in \<open>auto simp: contentOK_def contentInv_def\<close>)

lemma contentInv_reachable: "engine_reachable allowed config configs y \<Longrightarrow> contentInv allowed y"
proof (induction rule: engine_reachable.induct)
  case (engine_init e)
  then show ?case
    by (rule NewBidderEngineE)
      (simp add: contentInv_def contentOK_def initEngineSystem_def NewDynamicBidCache_def)
next
  case (engine_next y z)
  then show ?case using contentInv_step engineInvD(3) [OF engineInv_reachable] by blast
qed

section \<open>Progress\<close>

text \<open>What a refresh still has to do; each of its own steps lowers this measure.\<close>

fun phaseMeasure :: "taskPhase option \<Rightarrow> nat" where
  "phaseMeasure None = 0"
| "phaseMeasure (Some Stored) = 1"
| "phaseMeasure (Some (Fanning t)) =
    2 + 4 * length (ftTodo t) + 3 * boolNat (ftHeld t \<noteq> None) + 2 * length (ftRunning t)
      + length (ftReleasing t)"

abbreviation remaining :: "engineSystem \<Rightarrow> string \<Rightarrow> nat" where
  "remaining y k \<equiv> phaseMeasure (esTasks y k)"

lemma refresh_ops_progress:
  "ftHeld t = None \<Longrightarrow> ftTodo t = i # rest \<Longrightarrow>
    phaseMeasure (Some (Fanning (fst (tryAcquire i rest t e)))) < phaseMeasure (Some (Fanning t))"
  "ftHeld t = Some i \<Longrightarrow>
    phaseMeasure (Some (Fanning (fst (askBreaker i now t e)))) < phaseMeasure (Some (Fanning t))"
  "i \<in> set (ftRunning t) \<Longrightarrow>
    phaseMeasure (Some (Fanning (fst (workerReport i now outcome t e)))) < phaseMeasure (Some (Fanning t))"
  "i \<in> set (ftReleasing t) \<Longrightarrow>
    phaseMeasure (Some (Fanning (fst (workerRelease i t e)))) < phaseMeasure (Some (Fanning t))"
proof -
  show "ftHeld t = None \<Longrightarrow> ftTodo t = i # rest \<Longrightarrow>
      phaseMeasure (Some (Fanning (fst (tryAcquire i rest t e)))) < phaseMeasure (Some (Fanning t))"
    by (simp add: tryAcquire_def boolNat_def)
  show "ftHeld t = Some i \<Longrightarrow>
      phaseMeasure (Some (Fanning (fst (askBreaker i now t e)))) < phaseMeasure (Some (Fanning t))"
    by (simp add: askBreaker_def boolNat_def Let_def split: prod.split)
  assume i: "i \<in> set (ftRunning t)"
  then obtain n where "length (ftRunning t) = Suc n" by (cases "ftRunning t") auto
  with i show "phaseMeasure (Some (Fanning (fst (workerReport i now outcome t e)))) < phaseMeasure (Some (Fanning t))"
    by (cases outcome) (simp_all add: workerReport_def boolNat_def Let_def length_remove1)
next
  assume i: "i \<in> set (ftReleasing t)"
  then obtain n where "length (ftReleasing t) = Suc n" by (cases "ftReleasing t") auto
  with i show "phaseMeasure (Some (Fanning (fst (workerRelease i t e)))) < phaseMeasure (Some (Fanning t))"
    by (simp add: workerRelease_def length_remove1)
qed

lemma refresh_can_step:
  assumes inv: "engineInv y" and "k \<in> beInflight (esEngine y)"
  shows "\<exists>z. engine_step allowed y z \<and> remaining z k < remaining y k"
proof -
  obtain v where v: "esTasks y k = Some v"
    using assms engineInvD(1) [OF inv] by (auto simp: slotsOK_def)
  show ?thesis
  proof (cases v)
    case Stored
    with v step_clear [of y k allowed] show ?thesis by fastforce
  next
    case (Fanning t)
    with v have t: "esTasks y k = Some (Fanning t)" by simp
    with engineInvD(3) [OF inv] have ok: "taskOK (esEngine y) t" by (simp add: tasksOK_def)
    consider i where "ftHeld t = Some i"
      | i rest where "ftHeld t = None" "ftTodo t = i # rest" "\<not> loopDone (esEngine y) t"
      | i where "i \<in> set (ftRunning t)" | i where "i \<in> set (ftReleasing t)"
      | "loopDone (esEngine y) t" "ftHeld t = None" "ftRunning t = []" "ftReleasing t = []"
      by (cases "ftHeld t"; cases "ftTodo t"; cases "ftRunning t"; cases "ftReleasing t")
        (auto simp: loopDone_def)
    then show ?thesis
    proof cases
      case 1
      show ?thesis
        by (intro exI conjI, rule step_allow [OF t 1]) (use refresh_ops_progress(2) [OF 1] t in simp)
    next
      case 2
      show ?thesis
        by (intro exI conjI, rule step_acquire [OF t 2(1,3,2)])
          (use refresh_ops_progress(1) [OF 2(1,2)] t in simp)
    next
      case (3 i)
      then have room: "int (length (ftResults t)) < sint (engMaxFanout (beConfig (esEngine y)))"
        using ok by (cases "ftRunning t") (auto simp: taskOK_def)
      show ?thesis
        by (intro exI conjI, rule step_report [OF t 3 room]) (use refresh_ops_progress(3) [OF 3] t in simp)
    next
      case 4
      show ?thesis
        by (intro exI conjI, rule step_worker_release [OF t 4]) (use refresh_ops_progress(4) [OF 4] t in simp)
    next
      case 5
      show ?thesis by (intro exI conjI, rule step_store [OF t 5]) (use t in simp)
    qed
  qed
qed

lemma remaining_setTask:
  assumes "esTasks y k' = Some (Fanning t)" and "phaseMeasure (Some (Fanning (fst te))) < phaseMeasure (Some (Fanning t))"
  shows "remaining (setTask k' te y) k \<le> remaining y k"
  using assms by (cases "k = k'") simp_all

lemma step_remaining:
  assumes "engine_step allowed y z" and "k \<in> beInflight (esEngine y)"
  shows "remaining z k \<le> remaining y k"
  using assms
proof (induction rule: engine_step.induct)
  case (step_trigger request now y k' dsp e)
  then have "k' \<notin> beInflight (esEngine y)"
    by (auto simp: BidderEngine_Trigger_def Let_def split: if_splits option.splits)
  with step_trigger show ?case by auto
next
  case (step_acquire y k' t i rest)
  from remaining_setTask [OF step_acquire(1) refresh_ops_progress(1) [OF step_acquire(2,4)]] show ?case .
next
  case (step_allow y k' t i now)
  from remaining_setTask [OF step_allow(1) refresh_ops_progress(2) [OF step_allow(2)]] show ?case .
next
  case (step_report y k' t i now outcome)
  from remaining_setTask [OF step_report(1) refresh_ops_progress(3) [OF step_report(2)]] show ?case .
next
  case (step_worker_release y k' t i)
  from remaining_setTask [OF step_worker_release(1) refresh_ops_progress(4) [OF step_worker_release(2)]]
  show ?case .
qed auto

lemma refresh_can_finish:
  assumes "engine_reachable allowed config configs y"
  shows "\<exists>z. (engine_step allowed)\<^sup>*\<^sup>* y z \<and> k \<notin> beInflight (esEngine z)"
  using assms
proof (induction "remaining y k" arbitrary: y rule: less_induct)
  case less
  show ?case
  proof (cases "k \<in> beInflight (esEngine y)")
    case True
    from refresh_can_step [OF engineInv_reachable [OF less.prems] True] obtain z
      where z: "engine_step allowed y z" "remaining z k < remaining y k" by blast
    from less.hyps [OF z(2) engine_next [OF less.prems z(1)]] z(1) show ?thesis
      by (meson converse_rtranclp_into_rtranclp)
  qed blast
qed

section \<open>Workers of all refreshes\<close>

fun phaseRunning :: "nat \<Rightarrow> taskPhase option \<Rightarrow> nat" where
  "phaseRunning i (Some (Fanning t)) = count_list (ftRunning t) i"
| "phaseRunning i _ = 0"

definition totalRunning :: "nat \<Rightarrow> (string \<rightharpoonup> taskPhase) \<Rightarrow> nat" where
  "totalRunning i m = (\<Sum>k \<in> dom m. phaseRunning i (m k))"

lemma totalRunning_le: "totalRunning i m \<le> totalHeld i m"
proof -
  have "phaseRunning i p \<le> phaseHeld i p" for p
    by (cases "(i, p)" rule: phaseHeld.cases) (simp_all add: taskHeld_def)
  then show ?thesis unfolding totalRunning_def totalHeld_def by (intro sum_mono) simp
qed

text \<open>
  What \<open>Lookup\<close> returns was collected for a request with the same cache key. Requests without the unit
  separator and with the same key are for the same placement; \<open>dynamic_key_collision\<close> shows that others
  need not be.
\<close>

lemma Lookup_open_market:
  assumes "engine_reachable allowed config configs y"
    and "fst (BidderEngine_Lookup now request (esEngine y)) = Some bids"
  obtains q where "allowed q" and "dynamicCacheKey q = dynamicCacheKey request"
    and "\<forall>d \<in> set bids. openMarketBid (engineIDs (esEngine y)) (dspRequestOf q) d"
    and "cleanRequest q \<Longrightarrow> cleanRequest request \<Longrightarrow> reqPlacementID q = reqPlacementID request"
proof -
  from assms(2) obtain l where l: "dcEntries (beCache (esEngine y)) (dynamicCacheKey request) = Some l"
    and bids: "bids = dlBids l"
    by (auto simp: BidderEngine_Lookup_def DynamicBidCache_Get_def split: option.splits if_splits)
  have "entryOK allowed (engineIDs (esEngine y)) (dynamicCacheKey request) bids"
    using contentInv_reachable [OF assms(1)] l unfolding bids contentInv_def contentOK_def by blast
  then obtain q where q: "allowed q" "dynamicCacheKey q = dynamicCacheKey request"
      "\<forall>d \<in> set bids. openMarketBid (engineIDs (esEngine y)) (dspRequestOf q) d"
    unfolding entryOK_def by blast
  with that dynamicCacheKey_eq [of q request] show thesis by blast
qed

section \<open>An example run\<close>

text \<open>One bidder answers one request with one bid.\<close>

definition exampleEngine :: BidderEngine where
  "exampleEngine =
    \<lparr>beCache = NewDynamicBidCache 10000,
     beBidders = [\<lparr>brID = ''dsp'',
       brConfig = \<lparr>bcAdapter = Some ''dsp'', bcTimeout = 60 * millisecond, bcMaxConcurrent = 32,
         bcFailureThreshold = 3, bcCircuitOpenFor = second\<rparr>,
       brSem = 0, brBreaker = newCircuitBreaker 3 second\<rparr>],
     beConfig = DefaultBidderEngineConfig, beStopped = False, beSlots = 0, beInflight = {},
     beStats = emptyEngineStats\<rparr>"

definition exampleConfigs :: "BidderConfig list" where
  "exampleConfigs = [\<lparr>bcAdapter = Some ''dsp'', bcTimeout = 0, bcMaxConcurrent = 0,
     bcFailureThreshold = 3, bcCircuitOpenFor = second\<rparr>]"

lemma exampleEngine_new:
  "NewBidderEngine False DefaultBidderEngineConfig exampleConfigs = Inr exampleEngine"
proof -
  have defaults: "applyDefaults DefaultBidderEngineConfig = DefaultBidderEngineConfig"
    by (simp add: applyDefaults_def DefaultBidderEngineConfig_def i64_simps second_def millisecond_def)
  moreover have "BidderEngineConfig_Validate DefaultBidderEngineConfig = None"
    by (simp add: BidderEngineConfig_Validate_iff DefaultBidderEngineConfig_def second_def millisecond_def)
  moreover have "validBidderID ''dsp''" by (simp add: validBidderID_def bidderIDChar_def)
  ultimately show ?thesis
    by (simp add: NewBidderEngine_def exampleConfigs_def exampleEngine_def bidderDefaults_def Let_def
        i64_simps second_def hour_def minute_def millisecond_def)
      (simp add: DefaultBidderEngineConfig_def)
qed

definition offeredBid :: Bid where
  "offeredBid =
    \<lparr>bidID = ''x'', bidRevision = 9, bidPlacementID = ''p'', bidCampaignID = ''c'', bidCreativeID = ''v'',
     bidMarkup = [], bidClickURL = [], bidPriceMicros = 5, bidFloorMicros = 0, bidDealID = ''deal'',
     bidPriority = 7, bidPacingBPS = 0, bidCountries = [], bidDevices = [], bidActiveFromUnix = 0,
     bidActiveToUnix = 0\<rparr>"

abbreviation exRequest :: AuctionRequest where "exRequest \<equiv> plainRequest ''p'' ''US''"
abbreviation exKey :: string where "exKey \<equiv> dynamicCacheKey exRequest"

definition exTask :: fanoutTask where
  "exTask = \<lparr>ftRequest = dspRequestOf exRequest, ftTodo = [0], ftHeld = None, ftStarted = 0,
     ftRunning = [], ftReleasing = [], ftResults = []\<rparr>"

definition exStart :: engineSystem where
  "exStart = setTask exKey (startRefresh (dspRequestOf exRequest)
     (exampleEngine\<lparr>beInflight := {exKey}, beSlots := 1\<rparr>)) (initEngineSystem exampleEngine)"

definition exAcquired :: engineSystem where
  "exAcquired = setTask exKey (tryAcquire 0 [] exTask (esEngine exStart)) exStart"

definition exAsked :: engineSystem where
  "exAsked = setTask exKey (askBreaker 0 0 (exTask\<lparr>ftTodo := [], ftHeld := Some 0\<rparr>) (esEngine exAcquired))
     exAcquired"

abbreviation exRunning :: fanoutTask where
  "exRunning \<equiv> exTask\<lparr>ftTodo := [], ftStarted := 1, ftRunning := [0]\<rparr>"

definition exReported :: engineSystem where
  "exReported = setTask exKey (workerReport 0 1 (FetchOK [offeredBid]) exRunning (esEngine exAsked)) exAsked"

abbreviation exResults :: fanoutTask where
  "exResults \<equiv> exTask\<lparr>ftTodo := [], ftStarted := 1,
     ftResults := [\<lparr>resBids = sanitizeDynamicBids ''dsp'' (dspRequestOf exRequest) [offeredBid],
       resSuccess = True\<rparr>]\<rparr>"

definition exReleased :: engineSystem where
  "exReleased = setTask exKey (workerRelease 0 (exResults\<lparr>ftReleasing := [0]\<rparr>) (esEngine exReported)) exReported"

definition exStored :: engineSystem where
  "exStored = exReleased\<lparr>esEngine := storeResults [] 2 2 exKey exResults (esEngine exReleased),
     esTasks := (esTasks exReleased)(exKey \<mapsto> Stored)\<rparr>"

lemma exampleEngine_sel [simp]:
  "length (beBidders exampleEngine) = 1" "brSem (beBidders exampleEngine ! 0) = 0"
  "brID (beBidders exampleEngine ! 0) = ''dsp''" "beConfig exampleEngine = DefaultBidderEngineConfig"
  "semCapacity (beBidders exampleEngine ! 0) = 32"
  "brBreaker (beBidders exampleEngine ! 0) = newCircuitBreaker 3 second"
  "beCache exampleEngine = NewDynamicBidCache 10000"
  by (simp_all add: exampleEngine_def semCapacity_def)

lemma ex_tasks:
  "esTasks exStart exKey = Some (Fanning exTask)"
  "esTasks exAcquired exKey = Some (Fanning (exTask\<lparr>ftTodo := [], ftHeld := Some 0\<rparr>))"
  "esTasks exAsked exKey = Some (Fanning exRunning)"
  "esTasks exReported exKey = Some (Fanning (exResults\<lparr>ftReleasing := [0]\<rparr>))"
  "esTasks exReleased exKey = Some (Fanning exResults)"
  by (simp_all add: exStart_def exAcquired_def exAsked_def exReported_def exReleased_def startRefresh_def
      exTask_def tryAcquire_def askBreaker_def workerReport_def workerRelease_def updateBidder_def
      circuitBreaker_Allow_def newCircuitBreaker_def time_IsZero_def Let_def)

lemma ex_config:
  "beConfig (esEngine exStart) = DefaultBidderEngineConfig"
  "beConfig (esEngine exAsked) = DefaultBidderEngineConfig"
  "beConfig (esEngine exReleased) = DefaultBidderEngineConfig"
  by (simp_all add: exStart_def exAcquired_def exAsked_def exReported_def exReleased_def startRefresh_def
      exTask_def tryAcquire_def askBreaker_def workerReport_def workerRelease_def updateBidder_def
      circuitBreaker_Allow_def newCircuitBreaker_def time_IsZero_def Let_def)

lemma ex_clean: "cleanRequest exRequest"
  by (simp add: cleanRequest_def plainRequest_def unitSeparator_def)

lemma ex_reachable:
  "engine_reachable cleanRequest DefaultBidderEngineConfig exampleConfigs exStart"
  "engine_reachable cleanRequest DefaultBidderEngineConfig exampleConfigs exAsked"
  "engine_reachable cleanRequest DefaultBidderEngineConfig exampleConfigs exStored"
proof -
  let ?reach = "engine_reachable cleanRequest DefaultBidderEngineConfig exampleConfigs"
  have fanout: "engMaxFanout DefaultBidderEngineConfig = 3" by (simp add: DefaultBidderEngineConfig_def)
  have "BidderEngine_Trigger 0 exRequest exampleEngine
      = (Some (exKey, dspRequestOf exRequest), exampleEngine\<lparr>beInflight := {exKey}, beSlots := 1\<rparr>)"
    by (simp add: BidderEngine_Trigger_def DynamicBidCache_Get_def NewDynamicBidCache_def exampleEngine_def
        DefaultBidderEngineConfig_def Let_def)
  then have "engine_step cleanRequest (initEngineSystem exampleEngine) exStart"
    unfolding exStart_def by (intro step_trigger [where request = exRequest] ex_clean)
      (simp add: initEngineSystem_def)
  then show start: "?reach exStart" by (rule engine_next [OF engine_init [OF exampleEngine_new]])
  have "engine_step cleanRequest exStart exAcquired" unfolding exAcquired_def
    by (rule step_acquire [OF ex_tasks(1)]) (simp_all add: exTask_def loopDone_def ex_config fanout)
  from engine_next [OF start this] have "?reach exAcquired" .
  moreover have "engine_step cleanRequest exAcquired exAsked" unfolding exAsked_def
    by (rule step_allow [OF ex_tasks(2)]) simp
  ultimately show asked: "?reach exAsked" by (rule engine_next)
  have "engine_step cleanRequest exAsked exReported" unfolding exReported_def
    by (rule step_report [OF ex_tasks(3)]) (simp_all add: exTask_def ex_config fanout)
  from engine_next [OF asked this] have "?reach exReported" .
  moreover have "engine_step cleanRequest exReported exReleased" unfolding exReleased_def
    by (rule step_worker_release [OF ex_tasks(4)]) simp
  ultimately have "?reach exReleased" by (rule engine_next)
  moreover have "engine_step cleanRequest exReleased exStored" unfolding exStored_def
    by (rule step_store [OF ex_tasks(5)]) (simp_all add: exTask_def loopDone_def)
  ultimately show "?reach exStored" by (rule engine_next)
qed

section \<open>Properties\<close>

text \<open>
  C24: refreshes are bounded and single-flight. In every reachable interleaving the refresh goroutines
  never outnumber \<open>MaxConcurrentRefreshes\<close> (at most 4096), each in-flight key has exactly one of them,
  and the slots in use are these goroutines plus those that are about to return theirs.
\<close>

theorem engine_refresh_slots:
  assumes "engine_reachable allowed config configs y"
  shows "dom (esTasks y) = beInflight (esEngine y)
    \<and> beSlots (esEngine y) = card (dom (esTasks y)) + esDraining y
    \<and> int (beSlots (esEngine y)) \<le> sint (engMaxConcurrentRefreshes (beConfig (esEngine y)))
    \<and> sint (engMaxConcurrentRefreshes (beConfig (esEngine y))) \<le> 4096"
  using engineInv_reachable [OF assms]
  by (simp add: engineInv_def slotsOK_def BidderEngineConfig_Validate_iff)

theorem engine_refresh_slots_witness:
  "dom (esTasks exAsked) = beInflight (esEngine exAsked)
    \<and> int (beSlots (esEngine exAsked)) \<le> sint (engMaxConcurrentRefreshes (beConfig (esEngine exAsked)))"
  using engine_refresh_slots [OF ex_reachable(2)] by blast

text \<open>
  C7: no bidder is asked more often than configured. In every reachable interleaving the semaphore of
  each bidder counts exactly the tokens held over all refreshes, and the workers of all refreshes that
  wait for its adapter are at most its \<open>MaxConcurrent\<close>. The workers a refresh has started so far, each
  of which is running or has sent its one result, are as many as the loop has counted and at most
  \<open>MaxFanout\<close>.
\<close>

theorem engine_bidder_limits:
  assumes "engine_reachable allowed config configs y" and "i < length (beBidders (esEngine y))"
  shows "semAt (esEngine y) i = totalHeld i (esTasks y)
    \<and> int (totalRunning i (esTasks y)) \<le> semCapacity (beBidders (esEngine y) ! i)
    \<and> (\<forall>k t. esTasks y k = Some (Fanning t) \<longrightarrow>
        ftStarted t = length (ftRunning t) + length (ftResults t)
        \<and> int (length (ftRunning t) + length (ftResults t)) \<le> sint (engMaxFanout (beConfig (esEngine y))))"
proof -
  note inv = engineInv_reachable [OF assms(1)]
  have sem: "semAt (esEngine y) i = totalHeld i (esTasks y)"
    "int (semAt (esEngine y) i) \<le> semCapacity (beBidders (esEngine y) ! i)"
    using engineInvD(2) [OF inv] assms(2) by (auto simp: semOK_def)
  moreover have "ftStarted t = length (ftRunning t) + length (ftResults t)
      \<and> int (length (ftRunning t) + length (ftResults t)) \<le> sint (engMaxFanout (beConfig (esEngine y)))"
    if "esTasks y k = Some (Fanning t)" for k t
  proof -
    have "taskOK (esEngine y) t" using engineInvD(3) [OF inv] that by (simp add: tasksOK_def)
    then show ?thesis by (auto simp: taskOK_def)
  qed
  ultimately show ?thesis using totalRunning_le [of i "esTasks y"] by auto
qed

theorem engine_bidder_limits_witness:
  "semAt (esEngine exAsked) 0 = totalHeld 0 (esTasks exAsked)"
proof -
  have "0 < length (beBidders (esEngine exAsked))"
    by (simp add: exStart_def exAcquired_def exAsked_def startRefresh_def exTask_def tryAcquire_def
        askBreaker_def updateBidder_def circuitBreaker_Allow_def newCircuitBreaker_def time_IsZero_def Let_def)
  from engine_bidder_limits [OF ex_reachable(2) this] show ?thesis by simp
qed

text \<open>
  C8: every refresh comes to its end. While a key is in flight, its own refresh can take a step that
  lowers the work it has left, whatever the other goroutines hold: every send finds room in the
  result channel and every semaphore token that is received has been sent. No step of any goroutine
  raises that work again, so finitely many steps of the refresh itself remain, and from every
  reachable state the key can be brought out of flight.
\<close>

theorem engine_refresh_terminates:
  assumes "engine_reachable allowed config configs y" and "k \<in> beInflight (esEngine y)"
  shows "(\<exists>z. engine_step allowed y z \<and> remaining z k < remaining y k)
    \<and> (\<forall>z. engine_step allowed y z \<longrightarrow> remaining z k \<le> remaining y k)
    \<and> (\<exists>z. (engine_step allowed)\<^sup>*\<^sup>* y z \<and> k \<notin> beInflight (esEngine z))"
  using refresh_can_step [OF engineInv_reachable [OF assms(1)] assms(2)] step_remaining [OF _ assms(2)]
    refresh_can_finish [OF assms(1)]
  by blast

theorem engine_refresh_terminates_witness:
  "\<exists>z. (engine_step cleanRequest)\<^sup>*\<^sup>* exAsked z \<and> exKey \<notin> beInflight (esEngine z)"
proof -
  have "exKey \<in> beInflight (esEngine exAsked)"
    using engineInvD(1) [OF engineInv_reachable [OF ex_reachable(2)]] ex_tasks(3)
    by (auto simp: slotsOK_def domIff)
  from engine_refresh_terminates [OF ex_reachable(2) this] show ?thesis by blast
qed

text \<open>
  C14: what \<open>Lookup\<close> hands to an auction is open-market supply. Whatever requests triggered refreshes and
  in every interleaving, the returned bids were collected for an earlier request with the same cache
  key: each passes \<open>ValidateDynamic\<close>, is for the placement of that request, carries no deal, priority or
  revision, and its ID starts with the ID of the configured bidder that offered it. When neither
  request contains a unit separator, that placement is the requested one.
\<close>

theorem lookup_returns_open_market_bids:
  assumes "engine_reachable allowed config configs y"
    and "fst (BidderEngine_Lookup now request (esEngine y)) = Some bids"
  shows "\<exists>q. allowed q \<and> dynamicCacheKey q = dynamicCacheKey request
    \<and> (\<forall>d \<in> set bids. openMarketBid (engineIDs (esEngine y)) (dspRequestOf q) d)
    \<and> (cleanRequest q \<and> cleanRequest request \<longrightarrow> reqPlacementID q = reqPlacementID request)"
  using Lookup_open_market [OF assms] by metis

lemma ex_lookup:
  "fst (BidderEngine_Lookup 3 exRequest (esEngine exStored)) =
    Some (sanitizeDynamicBids ''dsp'' (dspRequestOf exRequest) [offeredBid])"
proof -
  have "beCache (esEngine exReleased) = NewDynamicBidCache 10000"
    by (simp add: exStart_def exAcquired_def exAsked_def exReported_def exReleased_def)
  then show ?thesis
    by (simp add: BidderEngine_Lookup_def exStored_def storeResults_cache ex_config collectResults_def
        DynamicBidCache_Put_def DynamicBidCache_Get_def NewDynamicBidCache_def DefaultBidderEngineConfig_def
        i64_simps second_def time_UnixNano_def time_Add_def Let_def)
qed

theorem lookup_returns_open_market_bids_witness:
  "\<exists>d. sanitizeDynamicBids ''dsp'' (dspRequestOf exRequest) [offeredBid] = [d]
    \<and> openMarketBid (engineIDs (esEngine exStored)) (dspRequestOf exRequest) d"
proof -
  have "sanitizeDynamicBids ''dsp'' (dspRequestOf exRequest) [offeredBid] \<noteq> []"
    by (simp add: sanitizeDynamicBids_def sanitizeBid_def offeredBid_def dspRequestOf_def plainRequest_def
        Bid_Normalize_def Bid_ValidateDynamic_def Bid_validate_def containsBrace_def i64_simps Let_def
        List.map_filter_def)
  moreover have "length (sanitizeDynamicBids ''dsp'' (dspRequestOf exRequest) [offeredBid]) \<le> 1"
    by (simp add: sanitizeDynamicBids_def List.map_filter_def)
  ultimately obtain d where d: "sanitizeDynamicBids ''dsp'' (dspRequestOf exRequest) [offeredBid] = [d]"
    by (cases "sanitizeDynamicBids ''dsp'' (dspRequestOf exRequest) [offeredBid]") auto
  obtain q where "cleanRequest q" "openMarketBid (engineIDs (esEngine exStored)) (dspRequestOf q) d"
    "reqPlacementID q = reqPlacementID exRequest"
    using lookup_returns_open_market_bids [OF ex_reachable(3) ex_lookup] ex_clean d by auto
  then show ?thesis using d by (auto simp: openMarketBid_def dspRequestOf_def)
qed

end
