(* ===== verification/Spec2Isabelle.thy ===== *)
theory Spec2Isabelle
  imports HTTP_Responses Routing Subscription Shutdown Load_Test Engine_Guarantees
begin

text \<open>
  \<^bold>\<open>The program.\<close> The repository is an ad server in Go. Bids are registered through HTTP in a
  versioned registry kept in Redis (\<open>internal/ads/store.go\<close>). Each instance copies the registry into
  local snapshots (\<open>cache.go\<close>) and answers auction requests from them and from a local cache of DSP
  offers (\<open>auction.go\<close>, \<open>dynamic_bidding.go\<close>); a request never waits for Redis or for a DSP. Around
  this sit the HTTP handlers (\<open>server.go\<close>), the DSP adapter (\<open>http_bidder.go\<close>), metrics
  (\<open>metrics.go\<close>), the decision log (\<open>decision_log.go\<close>), the configuration (\<open>types.go\<close>) and \<open>main\<close>
  (\<open>cmd/adserver/main.go\<close>).

  \<^bold>\<open>Conventions.\<close> \<open>int64\<close>, \<open>int\<close> and \<open>time.Duration\<close> are \<open>64 word\<close> read by \<open>sint\<close>, \<open>uint64\<close> is
  \<open>64 word\<close> read by \<open>uint\<close>; arithmetic wraps as in Go and \<open>i64_div\<close>, \<open>i64_rem\<close> truncate. A Go string
  is a \<open>string\<close>, one \<open>char\<close> per byte. A \<open>time.Time\<close> is its distance to the Unix epoch in nanoseconds, an
  \<open>int\<close>; \<open>UnixNano\<close> wraps and \<open>Sub\<close> saturates. A struct is a \<open>record\<close>, a method is a definition named
  \<open>Type_Method\<close> that takes and returns the receiver, an error is a value of an error datatype in an
  \<open>option\<close> or a sum, and a readable clock is an argument with the times it returns.

  \<^bold>\<open>The theories\<close>, in the order of their imports:

  \<^item> \<open>Prelude\<close>: 64-bit integers, times, lemmas on lists and maps, the collections \<open>i64_simps\<close> and others.
  \<^item> \<open>Bid_Types\<close> (\<open>types.go\<close>): bids, requests, policies and their validation.
  \<^item> \<open>Ranking\<close> (\<open>auction.go\<close>, \<open>sortBids\<close>): effective price, eligibility, the rank order, the
    accumulator, the clearing price. The order is a key into a linear order; the accumulator is shown
    to compute the least eligible candidate and the best same-priority rival.
  \<^item> \<open>Bid_Store\<close> (\<open>BidStore\<close>): the interface of a store as a record of operations, and the locale
    \<open>bid_store\<close> of stores that return only valid, sorted bids of the placement.
  \<^item> \<open>Bid_Cache\<close> (\<open>cache.go\<close>): snapshots, refresh and reconciliation, and the step relation
    \<open>cache_step\<close> that interleaves auctions, mutations, lost or delivered invalidations, refresh
    goroutines and the refresh loop. The locale \<open>readable_store\<close> states what a reconciliation may
    rely on.
  \<^item> \<open>Auctioneer\<close> (\<open>auction.go\<close>): the auction over a snapshot and DSP bids.
  \<^item> \<open>Go_Strconv\<close>, \<open>Go_Text\<close>: the parts of \<open>strconv\<close>, \<open>strings\<close> and \<open>time\<close> the program uses, with
    \<open>ParseDuration\<close> down to the rounding of its double arithmetic.
  \<^item> \<open>Dynamic_Cache\<close>, \<open>Circuit_Breaker\<close>, \<open>Bidder_Engine\<close>, \<open>Engine_Guarantees\<close>
    (\<open>dynamic_bidding.go\<close>): the bounded expiring cache; the breaker with a specification over the
    history of calls; the engine with \<open>refresh\<close> cut at its synchronisation points and the step relation
    \<open>engine_step\<close>; the invariants of every reachable state (slots, semaphores, channel capacity,
    content of the cache) and the progress of every refresh.
  \<^item> \<open>Config\<close> (\<open>types.go\<close>): the environment and \<open>Config.Validate\<close>.
  \<^item> \<open>Go_UTF8\<close>, \<open>JSON_Strings\<close>, \<open>Go_JSON\<close>: what the program uses of \<open>unicode/utf8\<close> and \<open>encoding/json\<close>:
    string literals with their escapes, the scanner with its nesting limit, decoding into variables that
    already have a value, field lookup without case, encoding from field tags.
  \<^item> \<open>JSON_Codec\<close>, \<open>Wire_Format\<close>: the locale \<open>struct_codec\<close> proves the round trip of every struct whose
    fields satisfy its laws, \<open>traced_codec\<close> that its encoding is injective; bids interpret both. The
    JSON of bids, requests, responses, DSP requests and DSP answers follows the field tags.
  \<^item> \<open>Metrics\<close>, \<open>Decision_Log\<close>, \<open>HTTP_Bidder\<close>: the files of the same names.
  \<^item> \<open>Server\<close> (\<open>server.go\<close>): every handler, over an arbitrary store.
  \<^item> \<open>Go_URL\<close>, \<open>Go_ServeMux\<close>, \<open>Routing\<close> (\<open>Server.Handler\<close>, the listeners of \<open>main.go\<close>): escapes, queries and
    canonical paths of \<open>net/url\<close> and \<open>path\<close>, the multiplexer of \<open>net/http\<close>, and the patterns the program
    registers. The search of the multiplexer is shown equal to a table of resources, and a bid in
    Redis is shown to change only by requests to its own path.
  \<^item> \<open>Redis_Store\<close>, \<open>Redis_Registry\<close> (\<open>store.go\<close>): the Lua scripts with their arithmetic in doubles, the
    methods over a connection that may lose replies and repeat commands, and their refinement of an
    abstract registry of revisions and active payloads. The locale \<open>at_least_once\<close> captures an
    operation that may be executed several times; the two scripts, the placement index and the
    publication are its interpretations.
  \<^item> \<open>Redis_Cache\<close>: the Redis store interprets \<open>bid_store\<close> and \<open>readable_store\<close>, so the cache's lemmas
    hold for it.
  \<^item> \<open>Redis_Client\<close>, \<open>Subscription\<close> (\<open>store.go\<close>, \<open>cache.go\<close>): the construction of the client; the
    forwarding goroutine of \<open>Subscribe\<close> and the subscribe loop, which implement the event list of
    \<open>cache_step\<close>.
  \<^item> \<open>Startup\<close>, \<open>Shutdown\<close> (\<open>main.go\<close>): \<open>main\<close> up to the listeners, and from the signal to its return with
    handlers and the log writer still running.
  \<^item> \<open>Deployment\<close>, \<open>HTTP_Responses\<close>: any number of instances over one Redis with the JSON of the wire
    format, the invariant of the registry they share, and the bytes of the responses.
  \<^item> \<open>Doubles\<close>, \<open>Load_Test\<close> (\<open>cmd/loadtest\<close>): rounding of integers to doubles, which the Lua scripts share
    with the percentiles; the clients, the collector and the report of the load test, which ends and
    counts every completed request.
  \<^item> This theory: properties that span the registry, the cache, the auctioneer, the engine and the
    handlers.

  \<^bold>\<open>Parameters.\<close> The Redis server is a record of commands whose laws (\<open>redis_laws\<close>) are the documented
  behaviour of hashes and sets; \<open>memoryRedis\<close> satisfies them. The network is a list of \<open>delivery\<close>
  values, one per command, that say how often the command was executed and whether the reply arrived,
  so theorems quantify over all failures. The theories of the store and of the handlers are generic
  in the JSON codec (\<open>enc\<close>, \<open>dec\<close>, \<open>decodeRequest\<close>, \<open>decodeBid\<close>); \<open>Deployment\<close> instantiates it with
  \<open>Wire_Format\<close>, and the invariant there discharges what the generic lemmas assume of it.
  \<open>parseURI\<close> stands for \<open>url.ParseRequestURI\<close>, and the exchange with a DSP for \<open>net/http\<close>.

  \<^bold>\<open>Loops and bounds.\<close> All loops are structural recursion over lists or functions with a termination
  proof; no definition uses fuel. Concurrency is unbounded: the step relations allow any number of
  auctions, keys and refreshes in any order. In a deployment one request is one step, so the Redis
  commands of two requests do not interleave; each script is atomic in Redis itself.

  \<^bold>\<open>Not modelled.\<close> Sockets, signals, the enforcement of timeouts, the target of a redirect and the profiler's
  handlers, which are \<open>net/http\<close> and the operating system; the protocol of the Redis client; deadlines
  of contexts, which appear as failures of the calls they bound; the text that \<open>slog\<close> prints; of the
  load test the parsing of its flags, its HTTP client and the printed rate.
\<close>

section \<open>From the registry to the winner\<close>

text \<open>The bids that compete in an auction: those of the registry and the DSP bids of the handler.\<close>

lemma reconciled_winner_best:
  assumes "holds R s g ps (server w)" and "registryOK enc g"
    and "\<forall>p. \<forall>b \<in> activeBids enc g p. dec (enc b) = Some b"
    and "BidCache_Reconcile (redisBidStore R enc dec s) clock (c, w) = (None, c', w')"
    and "reqPlacementID request \<in> ps" and "AuctionRequest_Validate request"
    and filled: "decBid (fst (Auctioneer_RunWithDynamic policy readAt now request dynamic c')) = Some b"
  shows "(b \<in> activeBids enc g (reqPlacementID request)
        \<and> decDynamicBidderID (fst (Auctioneer_RunWithDynamic policy readAt now request dynamic c')) = []
      \<or> (\<exists>x \<in> set dynamic. dynBid x = b \<and> dynBidderID x =
          decDynamicBidderID (fst (Auctioneer_RunWithDynamic policy readAt now request dynamic c'))))
    \<and> eligible b request (time_Unix now) (effectivePrice b)
    \<and> (\<forall>b' \<in> activeBids enc g (reqPlacementID request) \<union> dynBid ` set dynamic.
        eligible b' request (time_Unix now) (effectivePrice b') \<longrightarrow>
        \<not> ranksAhead b' (effectivePrice b') b (effectivePrice b))"
proof -
  have set: "set (fst (BidCache_Get c' readAt (reqPlacementID request))) =
      activeBids enc g (reqPlacementID request)"
    using Reconcile_snapshot [OF assms(1-5)] by blast
  have "decBid (decisionOf policy readAt now request dynamic c') = Some b"
    using filled by (simp add: Auctioneer_RunWithDynamic_def)
  from run_winner_best [OF this assms(6)] set show ?thesis
    by (auto simp: set_auctionCandidates Auctioneer_RunWithDynamic_def)
qed

text \<open>
  C3: the auction serves the registry. In every reachable deployment, after a reconciliation that
  reported success, the winner of every filled auction on an indexed placement, with any policy and
  any DSP bids, is either a bid that lies in Redis under that placement, reported without a bidder, or
  one of the DSP bids, reported with its bidder. The winner is eligible, and no eligible bid of the
  placement in Redis and no eligible DSP bid ranks ahead of it. Without DSP bids it lies in Redis.
\<close>

theorem winner_is_best_registry_bid:
  assumes "deploy_reachable R st d"
    and "BidCache_Reconcile (jsonStore R st) clock (c, depWorld d) = (None, c', w')"
    and "reqPlacementID request \<in> set (SMEMBERS R (server (depWorld d)) (placementsKey st))"
    and "AuctionRequest_Validate request"
    and "decBid (fst (Auctioneer_RunWithDynamic policy readAt now request dynamic c')) = Some b"
  shows "(b \<in> activeIn R st (depWorld d) (reqPlacementID request)
        \<and> decDynamicBidderID (fst (Auctioneer_RunWithDynamic policy readAt now request dynamic c')) = []
      \<or> (\<exists>x \<in> set dynamic. dynBid x = b \<and> dynBidderID x =
          decDynamicBidderID (fst (Auctioneer_RunWithDynamic policy readAt now request dynamic c'))))
    \<and> eligible b request (time_Unix now) (effectivePrice b)
    \<and> (\<forall>b' \<in> activeIn R st (depWorld d) (reqPlacementID request) \<union> dynBid ` set dynamic.
        eligible b' request (time_Unix now) (effectivePrice b') \<longrightarrow>
        \<not> ranksAhead b' (effectivePrice b') b (effectivePrice b))"
proof -
  obtain g where g: "holds R st g (set (SMEMBERS R (server (depWorld d)) (placementsKey st))) (server (depWorld d))"
    "registryOK marshalBid g" "\<forall>p. \<forall>b \<in> activeBids marshalBid g p. unmarshalBid False (marshalBid b) = Some b"
    "\<forall>p. activeIn R st (depWorld d) p = activeBids marshalBid g p"
    using deploy_registry [OF assms(1)] by blast
  from reconciled_winner_best [OF g(1-3) assms(2) [unfolded jsonStore_def] assms(3-5)]
  show ?thesis unfolding g(4) [rule_format] .
qed

definition activeRequest :: AuctionRequest where
  "activeRequest = plainRequest ''p'' ''US''"

lemma activeRequest_valid: "AuctionRequest_Validate activeRequest"
  by (simp add: activeRequest_def plainRequest_def AuctionRequest_Validate_def i64_simps)

abbreviation reconciledCache :: BidCache where
  "reconciledCache \<equiv> installSnapshot ''p'' [storedBid 2] 0 (countRefresh (countReconcile (NewBidCache second)))"

lemma example_reconcile:
  "SMEMBERS memoryRedis (server jsonWorld) (placementsKey exampleStore) = [''p'']"
  "BidCache_Reconcile (jsonStore memoryRedis exampleStore) (\<lambda>_. 0) (NewBidCache second, jsonWorld) =
    (None, reconciledCache, jsonWorld)"
proof -
  note [simp] = RedisStore_Upsert_def storedBid_valid retryTopology_def command_def addPlacement_def
    publishPlacement_def upsertBidScript_def memoryRedis_def emptyMemory_def
  show "SMEMBERS memoryRedis (server jsonWorld) (placementsKey exampleStore) = [''p'']"
    by (simp add: placementsKey_def exampleStore_def key_def)
  then show "BidCache_Reconcile (jsonStore memoryRedis exampleStore) (\<lambda>_. 0) (NewBidCache second, jsonWorld) =
      (None, reconciledCache, jsonWorld)"
    using jsonWorld_upsert(2) jsonWorld_fetch
    by (simp add: jsonStore_def BidCache_Reconcile_def BidCache_refresh_def RedisStore_Placements_def Let_def
        del: RedisStore_Upsert_def memoryRedis_def)
qed

lemma example_snapshot:
  assumes "c = countRefresh (countReconcile (NewBidCache second))"
  shows "BidCache_Get (installSnapshot ''p'' [storedBid 2] 0 c) 1 ''p'' =
    ([storedBid 2], \<lparr>snapFound = True, snapStale = False, snapRejectStale = False, snapAge = 1\<rparr>)"
proof -
  have "snd (BidCache_Get (installSnapshot ''p'' [storedBid 2] 0 c) 1 ''p'') =
      \<lparr>snapFound = True, snapStale = False, snapRejectStale = False, snapAge = 1\<rparr>"
    using Get_installSnapshot [of 0 1 "''p''" "[storedBid 2]" c]
    by (simp add: nanoRange_def assms NewBidCache_def NewBidCacheWithPolicy_def DefaultCachePolicy_def
        CachePolicy_Validate_def i64_simps second_def)
  moreover have "fst (BidCache_Get (installSnapshot ''p'' [storedBid 2] 0 c) 1 ''p'') = [storedBid 2]"
    by (simp add: BidCache_Get_def installSnapshot_def Let_def sortBids_def storedBid_valid)
  ultimately show ?thesis by (simp add: prod_eq_iff)
qed

lemma storedBid_eligible: "eligible (storedBid 2) activeRequest (time_Unix 1) (effectivePrice (storedBid 2))"
  unfolding storedBid_def largestBid_def activeRequest_def plainRequest_def by code_simp

text \<open>A DSP bid that beats the stored bid and one that does not.\<close>

definition dspOffer :: "int64 \<Rightarrow> DynamicBid" where
  "dspOffer pacing = \<lparr>dynBid = (storedBid 0)\<lparr>bidID := ''dsp:x'', bidPacingBPS := pacing\<rparr>, dynBidderID = ''dsp''\<rparr>"

theorem winner_is_best_registry_bid_witness:
  "\<exists>b. decBid (fst (Auctioneer_RunWithDynamic DefaultAuctionPolicy 1 1 activeRequest
      [dspOffer 10000, dspOffer 1] reconciledCache)) = Some b
    \<and> \<not> ranksAhead (storedBid 2) (effectivePrice (storedBid 2)) b (effectivePrice b)"
proof -
  have p: "reqPlacementID activeRequest = ''p''" by (simp add: activeRequest_def plainRequest_def)
  obtain b where b: "decBid (fst (Auctioneer_RunWithDynamic DefaultAuctionPolicy 1 1 activeRequest
      [dspOffer 10000, dspOffer 1] reconciledCache)) = Some b"
    using run_fills [OF _ _ activeRequest_valid _ storedBid_eligible, of reconciledCache 1]
      example_snapshot [OF refl] p
    by (auto simp: Auctioneer_RunWithDynamic_def)
  have indexed: "reqPlacementID activeRequest
      \<in> set (SMEMBERS memoryRedis (server (depWorld putDeployment)) (placementsKey exampleStore))"
    by (simp only: putDeployment_world(2) example_reconcile(1) p list.set insertI1)
  have "storedBid 2 \<in> activeIn memoryRedis exampleStore (depWorld putDeployment) ''p''"
    unfolding putDeployment_world(2) using jsonWorld_active storedBid_valid [of 2]
    by (simp add: activeIn_def storedBid_valid)
  with winner_is_best_registry_bid [OF putDeployment_reachable
      example_reconcile(2) [folded putDeployment_world(2)] indexed activeRequest_valid b] p b storedBid_eligible
  show ?thesis by auto
qed

section \<open>From the handlers to the registry\<close>

text \<open>
  C31: an accepted upsert is in the registry and on its way to the auctions. When a \<open>PUT\<close> request is
  answered 200, its body decodes to a bid whose ID is the one in the path; the normalised bid is
  valid and is what the response shows, Redis holds its JSON under its placement and ID, the
  placement is indexed, an invalidation is published, and a refresh of that placement is in flight on
  the answering instance.
\<close>

theorem accepted_upsert_is_stored:
  assumes start: "holds R st g ps (server (srvStore s))"
    and run: "serveHTTP R st ck PutBid r s = (Returns response, s')" and "rsStatus response = 200"
  shows "\<exists>bid0 bid. unmarshalBid True (rqBody r) = Some bid0 \<and> bid = Bid_Normalize bid0
    \<and> bidID bid = rqPathID r \<and> rsBody response = BidBody bid
    \<and> bid \<in> activeIn R st (srvStore s') (bidPlacementID bid)
    \<and> bidPlacementID bid \<in> set (SMEMBERS R (server (srvStore s')) (placementsKey st))
    \<and> (eventsKey st, bidPlacementID bid) \<in> set (PUBLISHED R (server (srvStore s')))
    \<and> bidPlacementID bid \<in> cacheInflight (srvCache s')"
proof -
  obtain answer where up: "Server_upsertBid (jsonStore R st) (unmarshalBid True) r s = (answer, s')"
    and response: "response = securityHeaders answer"
    using run surjective_pairing [of "Server_upsertBid (jsonStore R st) (unmarshalBid True) r s"]
    by (fastforce simp: serveHTTP_def Server_Handler_def Let_def split_beta)
  then have ok: "rsStatus answer = 200" "rsBody response = rsBody answer"
    using assms(3) by (simp_all add: securityHeaders_def)
  have auth: "Server_authorized r s"
    using up ok by (auto simp: Server_upsertBid_def writeJSON_def Let_def split: if_splits)
  from upsert_handler_status [OF auth up] ok obtain bid0
    where bid0: "decodeJSON (unmarshalBid True) r = Some bid0" "bidID bid0 = rqPathID r"
      "Bid_Validate (Bid_Normalize bid0) = None"
    by (auto split: option.splits if_splits)
  let ?b = "Bid_Normalize bid0"
  from upsert_handler_status [OF auth up] ok bid0
  have ups: "RedisStore_Upsert R marshalBid st ?b (srvStore s) = (None, srvStore s')"
    and body: "rsBody response = BidBody ?b"
    and cache: "srvCache s' = BidCache_RefreshAsync (bidPlacementID ?b) (srvCache s)"
    by (auto simp: prod_eq_iff jsonStore_def split: option.splits if_splits)
  let ?m = "mutate (bidPlacementID ?b, bidID ?b) (bidRevision ?b) (Some (marshalBid ?b)) g"
  note stored = RedisStore_Upsert_success [OF start ups]
  have "regActive (snd ?m) (bidPlacementID ?b, bidID ?b) = Some (marshalBid ?b)"
    using stored(2) by (intro mutate_accepted_active) simp
  moreover have held: "holds R st (snd ?m) (insert (bidPlacementID ?b) ps) (server (srvStore s'))"
    using stored(3) by simp
  ultimately have "?b \<in> activeIn R st (srvStore s') (bidPlacementID ?b)"
    unfolding activeIn_activeBids [OF held] using bid0(3) by (simp add: activeBids_def)
  moreover have "(eventsKey st, bidPlacementID ?b) \<in> set (PUBLISHED R (server (srvStore s')))"
    using RedisStore_Upsert_outcome [OF start ups] bid0(3) by (simp add: mutationOutcome_simps)
  moreover have "bidPlacementID ?b \<in> set (SMEMBERS R (server (srvStore s')) (placementsKey st))"
    using held by (simp add: holds_def)
  moreover have "bidPlacementID ?b \<in> cacheInflight (srvCache s')"
    using valid_bidD(9) [of True ?b] bid0(3) unfolding cache
    by (auto simp: BidCache_RefreshAsync_def Bid_Validate_def)
  ultimately show ?thesis using body bid0 by (auto simp: decodeJSON_def split: if_splits)
qed

theorem accepted_upsert_is_stored_witness:
  "rsStatus (securityHeaders (writeJSON 200 (BidBody (storedBid 2)))) = 200
    \<and> storedBid 2 \<in> activeIn memoryRedis exampleStore (srvStore (snd putResult)) ''p''
    \<and> ''p'' \<in> cacheInflight (srvCache (snd putResult))"
proof -
  let ?response = "securityHeaders (writeJSON 200 (BidBody (storedBid 2)))"
  have start: "holds memoryRedis exampleStore emptyRegistry {}
      (server (srvStore ((depServers emptyDeployment 0)\<lparr>srvStore := depWorld emptyDeployment\<rparr>)))"
    by (simp add: emptyDeployment_def emptyMemory_holds)
  have run: "putResult = (Returns ?response, snd putResult)"
    using putDeployment_world(1) by (metis prod.collapse)
  have status: "rsStatus ?response = 200" by (simp add: securityHeaders_def writeJSON_def)
  have body: "rsBody ?response = BidBody (storedBid 2)" by (simp add: securityHeaders_def writeJSON_def)
  from accepted_upsert_is_stored [OF start run status] body status show ?thesis
    by (elim exE conjE) simp
qed

section \<open>From the decision to the client\<close>

text \<open>
  C18: the client of an auction reads the decision. While the decision logger is open, a request that
  decodes and validates is answered with status 200 and one JSON object, in which the status and both
  prices are those of the auctioneer's decision on the local state. The bid that is read is the
  winning bid with every byte that is not UTF-8 replaced, as \<open>encoding/json\<close> does it; for a bid in UTF-8,
  as every bid decoded from JSON is, it is the winning bid itself.
\<close>

theorem auction_response_readable:
  assumes "decodeJSON unmarshalRequest r = Some request" and "AuctionRequest_Validate request" and "loggerOpen s"
  shows "\<exists>response s' ms. serveHTTP R st ck PostAuction r s = (Returns response, s') \<and> rsStatus response = 200
    \<and> parseDocument (encodeBody cause (rsBody response)) = Some (JObject ms)
    \<and> readBid ms = map_option coerceBid (decBid (handlerDecision ck request s))
    \<and> (\<forall>b. decBid (handlerDecision ck request s) = Some b \<and> utf8Bid b \<longrightarrow> readBid ms = Some b)
    \<and> map_of ms ''status'' = Some (JString (if decBid (handlerDecision ck request s) = None then ''no_bid'' else ''filled''))
    \<and> readInt64 ''effective_price_micros'' ms = Some (if decBid (handlerDecision ck request s) = None then 0
        else decEffectivePriceMicros (handlerDecision ck request s))
    \<and> readInt64 ''clearing_price_micros'' ms = Some (if decBid (handlerDecision ck request s) = None then 0
        else decClearingPriceMicros (handlerDecision ck request s))"
proof -
  let ?d = "handlerDecision ck request s"
  let ?body = "auctionResponse (fst (Server_requestID r s)) (policyPricingModel (srvPolicy s))
    (Microseconds (time_Sub (ckSelected ck) (ckSelectionStarted ck))) ?d"
  let ?response = "securityHeaders (writeJSON 200 (AuctionBody ?body))"
  obtain s' where "serveHTTP R st ck PostAuction r s = (Returns ?response, s')"
    using auction_valid_request [OF assms(1-3), of ck] by (auto simp: serveHTTP_def Server_Handler_def)
  moreover have "parseDocument (encodeBody cause (rsBody ?response)) = Some (JObject (wireMembers responseFields ?body))"
    using document_line [OF scan_response] by (simp add: securityHeaders_def writeJSON_def)
  moreover have "rsStatus ?response = 200" by (simp add: securityHeaders_def writeJSON_def)
  moreover have "respBid ?body = decBid ?d" "respStatus ?body = (if decBid ?d = None then ''no_bid'' else ''filled'')"
    "respEffectivePriceMicros ?body = (if decBid ?d = None then 0 else decEffectivePriceMicros ?d)"
    "respClearingPriceMicros ?body = (if decBid ?d = None then 0 else decClearingPriceMicros ?d)"
    by (simp_all add: auctionResponse_def AuctionDecision_Filled_def Let_def)
  moreover have "encodedString ''status'' False respStatus \<in> set responseFields"
    "encodedInt64 ''effective_price_micros'' True respEffectivePriceMicros \<in> set responseFields"
    "encodedInt64 ''clearing_price_micros'' True respClearingPriceMicros \<in> set responseFields"
    by (simp_all add: responseFields_def)
  moreover have "coerceUTF8 ''no_bid'' = ''no_bid''" "coerceUTF8 ''filled'' = ''filled''"
    by (simp_all add: coerceUTF8_valid ascii_valid)
  ultimately show ?thesis
    using response_bid [of ?body]
    by (intro exI [of _ ?response] exI [of _ s'] exI [of _ "wireMembers responseFields ?body"])
      (auto simp: response_strings response_int64 coerceBid_id)
qed

definition auctionRequestHTTP :: Request where
  \<open>auctionRequestHTTP = exampleHTTP\<lparr>rqBody := ''{"placement_id":"p","country":"US","device":"ios"}''\<rparr>\<close>

lemma auctionRequest_decodes: "decodeJSON unmarshalRequest auctionRequestHTTP = Some activeRequest"
proof -
  have "parseDocument (rqBody auctionRequestHTTP)
      = Some (JObject [(''placement_id'', JString ''p''), (''country'', JString ''US''), (''device'', JString ''ios'')])"
    unfolding auctionRequestHTTP_def by code_simp
  then have "unmarshalRequest (rqBody auctionRequestHTTP) = Some activeRequest"
    by (simp add: unmarshalRequest_def unmarshalStruct_def decodeStruct_def requestFields_def lookupField_def
        stringField_def int64Field_def decodeString_def zeroRequest_def activeRequest_def plainRequest_def)
  moreover have "length (rqBody auctionRequestHTTP) \<le> 65536" by (simp add: auctionRequestHTTP_def)
  ultimately show ?thesis by (simp add: decodeJSON_def)
qed

definition reconciledServer :: "memory world Server" where
  "reconciledServer = NewServer defaultConfig jsonWorld reconciledCache"

lemma reconciledServer_decision:
  "decBid (handlerDecision (exampleClock\<lparr>ckRead := 1, ckNow := 1\<rparr>) activeRequest reconciledServer) = Some (storedBid 2)"
proof -
  let ?d = "decisionOf (srvPolicy reconciledServer) 1 1 activeRequest [] reconciledCache"
  have p: "reqPlacementID activeRequest = ''p''" by (simp add: activeRequest_def plainRequest_def)
  obtain b where b: "decBid ?d = Some b"
    using run_fills [OF _ _ activeRequest_valid _ storedBid_eligible, of reconciledCache 1]
      example_snapshot [OF refl] p by fastforce
  then have "b = storedBid 2"
    using run_winner_best [OF b activeRequest_valid] example_snapshot [OF refl] p
    by (auto simp: set_auctionCandidates)
  with b show ?thesis
    by (simp add: handlerDecision_def Auctioneer_RunWithDynamic_def consultEngine_def reconciledServer_def NewServer_def)
qed

theorem auction_response_readable_witness:
  "\<exists>response s' ms. serveHTTP memoryRedis exampleStore (exampleClock\<lparr>ckRead := 1, ckNow := 1\<rparr>) PostAuction
      auctionRequestHTTP reconciledServer = (Returns response, s')
    \<and> parseDocument (encodeBody [] (rsBody response)) = Some (JObject ms) \<and> readBid ms = Some (storedBid 2)"
proof -
  have "loggerOpen reconciledServer"
    by (simp add: loggerOpen_def reconciledServer_def NewServer_def NewDecisionLogger_def defaultConfig_def)
  from auction_response_readable [OF auctionRequest_decodes activeRequest_valid this,
      where R = memoryRedis and st = exampleStore and ck = "exampleClock\<lparr>ckRead := 1, ckNow := 1\<rparr>" and cause = "[]",
      unfolded reconciledServer_decision]
    storedBid_utf8
  show ?thesis by blast
qed

section \<open>DSP supply and private deals\<close>

text \<open>
  C23: DSP supply never displaces a private deal. On a server whose engine is in any reachable state,
  whatever requests triggered its refreshes, when some snapshot bid with a positive priority is eligible for a valid request, a filled auction
  goes to a snapshot bid with a positive priority and reports no DSP bidder.
\<close>

theorem private_deals_win:
  assumes "engine_reachable allowed config configs y" and "srvBidderEngine s = Some y"
    and valid: "AuctionRequest_Validate request"
    and deal: "b \<in> set (fst (BidCache_Get (srvCache s) (ckRead ck) (reqPlacementID request)))"
      "0 <s bidPriority b" "eligible b request (time_Unix (ckNow ck)) (effectivePrice b)"
    and filled: "decBid (handlerDecision ck request s) = Some win"
  shows "win \<in> set (fst (BidCache_Get (srvCache s) (ckRead ck) (reqPlacementID request)))
    \<and> 0 <s bidPriority win \<and> decDynamicBidderID (handlerDecision ck request s) = []"
proof -
  let ?dynamic = "fst (consultEngine ck request s)"
  have "?dynamic = (case fst (BidderEngine_Lookup (ckLookup ck) request (esEngine y)) of
      None \<Rightarrow> [] | Some bids \<Rightarrow> bids)"
    using assms(2) by (simp add: consultEngine_def Let_def split: prod.split)
  then have "\<forall>x \<in> set ?dynamic. bidPriority (dynBid x) = 0"
    using Lookup_open_market [OF assms(1), of "ckLookup ck" request]
    by (auto simp: openMarketBid_def split: option.splits)
  with filled show ?thesis
    unfolding handlerDecision_def Auctioneer_RunWithDynamic_def
    by (intro run_deal_first [OF _ valid _ deal]) simp_all
qed

definition dealBid :: Bid where
  "dealBid = (exampleBid ''winner'' 900 8000 5)\<lparr>bidPlacementID := ''p''\<rparr>"

definition dealServer :: "unit Server" where
  "dealServer = (NewServer defaultConfig () (installSnapshot ''p'' [dealBid] 0 (NewBidCache minute)))
     \<lparr>srvBidderEngine := Some exStored\<rparr>"

lemma deal_snapshot:
  "BidCache_Get (srvCache dealServer) 4 ''p'' =
    ([dealBid], \<lparr>snapFound = True, snapStale = False, snapRejectStale = False, snapAge = 4\<rparr>)"
proof -
  let ?c = "NewBidCache minute"
  have "snd (BidCache_Get (installSnapshot ''p'' [dealBid] 0 ?c) 4 ''p'') =
      \<lparr>snapFound = True, snapStale = False, snapRejectStale = False, snapAge = 4\<rparr>"
    using Get_installSnapshot [of 0 4 "''p''" "[dealBid]" ?c]
    by (simp add: nanoRange_def NewBidCache_def NewBidCacheWithPolicy_def DefaultCachePolicy_def
        CachePolicy_Validate_def i64_simps minute_def second_def)
  moreover have "fst (BidCache_Get (installSnapshot ''p'' [dealBid] 0 ?c) 4 ''p'') = [dealBid]"
    by (simp add: BidCache_Get_def installSnapshot_def Let_def sortBids_def dealBid_def exampleBid_def
        Bid_Normalize_def)
  ultimately show ?thesis by (simp add: prod_eq_iff dealServer_def NewServer_def)
qed

lemma deal_eligible: "eligible dealBid activeRequest (time_Unix 5) (effectivePrice dealBid)"
  unfolding dealBid_def activeRequest_def plainRequest_def by code_simp

theorem private_deals_win_witness:
  "\<exists>win. decBid (handlerDecision exampleClock activeRequest dealServer) = Some win
    \<and> 0 <s bidPriority win \<and> decDynamicBidderID (handlerDecision exampleClock activeRequest dealServer) = []"
proof -
  have p: "reqPlacementID activeRequest = ''p''" by (simp add: activeRequest_def plainRequest_def)
  have clock: "ckRead exampleClock = 4" "ckNow exampleClock = 5" by (simp_all add: exampleClock_def)
  have engine: "srvBidderEngine dealServer = Some exStored" by (simp add: dealServer_def)
  have deal: "dealBid \<in> set (fst (BidCache_Get (srvCache dealServer) (ckRead exampleClock)
      (reqPlacementID activeRequest)))"
    "0 <s bidPriority dealBid" "eligible dealBid activeRequest (time_Unix (ckNow exampleClock)) (effectivePrice dealBid)"
    unfolding clock p deal_snapshot
    by (simp_all add: deal_eligible) (simp add: dealBid_def exampleBid_def i64_simps)
  obtain win where win: "decBid (handlerDecision exampleClock activeRequest dealServer) = Some win"
    unfolding handlerDecision_def Auctioneer_RunWithDynamic_def
    by (rule exE [OF run_fills [OF _ _ activeRequest_valid deal(1,3)]])
      (simp_all only: clock p deal_snapshot snd_conv SnapshotState.select_convs simp_thms)
  from private_deals_win [OF ex_reachable(3) engine activeRequest_valid deal win] win
  show ?thesis by auto
qed

end
